(* ===== verification/Go_Prelude.thy ===== *)
theory Go_Prelude
  imports Main "HOL-Library.Word"
begin

text \<open>
  Shared vocabulary of the development: the Go integer and array types the program uses, the
  outcome of a Go computation that may panic or run out of fuel, and the generic lemmas on
  lists, maps and words that the component theories use.

  \<^item> \<open>uint64\<close>, \<open>byte\<close>, \<open>[20]byte\<close> and \<open>[32]byte\<close> are words; fixed-size arrays are read
    big-endian, so the array's number is the value of the word.
  \<^item> \<open>*big.Int\<close> is \<^typ>\<open>int\<close>; the program never mutates a number that another component
    still refers to, so numbers are values.
  \<^item> \<open>Panic\<close> is a Go run-time panic (index out of range, nil dereference, explicit
    \<open>panic\<close>); errors that Go returns as values are values of the model.
\<close>

subsection \<open>Types\<close>

type_synonym byte = "8 word"
type_synonym bytes = "byte list"
type_synonym uint64 = "64 word"
type_synonym Address = "160 word"
type_synonym Hash = "256 word"

datatype 'a outcome = Done 'a | Panic | OutOfFuel

definition obind :: "'a outcome \<Rightarrow> ('a \<Rightarrow> 'b outcome) \<Rightarrow> 'b outcome" where
  "obind m f = (case m of Done x \<Rightarrow> f x | Panic \<Rightarrow> Panic | OutOfFuel \<Rightarrow> OutOfFuel)"

subsection \<open>Collections of rewrite rules\<close>

named_theorems u256_simps \<open>arithmetic modulo the 256-bit word size\<close>
named_theorems frame_simps \<open>fields an operation leaves alone\<close>
named_theorems journal_intros \<open>rules that a state operation can be undone\<close>

subsection \<open>Outcomes\<close>

lemma obind_Done [simp]: "obind (Done x) f = f x"
  by (simp add: obind_def)

lemma obind_Panic [simp]: "obind Panic f = Panic"
  by (simp add: obind_def)

lemma obind_OutOfFuel [simp]: "obind OutOfFuel f = OutOfFuel"
  by (simp add: obind_def)

lemma obind_Done_iff [simp]:
  "obind m f = Done y \<longleftrightarrow> (\<exists>x. m = Done x \<and> f x = Done y)"
  by (cases m) auto

lemma obind_assoc: "obind (obind m f) g = obind m (\<lambda>x. obind (f x) g)"
  by (cases m) auto

lemma obind_cong [fundef_cong]:
  "m = m' \<Longrightarrow> (\<And>x. m' = Done x \<Longrightarrow> f x = f' x) \<Longrightarrow> obind m f = obind m' f'"
  by (cases m') auto

subsection \<open>Unsigned 64-bit arithmetic\<close>

lemma unat_uint64_lt [simp]: "unat (x :: uint64) < 18446744073709551616"
  using unsigned_less [of x] by simp

lemma unat_add_uint64:
  "unat (x :: uint64) + unat y < 18446744073709551616 \<Longrightarrow> unat (x + y) = unat x + unat y"
  using unat_add_lem [of x y] by simp

lemma unat_sub_uint64: "y \<le> (x :: uint64) \<Longrightarrow> unat (x - y) = unat x - unat y"
  by (rule unat_sub)

lemma unat_mult_uint64:
  "unat (x :: uint64) * unat y < 18446744073709551616 \<Longrightarrow> unat (x * y) = unat x * unat y"
  using unat_mult_lem [of x y] by simp

subsection \<open>Lists\<close>

lemma rev_drop_append:
  "n \<le> length xs \<Longrightarrow> rev (drop n (xs @ ys)) = rev ys @ rev (drop n xs)"
  by simp

lemma nth_Cons_numeral_simps:
  "(x # xs) ! 0 = x" "(x # xs) ! Suc n = xs ! n"
  by simp_all

lemma length_ge_Suc_conv: "Suc n \<le> length xs \<longleftrightarrow> (\<exists>y ys. xs = y # ys \<and> n \<le> length ys)"
  by (cases xs) auto

end
