(* ===== verification/Common_Math.thy ===== *)
theory Common_Math
  imports Go_Prelude
begin

text \<open>
  The number and byte helpers of the packages \<open>common\<close> and \<open>common/math\<close>
  (\<open>src/common/math/big.go\<close>, \<open>src/common/math/integer.go\<close>, \<open>src/common/bytes.go\<close>,
  \<open>src/common/types.go\<close>). The state database, the virtual machine and the state transition are
  written over these definitions.

  The operations of Go's \<open>math/big\<close> that the source uses are \<open>Bits\<close> (the 64-bit limbs,
  least significant first), \<open>BitLen\<close>, \<open>Bytes\<close> and \<open>SetBytes\<close>.
\<close>

unbundle bit_operations_syntax

subsection \<open>Operations of big.Int that the source uses\<close>

fun bitlen_nat :: "nat \<Rightarrow> nat" where
  "bitlen_nat n = (if n = 0 then 0 else Suc (bitlen_nat (n div 2)))"

definition BitLen :: "int \<Rightarrow> nat" where
  "BitLen x = bitlen_nat (nat \<bar>x\<bar>)"

fun limbs :: "nat \<Rightarrow> nat list" where
  "limbs n = (if n = 0 then [] else n mod 2 ^ 64 # limbs (n div 2 ^ 64))"

definition Bits :: "int \<Rightarrow> nat list" where
  "Bits x = limbs (nat \<bar>x\<bar>)"

fun be_bytes :: "nat \<Rightarrow> bytes" where
  "be_bytes n = (if n = 0 then [] else be_bytes (n div 256) @ [word_of_nat n])"

definition Bytes :: "int \<Rightarrow> bytes" where
  "Bytes x = be_bytes (nat \<bar>x\<bar>)"

fun be_nat :: "nat \<Rightarrow> bytes \<Rightarrow> nat" where
  "be_nat a [] = a"
| "be_nat a (b # bs) = be_nat (a * 256 + unat b) bs"

definition SetBytes :: "bytes \<Rightarrow> int" where
  "SetBytes bs = int (be_nat 0 bs)"

definition bigUint64_value :: "int \<Rightarrow> uint64" where
  \<comment> \<open>\<open>big.Int.Uint64\<close>: the low 64 bits\<close>
  "bigUint64_value x = word_of_int x"

declare bitlen_nat.simps [simp del] limbs.simps [simp del] be_bytes.simps [simp del]

subsection \<open>Words of 256 bits: common/math/big.go\<close>

definition tt255 :: int where "tt255 = 2 ^ 255"
definition tt256 :: int where "tt256 = 2 ^ 256"
definition tt256m1 :: int where "tt256m1 = tt256 - 1"

definition U256 :: "int \<Rightarrow> int" where
  "U256 x = x AND tt256m1"

definition S256 :: "int \<Rightarrow> int" where
  "S256 x = (if x < tt255 then x else x - tt256)"

definition BigMax :: "int \<Rightarrow> int \<Rightarrow> int" where
  "BigMax x y = (if x < y then y else x)"

definition BigMin :: "int \<Rightarrow> int \<Rightarrow> int" where
  "BigMin x y = (if x > y then y else x)"

text \<open>
  \<open>Exp\<close>: the inner loop runs over the 64 bits of one limb, the outer loop over the limbs of
  the exponent; both variables \<open>result\<close> and \<open>base\<close> are updated in place.
\<close>

fun Exp_word :: "nat \<Rightarrow> nat \<Rightarrow> int \<Rightarrow> int \<Rightarrow> int \<times> int" where
  "Exp_word 0 word result base = (result, base)"
| "Exp_word (Suc i) word result base =
     (let result' = (if word mod 2 = 1 then U256 (result * base) else result);
          base' = U256 (base * base)
      in Exp_word i (word div 2) result' base')"

fun Exp_words :: "nat list \<Rightarrow> int \<Rightarrow> int \<Rightarrow> int" where
  "Exp_words [] result base = result"
| "Exp_words (w # ws) result base =
     (let (result', base') = Exp_word 64 w result base in Exp_words ws result' base')"

definition Exp :: "int \<Rightarrow> int \<Rightarrow> int" where
  "Exp base exponent = Exp_words (Bits exponent) 1 base"

definition FirstBitSet :: "int \<Rightarrow> nat" where
  "FirstBitSet v =
     (case filter (\<lambda>i. bit v i) [0..<BitLen v] of [] \<Rightarrow> BitLen v | i # _ \<Rightarrow> i)"

text \<open>\<open>bigEndianByteAt\<close> picks the limb that holds byte \<open>n\<close> and shifts it down.\<close>

definition bigEndianByteAt :: "int \<Rightarrow> nat \<Rightarrow> byte" where
  "bigEndianByteAt x n =
     (let words = Bits x; i = n div 8
      in if i \<ge> length words then 0
         else word_of_nat (words ! i div 2 ^ (8 * (n mod 8))))"

definition Byte :: "int \<Rightarrow> nat \<Rightarrow> nat \<Rightarrow> byte" where
  "Byte x padlength n = (if n \<ge> padlength then 0 else bigEndianByteAt x (padlength - 1 - n))"

text \<open>
  \<open>ReadBits\<close> writes the limbs into the buffer from its end; \<open>i\<close> is the index above the next
  byte to write.
\<close>

fun ReadBits_word :: "nat \<Rightarrow> nat \<Rightarrow> nat \<Rightarrow> bytes \<Rightarrow> nat \<times> bytes" where
  "ReadBits_word 0 d i buf = (i, buf)"
| "ReadBits_word (Suc j) d i buf =
     (if i > 0 then ReadBits_word j (d div 256) (i - 1) (buf[i - 1 := word_of_nat d]) else (i, buf))"

fun ReadBits_words :: "nat list \<Rightarrow> nat \<Rightarrow> bytes \<Rightarrow> bytes" where
  "ReadBits_words [] i buf = buf"
| "ReadBits_words (d # ds) i buf =
     (let (i', buf') = ReadBits_word 8 d i buf in ReadBits_words ds i' buf')"

definition ReadBits :: "int \<Rightarrow> bytes \<Rightarrow> bytes" where
  "ReadBits x buf = ReadBits_words (Bits x) (length buf) buf"

definition PaddedBigBytes :: "int \<Rightarrow> nat \<Rightarrow> bytes" where
  "PaddedBigBytes x n =
     (if BitLen x div 8 \<ge> n then Bytes x else ReadBits x (replicate n 0))"

subsection \<open>Overflow checks on uint64: common/math/integer.go\<close>

definition MaxUint64 :: uint64 where "MaxUint64 = 18446744073709551615"

definition SafeSub :: "uint64 \<Rightarrow> uint64 \<Rightarrow> uint64 \<times> bool" where
  "SafeSub x y = (x - y, x < y)"

definition SafeAdd :: "uint64 \<Rightarrow> uint64 \<Rightarrow> uint64 \<times> bool" where
  "SafeAdd x y = (x + y, y > MaxUint64 - x)"

definition SafeMul :: "uint64 \<Rightarrow> uint64 \<Rightarrow> uint64 \<times> bool" where
  "SafeMul x y = (if x = 0 \<or> y = 0 then (0, False) else (x * y, y > MaxUint64 div x))"

subsection \<open>Byte slices and fixed-size arrays: common/bytes.go, common/types.go\<close>

definition RightPadBytes :: "bytes \<Rightarrow> nat \<Rightarrow> bytes" where
  "RightPadBytes sl l = (if l \<le> length sl then sl else sl @ replicate (l - length sl) 0)"

definition LeftPadBytes :: "bytes \<Rightarrow> nat \<Rightarrow> bytes" where
  "LeftPadBytes sl l = (if l \<le> length sl then sl else replicate (l - length sl) 0 @ sl)"

definition crop_left :: "nat \<Rightarrow> bytes \<Rightarrow> bytes" where
  \<comment> \<open>the common body of \<open>Hash.SetBytes\<close> and \<open>Address.SetBytes\<close>\<close>
  "crop_left n b = (if length b > n then drop (length b - n) b else b)"

definition BytesToHash :: "bytes \<Rightarrow> Hash" where
  "BytesToHash b = word_of_nat (be_nat 0 (crop_left 32 b))"

definition BigToHash :: "int \<Rightarrow> Hash" where
  "BigToHash b = BytesToHash (Bytes b)"

definition Hash_Big :: "Hash \<Rightarrow> int" where
  "Hash_Big h = uint h"

definition EmptyHash :: "Hash \<Rightarrow> bool" where
  "EmptyHash h \<longleftrightarrow> h = 0"

definition BytesToAddress :: "bytes \<Rightarrow> Address" where
  "BytesToAddress b = word_of_nat (be_nat 0 (crop_left 20 b))"

definition BigToAddress :: "int \<Rightarrow> Address" where
  "BigToAddress b = BytesToAddress (Bytes b)"

definition Address_Big :: "Address \<Rightarrow> int" where
  "Address_Big a = uint a"

definition Address_Bytes :: "Address \<Rightarrow> bytes" where
  "Address_Bytes a = LeftPadBytes (Bytes (uint a)) 20"

definition Hash_Bytes :: "Hash \<Rightarrow> bytes" where
  "Hash_Bytes h = LeftPadBytes (Bytes (uint h)) 32"

subsection \<open>Bit lengths and limbs\<close>

lemma bitlen_nat_le_iff: "bitlen_nat n \<le> k \<longleftrightarrow> n < 2 ^ k"
proof (induction n arbitrary: k rule: bitlen_nat.induct)
  case (1 n)
  show ?case
  proof (cases "n = 0")
    case True
    then show ?thesis by (simp add: bitlen_nat.simps)
  next
    case False
    with "1.IH" show ?thesis
      by (cases k) (auto simp: bitlen_nat.simps [of n] less_mult_imp_div_less mult.commute
          div_less_iff_less_mult)
  qed
qed

lemma BitLen_le_iff: "0 \<le> x \<Longrightarrow> BitLen x \<le> k \<longleftrightarrow> x < 2 ^ k"
  by (simp add: BitLen_def bitlen_nat_le_iff nat_less_iff)

lemma BitLen_eq_0_iff [simp]: "BitLen x = 0 \<longleftrightarrow> x = 0"
  by (simp add: BitLen_def bitlen_nat.simps)

fun limbs_value :: "nat list \<Rightarrow> nat" where
  "limbs_value [] = 0"
| "limbs_value (w # ws) = w + 2 ^ 64 * limbs_value ws"

lemma limbs_value_limbs: "limbs_value (limbs n) = n"
  by (induction n rule: limbs.induct) (subst limbs.simps, simp)

lemma limbs_bound: "\<forall>w \<in> set (limbs n). w < 2 ^ 64"
  by (induction n rule: limbs.induct) (subst limbs.simps, simp)

lemma limbs_nth: "i < length (limbs n) \<Longrightarrow> limbs n ! i = n div 2 ^ (64 * i) mod 2 ^ 64"
proof (induction n arbitrary: i rule: limbs.induct)
  case (1 n)
  show ?case
  proof (cases "n = 0")
    case True
    with "1.prems" show ?thesis by (simp add: limbs.simps)
  next
    case False
    with "1" show ?thesis
      by (cases i) (auto simp: limbs.simps [of n] div_mult2_eq [symmetric] power_add algebra_simps)
  qed
qed

lemma limbs_length: "length (limbs n) \<le> i \<Longrightarrow> n < 2 ^ (64 * i)"
proof (induction n arbitrary: i rule: limbs.induct)
  case (1 n)
  show ?case
  proof (cases "n = 0")
    case False
    then obtain k where k: "i = Suc k" and len: "length (limbs (n div 2 ^ 64)) \<le> k"
      using "1.prems" by (cases i) (auto simp: limbs.simps [of n])
    from False len have "n div 2 ^ 64 < 2 ^ (64 * k)" by (rule "1.IH")
    then show ?thesis
      by (simp add: k div_less_iff_less_mult power_add mult.commute)
  qed simp
qed

subsection \<open>U256 and S256\<close>

lemma U256_mod [u256_simps]: "U256 x = x mod 2 ^ 256"
proof -
  have "tt256m1 = mask 256"
    by (simp add: tt256m1_def tt256_def mask_eq_exp_minus_1)
  then have "U256 x = take_bit 256 x"
    unfolding U256_def by (simp only: take_bit_eq_mask)
  then show ?thesis by (simp only: take_bit_eq_mod)
qed

lemma U256_bounds [simp]: "0 \<le> U256 x" "U256 x < 2 ^ 256"
  by (simp_all only: U256_mod, simp_all)

lemma U256_id: "0 \<le> x \<Longrightarrow> x < 2 ^ 256 \<Longrightarrow> U256 x = x"
  by (simp only: U256_mod mod_pos_pos_trivial)

lemma U256_uint: "U256 x = uint (word_of_int x :: 256 word)"
  by (simp add: U256_mod uint_word_of_int)

lemma S256_sint: "S256 (uint (w :: 256 word)) = sint w"
proof -
  have "uint w < 2 ^ 256"
    using uint_lt2p [of w] by simp
  then have "uint w div 2 ^ 255 = (if uint w < 2 ^ 255 then 0 else 1)"
    by (auto simp: div_pos_geq)
  then have "bit (uint w) 255 \<longleftrightarrow> \<not> uint w < 2 ^ 255"
    by (simp only: bit_iff_odd) (simp split: if_splits)
  with \<open>uint w < 2 ^ 256\<close> show ?thesis
    by (simp add: S256_def tt255_def tt256_def sint_uint signed_take_bit_eq_take_bit_minus
        take_bit_eq_mod)
qed


lemma S256_bounds: "0 \<le> x \<Longrightarrow> x < 2 ^ 256 \<Longrightarrow> - (2 ^ 255) \<le> S256 x \<and> S256 x < 2 ^ 255"
  by (auto simp: S256_def tt255_def tt256_def)

lemma U256_S256: "0 \<le> x \<Longrightarrow> x < 2 ^ 256 \<Longrightarrow> U256 (S256 x) = x"
  by (auto simp: S256_def tt255_def tt256_def U256_mod)

lemma S256_U256: "- (2 ^ 255) \<le> x \<Longrightarrow> x < 2 ^ 255 \<Longrightarrow> S256 (U256 x) = x"
proof -
  assume b: "- (2 ^ 255) \<le> x" "x < 2 ^ 255"
  show ?thesis
  proof (cases "0 \<le> x")
    case True
    with b show ?thesis by (simp add: S256_def tt255_def U256_mod)
  next
    case False
    have "x mod 2 ^ 256 = (x + 2 ^ 256) mod 2 ^ 256"
      by (simp only: mod_add_self2)
    also have "\<dots> = x + 2 ^ 256"
      by (rule mod_pos_pos_trivial) (use b False in simp_all)
    finally have "U256 x = x + 2 ^ 256" by (simp only: U256_mod)
    with b False show ?thesis
      by (simp add: S256_def tt255_def tt256_def)
  qed
qed

subsection \<open>Exponentiation by squaring\<close>

lemma mult_power_mod_cong:
  fixes a b m :: int
  assumes "a mod m = a' mod m" and "b mod m = b' mod m"
  shows "a * b ^ k mod m = a' * b' ^ k mod m"
proof -
  have "b ^ k mod m = b' ^ k mod m"
    using assms(2) by (metis power_mod)
  with assms(1) show ?thesis by (rule mod_mult_cong)
qed

text \<open>The two loops over an arbitrary modulus; the numeral \<open>2 ^ 256\<close> is put in at the end.\<close>

lemma Exp_word_mod:
  assumes M: "\<And>x. U256 x mod M = x mod M"
    and "Exp_word i w r b = (r', b')" and "w < 2 ^ i"
  shows "r' mod M = r * b ^ w mod M" and "b' mod M = b ^ (2 ^ i) mod M"
proof -
  have "r' mod M = r * b ^ w mod M \<and> b' mod M = b ^ (2 ^ i) mod M"
    using assms(2,3)
  proof (induction i w r b arbitrary: r' b' rule: Exp_word.induct)
    case (1 w r b)
    then show ?case by simp
  next
    case (2 i w r b)
    define r1 where "r1 = (if w mod 2 = 1 then U256 (r * b) else r)"
    have e: "Exp_word i (w div 2) r1 (U256 (b * b)) = (r', b')"
      using "2.prems"(1) by (simp add: r1_def Let_def)
    have "w div 2 < 2 ^ i"
      using "2.prems"(2) by (simp add: less_mult_imp_div_less mult.commute)
    from "2.IH" [OF r1_def refl e this]
    have IH: "r' mod M = r1 * U256 (b * b) ^ (w div 2) mod M"
      "b' mod M = U256 (b * b) ^ (2 ^ i) mod M" by blast+
    have "r1 mod M = r * b ^ (w mod 2) mod M"
      by (cases "w mod 2 = 1") (simp_all add: r1_def M)
    from mult_power_mod_cong [OF this M [of "b * b"]] IH(1)
    have "r' mod M = r * b ^ (w mod 2) * (b * b) ^ (w div 2) mod M" by simp
    also have "r * b ^ (w mod 2) * (b * b) ^ (w div 2) = r * b ^ (w mod 2 + 2 * (w div 2))"
      by (simp only: power_add power_mult power2_eq_square mult.assoc)
    finally have "r' mod M = r * b ^ w mod M" by simp
    moreover have "b' mod M = b ^ (2 ^ Suc i) mod M"
      using IH(2) mult_power_mod_cong [OF refl M [of "b * b"], of 1 "2 ^ i"]
      by (simp add: power_mult power2_eq_square)
    ultimately show ?case by blast
  qed
  then show "r' mod M = r * b ^ w mod M" and "b' mod M = b ^ (2 ^ i) mod M" by blast+
qed

lemma Exp_words_mod:
  assumes M: "\<And>x. U256 x mod M = x mod M"
  shows "\<forall>w \<in> set ws. w < 2 ^ 64 \<Longrightarrow> Exp_words ws r b mod M = r * b ^ limbs_value ws mod M"
proof (induction ws arbitrary: r b)
  case (Cons w ws)
  obtain r' b' where e: "Exp_word 64 w r b = (r', b')" by fastforce
  from Cons.prems have "w < 2 ^ 64" by simp
  note step = Exp_word_mod [OF M e this]
  have "Exp_words (w # ws) r b mod M = Exp_words ws r' b' mod M"
    by (simp only: Exp_words.simps e Let_def case_prod_conv)
  also have "\<dots> = r' * b' ^ limbs_value ws mod M"
    by (rule Cons.IH) (use Cons.prems in simp)
  also have "\<dots> = r * b ^ w * (b ^ (2 ^ 64)) ^ limbs_value ws mod M"
    by (rule mult_power_mod_cong [OF step])
  also have "r * b ^ w * (b ^ (2 ^ 64)) ^ limbs_value ws = r * b ^ limbs_value (w # ws)"
    by (simp only: limbs_value.simps power_add power_mult mult.assoc)
  finally show ?case .
qed simp

lemma Exp_word_bounds:
  "0 \<le> r \<Longrightarrow> r < 2 ^ 256 \<Longrightarrow> 0 \<le> fst (Exp_word i w r b) \<and> fst (Exp_word i w r b) < 2 ^ 256"
proof (induction i w r b rule: Exp_word.induct)
  case (2 i w r b)
  define r1 where "r1 = (if w mod 2 = 1 then U256 (r * b) else r)"
  have "0 \<le> r1" "r1 < 2 ^ 256"
    using "2.prems" U256_bounds [of "r * b"] by (auto simp only: r1_def split: if_splits)
  from "2.IH" [OF r1_def refl this] show ?case
    by (simp only: Exp_word.simps Let_def r1_def)
qed simp

lemma Exp_words_bounds:
  "0 \<le> r \<Longrightarrow> r < 2 ^ 256 \<Longrightarrow> 0 \<le> Exp_words ws r b \<and> Exp_words ws r b < 2 ^ 256"
proof (induction ws arbitrary: r b)
  case (Cons w ws)
  obtain r' b' where e: "Exp_word 64 w r b = (r', b')" by fastforce
  from Exp_word_bounds [OF Cons.prems, of 64 w b] have "0 \<le> r'" "r' < 2 ^ 256"
    by (simp_all only: e fst_conv)
  from Cons.IH [OF this, of b'] show ?case
    by (simp only: Exp_words.simps e Let_def case_prod_conv)
qed simp

lemma Exp_eq: "Exp base e = base ^ nat \<bar>e\<bar> mod 2 ^ 256"
proof -
  have "U256 x mod 2 ^ 256 = x mod 2 ^ 256" for x
    by (simp only: U256_mod mod_mod_trivial)
  from Exp_words_mod [OF this, of "Bits e" 1 base]
  have "Exp base e mod 2 ^ 256 = base ^ nat \<bar>e\<bar> mod 2 ^ 256"
    using limbs_bound [of "nat \<bar>e\<bar>"]
    by (simp only: Exp_def Bits_def limbs_value_limbs mult_1)
  moreover have "0 \<le> Exp base e" "Exp base e < 2 ^ 256"
    using Exp_words_bounds [of 1 "Bits e" base] by (simp_all add: Exp_def)
  ultimately show ?thesis by (simp only: mod_pos_pos_trivial)
qed

subsection \<open>Big-endian byte strings\<close>

lemma be_nat_append: "be_nat a (xs @ ys) = be_nat (be_nat a xs) ys"
  by (induction xs arbitrary: a) auto

lemma be_nat_acc: "be_nat a xs = a * 256 ^ length xs + be_nat 0 xs"
proof (induction xs arbitrary: a)
  case (Cons x xs)
  show ?case
    using Cons.IH [of "a * 256 + unat x"] Cons.IH [of "unat x"] by (simp add: algebra_simps)
qed simp

lemma unat_byte_lt [simp]: "unat (b :: byte) < 256"
  using unsigned_less [of b, where ?'a = nat] by simp

lemma be_nat_bound: "be_nat 0 xs < 256 ^ length xs"
proof (induction xs)
  case (Cons x xs)
  have "unat x * 256 ^ length xs + be_nat 0 xs < (unat x + 1) * 256 ^ length xs"
    using Cons.IH by (simp add: algebra_simps)
  also have "\<dots> \<le> 256 * 256 ^ length xs"
    using unat_byte_lt [of x] by (intro mult_right_mono) (simp_all del: unat_byte_lt)
  finally show ?case
    using be_nat_acc [of "unat x" xs] by simp
qed simp

lemma be_nat_be_bytes [simp]: "be_nat 0 (be_bytes n) = n"
  by (induction n rule: be_bytes.induct)
    (subst be_bytes.simps, simp add: be_nat_append unsigned_of_nat take_bit_eq_mod)

lemma length_be_bytes_le: "length (be_bytes n) \<le> k \<longleftrightarrow> n < 256 ^ k"
proof (induction n arbitrary: k rule: be_bytes.induct)
  case (1 n)
  show ?case
  proof (cases "n = 0")
    case True
    then show ?thesis by (simp add: be_bytes.simps)
  next
    case False
    with "1.IH" show ?thesis
      by (cases k) (auto simp: be_bytes.simps [of n] div_less_iff_less_mult mult.commute)
  qed
qed

lemma be_nat_replicate_0: "be_nat 0 (replicate n 0) = 0"
  by (induction n) simp_all

lemma word_of_nat_nat: "0 \<le> x \<Longrightarrow> (word_of_nat (nat x) :: 'a::len word) = word_of_int x"
  by (metis nat_0_le of_int_of_nat_eq)

lemma SetBytes_Bytes: "SetBytes (Bytes x) = \<bar>x\<bar>"
  by (simp add: SetBytes_def Bytes_def)

lemma be_nat_crop_left:
  assumes "LENGTH('a::len) = 8 * n"
  shows "(word_of_nat (be_nat 0 (crop_left n b)) :: 'a word) = word_of_nat (be_nat 0 b)"
proof (cases "length b > n")
  case True
  let ?t = "take (length b - n) b" and ?d = "drop (length b - n) b"
  have "be_nat 0 b = be_nat 0 (?t @ ?d)" by simp
  also have "\<dots> = be_nat 0 ?t * 256 ^ n + be_nat 0 ?d"
    using True be_nat_acc [of "be_nat 0 ?t" ?d] by (simp only: be_nat_append) simp
  finally have e: "be_nat 0 b = be_nat 0 ?t * 2 ^ LENGTH('a) + be_nat 0 ?d"
    by (simp add: assms power_mult)
  have "(word_of_nat (2 ^ LENGTH('a)) :: 'a word) = 0"
    by (simp add: word_of_nat_eq_0_iff)
  with True show ?thesis
    by (simp only: e crop_left_def if_True of_nat_add of_nat_mult mult_zero_right add_0)
qed (simp add: crop_left_def)

lemma be_nat_LeftPadBytes: "be_nat 0 (LeftPadBytes b n) = be_nat 0 b"
  by (simp add: LeftPadBytes_def be_nat_append be_nat_replicate_0)

lemma length_Hash_Bytes [simp]: "length (Hash_Bytes h) = 32"
proof -
  have "unat h < 256 ^ 32" using unsigned_less [of h, where ?'a = nat] by simp
  then have "length (be_bytes (unat h)) \<le> 32" by (simp only: length_be_bytes_le)
  then show ?thesis by (simp add: Hash_Bytes_def LeftPadBytes_def Bytes_def)
qed

lemma BytesToHash_Hash_Bytes [simp]: "BytesToHash (Hash_Bytes h) = h"
proof -
  have "be_nat 0 (Hash_Bytes h) = unat h"
    by (simp add: Hash_Bytes_def be_nat_LeftPadBytes Bytes_def)
  then show ?thesis by (simp add: BytesToHash_def be_nat_crop_left)
qed

lemma BigToHash_word_of_int: "0 \<le> x \<Longrightarrow> BigToHash x = word_of_int x"
  by (simp add: BigToHash_def BytesToHash_def be_nat_crop_left Bytes_def word_of_nat_nat)

lemma BigToAddress_word_of_int: "0 \<le> x \<Longrightarrow> BigToAddress x = word_of_int x"
  by (simp add: BigToAddress_def BytesToAddress_def be_nat_crop_left Bytes_def word_of_nat_nat)

lemma BigToHash_Hash_Big [simp]: "BigToHash (Hash_Big h) = h"
  by (simp add: BigToHash_word_of_int Hash_Big_def)

lemma BigToAddress_Address_Big [simp]: "BigToAddress (Address_Big a) = a"
  by (simp add: BigToAddress_word_of_int Address_Big_def)

lemma Hash_Big_BigToHash: "0 \<le> x \<Longrightarrow> Hash_Big (BigToHash x) = U256 x"
  by (simp only: BigToHash_word_of_int Hash_Big_def U256_uint)

subsection \<open>Writing limbs into a buffer\<close>

lemma ReadBits_word_spec:
  assumes "ReadBits_word j d i buf = (i', buf')" "i \<le> length buf" "take i buf = replicate i 0"
  shows "length buf' = length buf \<and> i' = i - j \<and> take i' buf' = replicate i' 0 \<and>
    be_nat 0 (drop i' buf') = be_nat 0 (drop i buf) + 256 ^ (length buf - i) * (d mod 256 ^ (i - i'))"
  using assms
proof (induction j d i buf arbitrary: i' buf' rule: ReadBits_word.induct)
  case (1 d i buf)
  then show ?case by simp
next
  case (2 j d i buf)
  show ?case
  proof (cases i)
    case 0
    with "2.prems" show ?thesis by simp
  next
    case (Suc k)
    let ?b = "buf[k := word_of_nat d]"
    from "2.prems" Suc have e: "ReadBits_word j (d div 256) k ?b = (i', buf')" by simp
    have "take k ?b = take k (take i buf)" using Suc by simp
    also have "\<dots> = take k (replicate i 0)" by (simp only: "2.prems"(3))
    also have "\<dots> = replicate k 0" by (simp only: Suc take_replicate) simp
    finally have z: "take k ?b = replicate k 0" .
    have k: "k < length buf" using "2.prems"(2) Suc by simp
    have "length buf' = length buf \<and> i' = k - j \<and> take i' buf' = replicate i' 0 \<and>
      be_nat 0 (drop i' buf') = be_nat 0 (drop k ?b) + 256 ^ (length buf - k) * (d div 256 mod 256 ^ (k - i'))"
      using "2.IH" [of i' buf'] e Suc z k by auto
    then have IH: "length buf' = length buf" "i' = k - j" "take i' buf' = replicate i' 0"
      "be_nat 0 (drop i' buf') = be_nat 0 (drop k ?b) + 256 ^ (length buf - k) * (d div 256 mod 256 ^ (k - i'))"
      by blast+
    have dk: "drop k ?b = word_of_nat d # drop i buf"
      using k Suc by (simp add: Cons_nth_drop_Suc [symmetric] drop_update_cancel)
    have "be_nat 0 (drop k ?b) = (d mod 256) * 256 ^ (length buf - i) + be_nat 0 (drop i buf)"
      using be_nat_acc [of "d mod 256" "drop i buf"]
      by (simp add: dk unsigned_of_nat take_bit_eq_mod)
    moreover have "length buf - k = Suc (length buf - i)" using k Suc by simp
    moreover have "d mod 256 ^ (i - i') = d mod 256 + 256 * (d div 256 mod 256 ^ (k - i'))"
      using IH(2) Suc by (simp add: Suc_diff_le mod_mult2_eq)
    ultimately show ?thesis
      using IH Suc by (simp add: algebra_simps)
  qed
qed

lemma ReadBits_words_spec:
  assumes "\<forall>d \<in> set ds. d < 2 ^ 64" "i \<le> length buf" "take i buf = replicate i 0"
  shows "length (ReadBits_words ds i buf) = length buf \<and>
    be_nat 0 (ReadBits_words ds i buf) =
      (be_nat 0 (drop i buf) + 256 ^ (length buf - i) * limbs_value ds) mod 256 ^ length buf"
  using assms
proof (induction ds i buf rule: ReadBits_words.induct)
  case (1 i buf)
  have "be_nat 0 buf = be_nat 0 (replicate i 0 @ drop i buf)"
    using "1.prems" by (metis append_take_drop_id)
  also have "\<dots> = be_nat 0 (drop i buf)"
    by (simp add: be_nat_append be_nat_replicate_0)
  finally show ?case using be_nat_bound [of buf] by simp
next
  case (2 d ds i buf)
  obtain i' buf' where e: "ReadBits_word 8 d i buf = (i', buf')" by fastforce
  from ReadBits_word_spec [OF e "2.prems"(2,3)]
  have s: "length buf' = length buf" "i' = i - 8" "take i' buf' = replicate i' 0"
    "be_nat 0 (drop i' buf') = be_nat 0 (drop i buf) + 256 ^ (length buf - i) * (d mod 256 ^ (i - i'))"
    by blast+
  let ?n = "length buf"
  have IH: "length (ReadBits_words ds i' buf') = ?n"
    "be_nat 0 (ReadBits_words ds i' buf') =
      (be_nat 0 (drop i' buf') + 256 ^ (?n - i') * limbs_value ds) mod 256 ^ ?n"
    using "2.IH" [OF e [symmetric] refl] "2.prems" s by simp_all
  have d: "d < 256 ^ 8" using "2.prems" by simp
  have "(be_nat 0 (drop i' buf') + 256 ^ (?n - i') * limbs_value ds) mod 256 ^ ?n =
    (be_nat 0 (drop i buf) + 256 ^ (?n - i) * (d + 256 ^ 8 * limbs_value ds)) mod 256 ^ ?n"
  proof (cases "8 \<le> i")
    case True
    then have "d mod 256 ^ (i - i') = d" using d s(2) by (simp del: power_numeral)
    moreover have "256 ^ (?n - i') = (256 ^ (?n - i) * 256 ^ 8 :: nat)"
      using True s(2) "2.prems" by (simp only: power_add [symmetric]) (simp add: algebra_simps)
    ultimately show ?thesis
      by (simp only: s(4) distrib_left mult.assoc add.assoc)
  next
    case False
    then have i': "i' = 0" using s(2) by simp
    let ?A = "be_nat 0 (drop i buf)" and ?B = "256 ^ (?n - i) :: nat" and ?L = "limbs_value ds"
    obtain q where q: "d = d mod 256 ^ i + 256 ^ i * q"
      by (metis mod_mult_div_eq)
    have B: "?B * 256 ^ i = 256 ^ ?n"
      using "2.prems" by (simp add: power_add [symmetric])
    obtain k where k: "256 ^ 8 = (256 ^ i * k :: nat)"
      using False by (metis le_imp_power_dvd nat_le_linear dvdE)
    have "?A + ?B * (d + 256 ^ 8 * ?L) = ?A + ?B * (d mod 256 ^ i) + 256 ^ ?n * (q + k * ?L)"
      by (subst q, simp only: k B [symmetric] distrib_left mult.assoc add.assoc)
    moreover have "be_nat 0 (drop i' buf') = ?A + ?B * (d mod 256 ^ i)"
      using s(4) i' by simp
    ultimately show ?thesis
      by (simp only: i' diff_zero mod_mult_self2)
  qed
  with IH show ?case by (simp only: ReadBits_words.simps e Let_def case_prod_conv limbs_value.simps) (simp add: power_mult [of 256 _ 8, symmetric])
qed

lemma ReadBits_spec:
  "length (ReadBits x (replicate n 0)) = n"
  "be_nat 0 (ReadBits x (replicate n 0)) = nat \<bar>x\<bar> mod 256 ^ n"
  using ReadBits_words_spec [of "Bits x" n "replicate n 0"] limbs_bound [of "nat \<bar>x\<bar>"]
  by (simp_all add: ReadBits_def Bits_def limbs_value_limbs)

lemma PaddedBigBytes_spec:
  assumes "0 \<le> x" and "x < 256 ^ n"
  shows "length (PaddedBigBytes x n) = n" and "SetBytes (PaddedBigBytes x n) = x"
proof -
  have x: "nat x < 256 ^ n" using assms by (simp add: nat_less_iff)
  have "length (PaddedBigBytes x n) = n \<and> SetBytes (PaddedBigBytes x n) = x"
  proof (cases "BitLen x div 8 \<ge> n")
    case True
    have "length (be_bytes (nat x)) = n"
    proof (rule antisym)
      show "length (be_bytes (nat x)) \<le> n" using x by (simp add: length_be_bytes_le)
      show "n \<le> length (be_bytes (nat x))"
      proof (rule ccontr)
        assume "\<not> n \<le> length (be_bytes (nat x))"
        then have "length (be_bytes (nat x)) \<le> n - 1" and n: "n \<noteq> 0" by auto
        then have "nat x < 256 ^ (n - 1)" by (simp only: length_be_bytes_le)
        also have "(256::nat) ^ (n - 1) = 2 ^ (8 * (n - 1))" by (simp add: power_mult)
        finally have "BitLen x \<le> 8 * (n - 1)"
          using assms(1) by (simp add: BitLen_def bitlen_nat_le_iff)
        with True n show False by linarith
      qed
    qed
    with True assms(1) show ?thesis
      by (simp add: PaddedBigBytes_def Bytes_def SetBytes_def)
  next
    case False
    with x assms(1) show ?thesis
      by (simp add: PaddedBigBytes_def SetBytes_def ReadBits_spec)
  qed
  then show "length (PaddedBigBytes x n) = n" and "SetBytes (PaddedBigBytes x n) = x" by blast+
qed

lemma bigEndianByteAt_eq:
  assumes x: "0 \<le> x"
  shows "bigEndianByteAt x n = word_of_nat (nat x div 256 ^ n)"
proof -
  let ?m = "nat x" and ?a = "n div 8" and ?b = "n mod 8"
  have n: "64 * ?a + 8 * ?b = 8 * n" by presburger
  have pow: "(256::nat) ^ n = 2 ^ (64 * ?a) * 2 ^ (8 * ?b)"
    by (simp only: power_add [symmetric] n) (simp add: power_mult)
  show ?thesis
  proof (cases "?a \<ge> length (limbs ?m)")
    case True
    then have "?m < 2 ^ (64 * ?a)" by (rule limbs_length)
    also have "\<dots> \<le> 256 ^ n" by (simp add: pow)
    finally show ?thesis using True x by (simp add: bigEndianByteAt_def Bits_def)
  next
    case False
    let ?v = "?m div 2 ^ (64 * ?a)"
    have "?b < 8" by simp
    then have "8 \<le> 64 - 8 * ?b" and c: "8 * ?b + (64 - 8 * ?b) = 64" by linarith+
    then have dvd: "(2::nat) ^ 8 dvd 2 ^ (64 - 8 * ?b)" by (intro le_imp_power_dvd)
    have "?v mod 2 ^ 64 div 2 ^ (8 * ?b) = ?v div 2 ^ (8 * ?b) mod 2 ^ (64 - 8 * ?b)"
      by (simp only: div_exp_mod_exp_eq c)
    then have "?v mod 2 ^ 64 div 2 ^ (8 * ?b) mod 2 ^ 8 = ?v div 2 ^ (8 * ?b) mod 2 ^ 8"
      by (simp only: mod_mod_cancel [OF dvd])
    then have "(word_of_nat (?v mod 2 ^ 64 div 2 ^ (8 * ?b)) :: byte) = word_of_nat (?m div 256 ^ n)"
      by (simp only: pow div_mult2_eq word_of_nat_eq_iff take_bit_eq_mod) simp
    moreover from False have "limbs ?m ! ?a = ?v mod 2 ^ 64"
      by (simp only: limbs_nth not_le)
    ultimately show ?thesis
      using False x by (simp add: bigEndianByteAt_def Bits_def Let_def)
  qed
qed

lemma Byte_eq:
  "0 \<le> x \<Longrightarrow> n < p \<Longrightarrow> Byte x p n = word_of_nat (nat x div 256 ^ (p - 1 - n))"
  by (simp add: Byte_def bigEndianByteAt_eq)

subsection \<open>Overflow checks\<close>

lemma unat_MaxUint64 [simp]: "unat MaxUint64 = 18446744073709551615"
  by (simp add: MaxUint64_def)

lemma le_MaxUint64 [simp]: "x \<le> MaxUint64"
  using unat_uint64_lt [of x] by (simp add: word_le_nat_alt del: unat_uint64_lt)

lemma SafeAdd_overflow: "snd (SafeAdd x y) \<longleftrightarrow> unat x + unat y \<ge> 2 ^ 64"
  using unat_uint64_lt [of x] unat_uint64_lt [of y]
  by (simp add: SafeAdd_def word_less_nat_alt unat_sub del: unat_uint64_lt) linarith

lemma SafeAdd_value: "\<not> snd (SafeAdd x y) \<Longrightarrow> unat (fst (SafeAdd x y)) = unat x + unat y"
  by (simp only: SafeAdd_overflow) (simp add: SafeAdd_def unat_add_uint64)

lemma SafeMul_overflow: "snd (SafeMul x y) \<longleftrightarrow> unat x * unat y \<ge> 2 ^ 64"
proof (cases "x = 0 \<or> y = 0")
  case False
  then have "0 < unat x" by (simp add: unat_gt_0)
  then have "unat y \<le> 18446744073709551615 div unat x \<longleftrightarrow> unat y * unat x \<le> 18446744073709551615"
    by (rule less_eq_div_iff_mult_less_eq)
  with False show ?thesis
    by (auto simp: SafeMul_def word_less_nat_alt unat_div mult.commute not_le)
qed (auto simp: SafeMul_def)

lemma SafeMul_value: "\<not> snd (SafeMul x y) \<Longrightarrow> unat (fst (SafeMul x y)) = unat x * unat y"
  by (simp only: SafeMul_overflow) (auto simp: SafeMul_def unat_mult_uint64)

lemma SafeSub_spec:
  "snd (SafeSub x y) \<longleftrightarrow> unat x < unat y"
  "\<not> snd (SafeSub x y) \<Longrightarrow> unat (fst (SafeSub x y)) = unat x - unat y"
  by (simp_all add: SafeSub_def word_less_nat_alt unat_sub word_le_nat_alt)

end
