(* ===== verification/State_Object.thy ===== *)
theory State_Object
  imports Common_Math
begin

text \<open>
  State objects (\<open>src/core/state/state_object.go\<close>): one account while it is being modified,
  with its caches. The methods here change the object only; the methods that also append to the
  journal are in \<open>State_DB\<close>.

  The interface \<open>Database\<close>/\<open>Trie\<close> of \<open>src/core/state/database.go\<close> is a parameter: a trie is
  seen as the key/value map it stores together with the read errors (missing nodes) it reports,
  and the database as the functions that open tries and load code. A zero storage value is never
  stored: \<open>updateTrie\<close> deletes the key instead.

  Loops over Go maps run in an unspecified order. They take the order as an argument, a list of
  the keys.
\<close>

subsection \<open>The trie and database interfaces\<close>

datatype db_error = MissingNode Hash | CantOpenTrie Hash | CodeNotFound Hash

record ('k, 'v) KTrie =
  tr_entries :: "'k \<rightharpoonup> 'v"
  tr_fault :: "'k \<Rightarrow> db_error option"

definition emptyTrie :: "('k, 'v) KTrie" where
  "emptyTrie = \<lparr>tr_entries = Map.empty, tr_fault = (\<lambda>_. None)\<rparr>"

definition TryGet :: "('k, 'v) KTrie \<Rightarrow> 'k \<Rightarrow> db_error + 'v option" where
  "TryGet t k = (case tr_fault t k of Some e \<Rightarrow> Inl e | None \<Rightarrow> Inr (tr_entries t k))"

definition TryUpdate :: "('k, 'v) KTrie \<Rightarrow> 'k \<Rightarrow> 'v \<Rightarrow> ('k, 'v) KTrie \<times> db_error option" where
  "TryUpdate t k v =
     (case tr_fault t k of Some e \<Rightarrow> (t, Some e)
      | None \<Rightarrow> (t\<lparr>tr_entries := (tr_entries t)(k \<mapsto> v)\<rparr>, None))"

definition TryDelete :: "('k, 'v) KTrie \<Rightarrow> 'k \<Rightarrow> ('k, 'v) KTrie \<times> db_error option" where
  "TryDelete t k =
     (case tr_fault t k of Some e \<Rightarrow> (t, Some e)
      | None \<Rightarrow> (t\<lparr>tr_entries := (tr_entries t)(k := None)\<rparr>, None))"

record Account =
  acc_Nonce :: uint64
  acc_Balance :: int
  acc_Root :: Hash
  acc_CodeHash :: Hash

type_synonym StorageTrie = "(Hash, Hash) KTrie"
type_synonym AccountTrie = "(Address, Account) KTrie"

record Database =
  db_Keccak256 :: "bytes \<Rightarrow> Hash"
  db_OpenTrie :: "Hash \<Rightarrow> db_error + AccountTrie"
  db_OpenStorageTrie :: "Hash \<Rightarrow> Hash \<Rightarrow> db_error + StorageTrie"
  db_ContractCode :: "Hash \<Rightarrow> Hash \<Rightarrow> db_error + bytes"
  db_StorageRoot :: "StorageTrie \<Rightarrow> Hash"
  db_StateRoot :: "AccountTrie \<Rightarrow> Hash"

definition emptyCodeHash :: "Database \<Rightarrow> Hash" where
  "emptyCodeHash db = db_Keccak256 db []"

subsection \<open>State objects\<close>

type_synonym Storage = "Hash \<rightharpoonup> Hash"

record stateObject =
  so_address :: Address
  so_addrHash :: Hash
  so_data :: Account
  so_dbErr :: "db_error option"
  so_trie :: "StorageTrie option"
  so_code :: "bytes option"
  so_cachedStorage :: Storage
  so_dirtyStorage :: Storage
  so_dirtyCode :: bool
  so_suicided :: bool
  so_deleted :: bool

definition empty_obj :: "Database \<Rightarrow> stateObject \<Rightarrow> bool" where
  "empty_obj db so \<longleftrightarrow>
     acc_Nonce (so_data so) = 0 \<and> acc_Balance (so_data so) = 0 \<and>
     acc_CodeHash (so_data so) = emptyCodeHash db"

definition newObject :: "Database \<Rightarrow> Address \<Rightarrow> Account \<Rightarrow> stateObject" where
  "newObject db addr data =
     \<lparr>so_address = addr, so_addrHash = db_Keccak256 db (Address_Bytes addr), so_data = data,
      so_dbErr = None, so_trie = None, so_code = None, so_cachedStorage = Map.empty,
      so_dirtyStorage = Map.empty, so_dirtyCode = False, so_suicided = False, so_deleted = False\<rparr>"

definition zeroAccount :: "Database \<Rightarrow> Account" where
  \<comment> \<open>the literal \<open>Account{}\<close> after \<open>newObject\<close> has replaced its nil balance and code hash\<close>
  "zeroAccount db = \<lparr>acc_Nonce = 0, acc_Balance = 0, acc_Root = 0, acc_CodeHash = emptyCodeHash db\<rparr>"

definition setError_obj :: "db_error option \<Rightarrow> stateObject \<Rightarrow> stateObject" where
  "setError_obj err so = (if so_dbErr so = None then so\<lparr>so_dbErr := err\<rparr> else so)"

definition markSuicided :: "stateObject \<Rightarrow> stateObject" where
  "markSuicided so = so\<lparr>so_suicided := True\<rparr>"

definition getTrie :: "Database \<Rightarrow> stateObject \<Rightarrow> stateObject \<times> StorageTrie" where
  "getTrie db so =
     (case so_trie so of
        Some t \<Rightarrow> (so, t)
      | None \<Rightarrow>
          (case db_OpenStorageTrie db (so_addrHash so) (acc_Root (so_data so)) of
             Inr t \<Rightarrow> (so\<lparr>so_trie := Some t\<rparr>, t)
           | Inl err \<Rightarrow>
               let t = (case db_OpenStorageTrie db (so_addrHash so) 0 of
                          Inr t \<Rightarrow> t | Inl _ \<Rightarrow> emptyTrie)
               in (setError_obj (Some (CantOpenTrie (acc_Root (so_data so)))) (so\<lparr>so_trie := Some t\<rparr>), t)))"

definition GetState_obj :: "Database \<Rightarrow> stateObject \<Rightarrow> Hash \<Rightarrow> stateObject \<times> Hash" where
  "GetState_obj db so key =
     (case so_cachedStorage so key of
        Some value \<Rightarrow> (so, value)
      | None \<Rightarrow>
          (let (so1, t) = getTrie db so
           in case TryGet t key of
                Inl err \<Rightarrow> (setError_obj (Some err) so1, 0)
              | Inr enc \<Rightarrow>
                  let value = (case enc of Some v \<Rightarrow> v | None \<Rightarrow> 0)
                  in (so1\<lparr>so_cachedStorage := (so_cachedStorage so1)(key \<mapsto> value)\<rparr>, value)))"

definition setState_obj :: "Hash \<Rightarrow> Hash \<Rightarrow> stateObject \<Rightarrow> stateObject" where
  "setState_obj key value so =
     so\<lparr>so_cachedStorage := (so_cachedStorage so)(key \<mapsto> value),
        so_dirtyStorage := (so_dirtyStorage so)(key \<mapsto> value)\<rparr>"

fun updateTrie_loop :: "Hash list \<Rightarrow> StorageTrie \<Rightarrow> stateObject \<Rightarrow> StorageTrie \<times> stateObject" where
  "updateTrie_loop [] tr so = (tr, so)"
| "updateTrie_loop (key # keys) tr so =
     (case so_dirtyStorage so key of
        None \<Rightarrow> updateTrie_loop keys tr so
      | Some value \<Rightarrow>
          (let so1 = so\<lparr>so_dirtyStorage := (so_dirtyStorage so)(key := None)\<rparr>;
               (tr', err) = (if value = 0 then TryDelete tr key else TryUpdate tr key value)
           in updateTrie_loop keys tr' (setError_obj err so1)))"

definition updateTrie :: "Database \<Rightarrow> Hash list \<Rightarrow> stateObject \<Rightarrow> stateObject \<times> StorageTrie" where
  "updateTrie db keys so =
     (let (so1, tr) = getTrie db so;
          (tr', so2) = updateTrie_loop keys tr so1
      in (so2\<lparr>so_trie := Some tr'\<rparr>, tr'))"

definition updateRoot :: "Database \<Rightarrow> Hash list \<Rightarrow> stateObject \<Rightarrow> stateObject" where
  "updateRoot db keys so =
     (let (so1, tr) = updateTrie db keys so
      in so1\<lparr>so_data := (so_data so1)\<lparr>acc_Root := db_StorageRoot db tr\<rparr>\<rparr>)"

definition CommitTrie :: "Database \<Rightarrow> Hash list \<Rightarrow> stateObject \<Rightarrow> stateObject \<times> db_error option" where
  "CommitTrie db keys so =
     (let (so1, tr) = updateTrie db keys so
      in case so_dbErr so1 of
           Some e \<Rightarrow> (so1, Some e)
         | None \<Rightarrow> (so1\<lparr>so_data := (so_data so1)\<lparr>acc_Root := db_StorageRoot db tr\<rparr>\<rparr>, None))"

definition setBalance_obj :: "int \<Rightarrow> stateObject \<Rightarrow> stateObject" where
  "setBalance_obj amount so = so\<lparr>so_data := (so_data so)\<lparr>acc_Balance := amount\<rparr>\<rparr>"

definition setNonce_obj :: "uint64 \<Rightarrow> stateObject \<Rightarrow> stateObject" where
  "setNonce_obj nonce so = so\<lparr>so_data := (so_data so)\<lparr>acc_Nonce := nonce\<rparr>\<rparr>"

definition deepCopy :: "Database \<Rightarrow> stateObject \<Rightarrow> stateObject" where
  "deepCopy db so =
     (newObject db (so_address so) (so_data so))
       \<lparr>so_trie := so_trie so, so_code := so_code so, so_dirtyStorage := so_dirtyStorage so,
        so_cachedStorage := so_dirtyStorage so, so_suicided := so_suicided so,
        so_dirtyCode := so_dirtyCode so, so_deleted := so_deleted so\<rparr>"

definition Code_obj :: "Database \<Rightarrow> stateObject \<Rightarrow> stateObject \<times> bytes option" where
  "Code_obj db so =
     (case so_code so of
        Some c \<Rightarrow> (so, Some c)
      | None \<Rightarrow>
          if acc_CodeHash (so_data so) = emptyCodeHash db then (so, None)
          else
            (case db_ContractCode db (so_addrHash so) (acc_CodeHash (so_data so)) of
               Inr code \<Rightarrow> (so\<lparr>so_code := Some code\<rparr>, Some code)
             | Inl err \<Rightarrow>
                 (setError_obj (Some (CodeNotFound (acc_CodeHash (so_data so)))) so\<lparr>so_code := None\<rparr>, None)))"

definition setCode_obj :: "Hash \<Rightarrow> bytes option \<Rightarrow> stateObject \<Rightarrow> stateObject" where
  "setCode_obj codeHash code so =
     so\<lparr>so_code := code, so_data := (so_data so)\<lparr>acc_CodeHash := codeHash\<rparr>, so_dirtyCode := True\<rparr>"

end
