(* ===== verification/State_DB.thy ===== *)
theory State_DB
  imports State_Object
begin

text \<open>
  The state database (\<open>src/core/state/statedb.go\<close>) and its journal
  (\<open>src/core/state/journal.go\<close>). A \<open>*stateObject\<close> is reachable only through the map of live
  objects (and, once replaced, through a \<open>resetObjectChange\<close> entry, after which nothing writes
  to it), so objects are held by value in the map, and a method that mutates an object through
  its pointer updates the map at the object's address.
\<close>

subsection \<open>Data\<close>

record Log =
  log_Address :: Address
  log_Topics :: "Hash list"
  log_Data :: bytes
  log_BlockNumber :: uint64
  log_TxHash :: Hash
  log_TxIndex :: uint64
  log_BlockHash :: Hash
  log_Index :: uint64

datatype journalEntry =
    createObjectChange Address
  | resetObjectChange stateObject
  | suicideChange Address bool int
  | balanceChange Address int
  | nonceChange Address uint64
  | storageChange Address Hash Hash
  | codeChange Address "bytes option" Hash
  | refundChange uint64
  | addLogChange Hash
  | addPreimageChange Hash
  | touchChange Address

fun dirtied :: "journalEntry \<Rightarrow> Address option" where
  "dirtied (createObjectChange a) = Some a"
| "dirtied (resetObjectChange prev) = None"
| "dirtied (suicideChange a prev prevbalance) = Some a"
| "dirtied (balanceChange a prev) = Some a"
| "dirtied (nonceChange a prev) = Some a"
| "dirtied (storageChange a key prevalue) = Some a"
| "dirtied (codeChange a prevcode prevhash) = Some a"
| "dirtied (refundChange prev) = None"
| "dirtied (addLogChange txhash) = None"
| "dirtied (addPreimageChange hash) = None"
| "dirtied (touchChange a) = Some a"

record journal =
  j_entries :: "journalEntry list"
  j_dirties :: "Address \<rightharpoonup> int"

record revision =
  rev_id :: int
  rev_journalIndex :: nat

record StateDB =
  sdb_db :: Database
  sdb_trie :: AccountTrie
  sdb_stateObjects :: "Address \<rightharpoonup> stateObject"
  sdb_stateObjectsDirty :: "Address set"
  sdb_dbErr :: "db_error option"
  sdb_refund :: uint64
  sdb_thash :: Hash
  sdb_bhash :: Hash
  sdb_txIndex :: uint64
  sdb_logs :: "Hash \<rightharpoonup> Log list"
  sdb_logSize :: uint64
  sdb_preimages :: "Hash \<rightharpoonup> bytes"
  sdb_journal :: journal
  sdb_validRevisions :: "revision list"
  sdb_nextRevisionId :: int

subsection \<open>The journal\<close>

definition newJournal :: journal where
  "newJournal = \<lparr>j_entries = [], j_dirties = Map.empty\<rparr>"

definition dirties_inc :: "Address \<Rightarrow> (Address \<rightharpoonup> int) \<Rightarrow> (Address \<rightharpoonup> int)" where
  \<comment> \<open>\<open>j.dirties[addr]++\<close>: a missing entry reads as zero\<close>
  "dirties_inc a d = d(a \<mapsto> (case d a of None \<Rightarrow> 1 | Some n \<Rightarrow> n + 1))"

definition dirties_dec :: "Address \<Rightarrow> (Address \<rightharpoonup> int) \<Rightarrow> (Address \<rightharpoonup> int)" where
  \<comment> \<open>\<open>if j.dirties[addr]--; j.dirties[addr] == 0 { delete(j.dirties, addr) }\<close>\<close>
  "dirties_dec a d =
     (let n = (case d a of None \<Rightarrow> 0 | Some n \<Rightarrow> n) - 1
      in if n = 0 then d(a := None) else d(a \<mapsto> n))"

definition journal_append :: "journalEntry \<Rightarrow> journal \<Rightarrow> journal" where
  "journal_append entry j =
     (let j1 = j\<lparr>j_entries := j_entries j @ [entry]\<rparr>
      in case dirtied entry of
           Some addr \<Rightarrow> j1\<lparr>j_dirties := dirties_inc addr (j_dirties j1)\<rparr>
         | None \<Rightarrow> j1)"

definition journal_dirty :: "Address \<Rightarrow> journal \<Rightarrow> journal" where
  "journal_dirty addr j = j\<lparr>j_dirties := dirties_inc addr (j_dirties j)\<rparr>"

definition journal_length :: "journal \<Rightarrow> nat" where
  "journal_length j = length (j_entries j)"

definition appendEntry :: "journalEntry \<Rightarrow> StateDB \<Rightarrow> StateDB" where
  "appendEntry entry s = s\<lparr>sdb_journal := journal_append entry (sdb_journal s)\<rparr>"

definition ripemd :: Address where
  "ripemd = 3"

subsection \<open>Creating and looking up state objects\<close>

definition New :: "Hash \<Rightarrow> Database \<Rightarrow> db_error + StateDB" where
  "New root db =
     (case db_OpenTrie db root of
        Inl err \<Rightarrow> Inl err
      | Inr tr \<Rightarrow>
          Inr \<lparr>sdb_db = db, sdb_trie = tr, sdb_stateObjects = Map.empty, sdb_stateObjectsDirty = {},
               sdb_dbErr = None, sdb_refund = 0, sdb_thash = 0, sdb_bhash = 0, sdb_txIndex = 0,
               sdb_logs = Map.empty, sdb_logSize = 0, sdb_preimages = Map.empty,
               sdb_journal = newJournal, sdb_validRevisions = [], sdb_nextRevisionId = 0\<rparr>)"

definition setError :: "db_error option \<Rightarrow> StateDB \<Rightarrow> StateDB" where
  "setError err s = (if sdb_dbErr s = None then s\<lparr>sdb_dbErr := err\<rparr> else s)"

definition clearJournalAndRefund :: "StateDB \<Rightarrow> StateDB" where
  "clearJournalAndRefund s =
     s\<lparr>sdb_journal := newJournal, sdb_validRevisions := [], sdb_refund := 0\<rparr>"

definition Reset :: "Hash \<Rightarrow> StateDB \<Rightarrow> db_error + StateDB" where
  "Reset root s =
     (case db_OpenTrie (sdb_db s) root of
        Inl err \<Rightarrow> Inl err
      | Inr tr \<Rightarrow>
          Inr (clearJournalAndRefund
            (s\<lparr>sdb_trie := tr, sdb_stateObjects := Map.empty, sdb_stateObjectsDirty := {},
               sdb_thash := 0, sdb_bhash := 0, sdb_txIndex := 0, sdb_logs := Map.empty,
               sdb_logSize := 0, sdb_preimages := Map.empty\<rparr>)))"

definition setStateObject :: "stateObject \<Rightarrow> StateDB \<Rightarrow> StateDB" where
  "setStateObject obj s = s\<lparr>sdb_stateObjects := (sdb_stateObjects s)(so_address obj \<mapsto> obj)\<rparr>"

definition updObj :: "Address \<Rightarrow> (stateObject \<Rightarrow> stateObject) \<Rightarrow> StateDB \<Rightarrow> StateDB" where
  \<comment> \<open>a write through the pointer of the live object at \<open>addr\<close>\<close>
  "updObj addr f s =
     s\<lparr>sdb_stateObjects := (sdb_stateObjects s)(addr := map_option f (sdb_stateObjects s addr))\<rparr>"

definition getStateObject :: "Address \<Rightarrow> StateDB \<Rightarrow> StateDB \<times> stateObject option" where
  "getStateObject addr s =
     (case sdb_stateObjects s addr of
        Some obj \<Rightarrow> (s, if so_deleted obj then None else Some obj)
      | None \<Rightarrow>
          (case TryGet (sdb_trie s) addr of
             Inl err \<Rightarrow> (setError (Some err) s, None)
           | Inr None \<Rightarrow> (setError None s, None)
           | Inr (Some data) \<Rightarrow>
               let obj = newObject (sdb_db s) addr data in (setStateObject obj s, Some obj)))"

definition createObject :: "Address \<Rightarrow> StateDB \<Rightarrow> StateDB \<times> stateObject \<times> stateObject option" where
  "createObject addr s =
     (let (s1, prev) = getStateObject addr s;
          newobj = setNonce_obj 0 (newObject (sdb_db s1) addr (zeroAccount (sdb_db s1)));
          s2 = (case prev of
                  None \<Rightarrow> appendEntry (createObjectChange addr) s1
                | Some p \<Rightarrow> appendEntry (resetObjectChange p) s1)
      in (setStateObject newobj s2, newobj, prev))"

definition GetOrNewStateObject :: "Address \<Rightarrow> StateDB \<Rightarrow> StateDB \<times> stateObject" where
  "GetOrNewStateObject addr s =
     (case getStateObject addr s of
        (s1, Some so) \<Rightarrow>
          if so_deleted so then (let (s2, new, _) = createObject addr s1 in (s2, new)) else (s1, so)
      | (s1, None) \<Rightarrow> (let (s2, new, _) = createObject addr s1 in (s2, new)))"

definition CreateAccount :: "Address \<Rightarrow> StateDB \<Rightarrow> StateDB" where
  "CreateAccount addr s =
     (let (s1, new, prev) = createObject addr s
      in case prev of
           None \<Rightarrow> s1
         | Some p \<Rightarrow> updObj addr (setBalance_obj (acc_Balance (so_data p))) s1)"

subsection \<open>Readers\<close>

definition Exist :: "Address \<Rightarrow> StateDB \<Rightarrow> StateDB \<times> bool" where
  "Exist addr s = (let (s1, so) = getStateObject addr s in (s1, so \<noteq> None))"

definition Empty :: "Address \<Rightarrow> StateDB \<Rightarrow> StateDB \<times> bool" where
  "Empty addr s =
     (let (s1, so) = getStateObject addr s
      in (s1, case so of None \<Rightarrow> True | Some o' \<Rightarrow> empty_obj (sdb_db s1) o'))"

definition GetBalance :: "Address \<Rightarrow> StateDB \<Rightarrow> StateDB \<times> int" where
  "GetBalance addr s =
     (let (s1, so) = getStateObject addr s
      in (s1, case so of None \<Rightarrow> 0 | Some o' \<Rightarrow> acc_Balance (so_data o')))"

definition GetNonce :: "Address \<Rightarrow> StateDB \<Rightarrow> StateDB \<times> uint64" where
  "GetNonce addr s =
     (let (s1, so) = getStateObject addr s
      in (s1, case so of None \<Rightarrow> 0 | Some o' \<Rightarrow> acc_Nonce (so_data o')))"

definition GetCode :: "Address \<Rightarrow> StateDB \<Rightarrow> StateDB \<times> bytes option" where
  "GetCode addr s =
     (case getStateObject addr s of
        (s1, Some so) \<Rightarrow>
          (let (so', code) = Code_obj (sdb_db s1) so in (updObj addr (\<lambda>_. so') s1, code))
      | (s1, None) \<Rightarrow> (s1, None))"

definition GetCodeSize :: "Address \<Rightarrow> StateDB \<Rightarrow> StateDB \<times> nat" where
  "GetCodeSize addr s =
     (case getStateObject addr s of
        (s1, Some so) \<Rightarrow>
          (case so_code so of
             Some c \<Rightarrow> (s1, length c)
           | None \<Rightarrow>
               (case db_ContractCode (sdb_db s1) (so_addrHash so) (acc_CodeHash (so_data so)) of
                  Inr c \<Rightarrow> (s1, length c)
                | Inl err \<Rightarrow> (setError (Some err) s1, 0)))
      | (s1, None) \<Rightarrow> (s1, 0))"

definition GetCodeHash :: "Address \<Rightarrow> StateDB \<Rightarrow> StateDB \<times> Hash" where
  "GetCodeHash addr s =
     (let (s1, so) = getStateObject addr s
      in (s1, case so of None \<Rightarrow> 0 | Some o' \<Rightarrow> acc_CodeHash (so_data o')))"

definition GetState :: "Address \<Rightarrow> Hash \<Rightarrow> StateDB \<Rightarrow> StateDB \<times> Hash" where
  "GetState addr key s =
     (case getStateObject addr s of
        (s1, Some so) \<Rightarrow>
          (let (so', v) = GetState_obj (sdb_db s1) so key in (updObj addr (\<lambda>_. so') s1, v))
      | (s1, None) \<Rightarrow> (s1, 0))"

definition HasSuicided :: "Address \<Rightarrow> StateDB \<Rightarrow> StateDB \<times> bool" where
  "HasSuicided addr s =
     (let (s1, so) = getStateObject addr s
      in (s1, case so of None \<Rightarrow> False | Some o' \<Rightarrow> so_suicided o'))"

definition GetRefund :: "StateDB \<Rightarrow> uint64" where
  "GetRefund s = sdb_refund s"

definition GetLogs :: "Hash \<Rightarrow> StateDB \<Rightarrow> Log list" where
  "GetLogs h s = (case sdb_logs s h of None \<Rightarrow> [] | Some l \<Rightarrow> l)"

subsection \<open>Journalled writers\<close>

definition SetBalance_so :: "stateObject \<Rightarrow> int \<Rightarrow> StateDB \<Rightarrow> StateDB" where
  \<comment> \<open>\<open>stateObject.SetBalance\<close>: journal the old balance, then write the new one\<close>
  "SetBalance_so so amount s =
     updObj (so_address so) (setBalance_obj amount)
       (appendEntry (balanceChange (so_address so) (acc_Balance (so_data so))) s)"

definition touch :: "stateObject \<Rightarrow> StateDB \<Rightarrow> StateDB" where
  "touch so s =
     (let s1 = appendEntry (touchChange (so_address so)) s
      in if so_address so = ripemd
         then s1\<lparr>sdb_journal := journal_dirty (so_address so) (sdb_journal s1)\<rparr> else s1)"

definition AddBalance :: "Address \<Rightarrow> int \<Rightarrow> StateDB \<Rightarrow> StateDB" where
  "AddBalance addr amount s =
     (let (s1, so) = GetOrNewStateObject addr s
      in if amount = 0 then (if empty_obj (sdb_db s1) so then touch so s1 else s1)
         else SetBalance_so so (acc_Balance (so_data so) + amount) s1)"

definition SubBalance :: "Address \<Rightarrow> int \<Rightarrow> StateDB \<Rightarrow> StateDB" where
  "SubBalance addr amount s =
     (let (s1, so) = GetOrNewStateObject addr s
      in if amount = 0 then s1
         else SetBalance_so so (acc_Balance (so_data so) - amount) s1)"

definition SetBalance :: "Address \<Rightarrow> int \<Rightarrow> StateDB \<Rightarrow> StateDB" where
  "SetBalance addr amount s =
     (let (s1, so) = GetOrNewStateObject addr s in SetBalance_so so amount s1)"

definition SetNonce :: "Address \<Rightarrow> uint64 \<Rightarrow> StateDB \<Rightarrow> StateDB" where
  "SetNonce addr nonce s =
     (let (s1, so) = GetOrNewStateObject addr s
      in updObj (so_address so) (setNonce_obj nonce)
           (appendEntry (nonceChange (so_address so) (acc_Nonce (so_data so))) s1))"

definition SetCode :: "Address \<Rightarrow> bytes option \<Rightarrow> StateDB \<Rightarrow> StateDB" where
  "SetCode addr code s =
     (let (s1, so) = GetOrNewStateObject addr s;
          (so', prevcode) = Code_obj (sdb_db s1) so;
          codeHash = db_Keccak256 (sdb_db s1) (case code of None \<Rightarrow> [] | Some c \<Rightarrow> c);
          s2 = updObj (so_address so) (\<lambda>_. so') s1
      in updObj (so_address so) (setCode_obj codeHash code)
           (appendEntry (codeChange (so_address so) prevcode (acc_CodeHash (so_data so'))) s2))"

definition SetState :: "Address \<Rightarrow> Hash \<Rightarrow> Hash \<Rightarrow> StateDB \<Rightarrow> StateDB" where
  "SetState addr key value s =
     (let (s1, so) = GetOrNewStateObject addr s;
          (so', prevalue) = GetState_obj (sdb_db s1) so key;
          s2 = updObj (so_address so) (\<lambda>_. so') s1
      in updObj (so_address so) (setState_obj key value)
           (appendEntry (storageChange (so_address so) key prevalue) s2))"

definition Suicide :: "Address \<Rightarrow> StateDB \<Rightarrow> StateDB \<times> bool" where
  "Suicide addr s =
     (case getStateObject addr s of
        (s1, None) \<Rightarrow> (s1, False)
      | (s1, Some so) \<Rightarrow>
          (updObj addr (\<lambda>o'. setBalance_obj 0 (markSuicided o'))
             (appendEntry (suicideChange addr (so_suicided so) (acc_Balance (so_data so))) s1), True))"

definition AddLog :: "Log \<Rightarrow> StateDB \<Rightarrow> StateDB" where
  "AddLog log s =
     (let s1 = appendEntry (addLogChange (sdb_thash s)) s;
          log' = log\<lparr>log_TxHash := sdb_thash s1, log_BlockHash := sdb_bhash s1,
                     log_TxIndex := sdb_txIndex s1, log_Index := sdb_logSize s1\<rparr>
      in s1\<lparr>sdb_logs := (sdb_logs s1)(sdb_thash s1 \<mapsto> GetLogs (sdb_thash s1) s1 @ [log']),
            sdb_logSize := sdb_logSize s1 + 1\<rparr>)"

definition AddPreimage :: "Hash \<Rightarrow> bytes \<Rightarrow> StateDB \<Rightarrow> StateDB" where
  "AddPreimage hash preimage s =
     (case sdb_preimages s hash of
        Some _ \<Rightarrow> s
      | None \<Rightarrow>
          (let s1 = appendEntry (addPreimageChange hash) s
           in s1\<lparr>sdb_preimages := (sdb_preimages s1)(hash \<mapsto> preimage)\<rparr>))"

definition AddRefund :: "uint64 \<Rightarrow> StateDB \<Rightarrow> StateDB" where
  "AddRefund gas s =
     (let s1 = appendEntry (refundChange (sdb_refund s)) s in s1\<lparr>sdb_refund := sdb_refund s1 + gas\<rparr>)"

definition Prepare :: "Hash \<Rightarrow> Hash \<Rightarrow> uint64 \<Rightarrow> StateDB \<Rightarrow> StateDB" where
  "Prepare thash bhash ti s = s\<lparr>sdb_thash := thash, sdb_bhash := bhash, sdb_txIndex := ti\<rparr>"

subsection \<open>Undoing journal entries\<close>

definition modifyExisting :: "Address \<Rightarrow> (stateObject \<Rightarrow> stateObject) \<Rightarrow> StateDB \<Rightarrow> StateDB outcome" where
  \<comment> \<open>\<open>s.getStateObject(addr).f()\<close>: a nil object is a nil dereference\<close>
  "modifyExisting addr f s =
     (case getStateObject addr s of
        (s1, None) \<Rightarrow> Panic
      | (s1, Some so) \<Rightarrow> Done (updObj addr f s1))"

fun revert_entry :: "journalEntry \<Rightarrow> StateDB \<Rightarrow> StateDB outcome" where
  "revert_entry (createObjectChange a) s =
     Done (s\<lparr>sdb_stateObjects := (sdb_stateObjects s)(a := None),
             sdb_stateObjectsDirty := sdb_stateObjectsDirty s - {a}\<rparr>)"
| "revert_entry (resetObjectChange prev) s = Done (setStateObject prev s)"
| "revert_entry (suicideChange a prev prevbalance) s =
     (case getStateObject a s of
        (s1, None) \<Rightarrow> Done s1
      | (s1, Some so) \<Rightarrow>
          Done (updObj a (\<lambda>o'. setBalance_obj prevbalance (o'\<lparr>so_suicided := prev\<rparr>)) s1))"
| "revert_entry (touchChange a) s = Done s"
| "revert_entry (balanceChange a prev) s = modifyExisting a (setBalance_obj prev) s"
| "revert_entry (nonceChange a prev) s = modifyExisting a (setNonce_obj prev) s"
| "revert_entry (codeChange a prevcode prevhash) s = modifyExisting a (setCode_obj prevhash prevcode) s"
| "revert_entry (storageChange a key prevalue) s = modifyExisting a (setState_obj key prevalue) s"
| "revert_entry (refundChange prev) s = Done (s\<lparr>sdb_refund := prev\<rparr>)"
| "revert_entry (addLogChange txhash) s =
     (let logs = GetLogs txhash s
      in if length logs = 1
         then Done (s\<lparr>sdb_logs := (sdb_logs s)(txhash := None), sdb_logSize := sdb_logSize s - 1\<rparr>)
         else if logs = [] then Panic
         else Done (s\<lparr>sdb_logs := (sdb_logs s)(txhash \<mapsto> butlast logs), sdb_logSize := sdb_logSize s - 1\<rparr>))"
| "revert_entry (addPreimageChange hash) s =
     Done (s\<lparr>sdb_preimages := (sdb_preimages s)(hash := None)\<rparr>)"

definition undirty :: "journalEntry \<Rightarrow> StateDB \<Rightarrow> StateDB" where
  \<comment> \<open>the dirty tracking that \<open>journal.revert\<close> drops after each entry\<close>
  "undirty entry s =
     (case dirtied entry of
        None \<Rightarrow> s
      | Some addr \<Rightarrow>
          s\<lparr>sdb_journal := (sdb_journal s)\<lparr>j_dirties := dirties_dec addr (j_dirties (sdb_journal s))\<rparr>\<rparr>)"

fun revert_entries :: "journalEntry list \<Rightarrow> StateDB \<Rightarrow> StateDB outcome" where
  \<comment> \<open>newest entry first\<close>
  "revert_entries [] s = Done s"
| "revert_entries (e # es) s =
     obind (revert_entry e s) (\<lambda>s1. revert_entries es (undirty e s1))"

definition journal_revert :: "nat \<Rightarrow> StateDB \<Rightarrow> StateDB outcome" where
  "journal_revert snapshot s =
     (let es = j_entries (sdb_journal s)
      in obind (revert_entries (rev (drop snapshot es)) s)
           (\<lambda>s1. Done (s1\<lparr>sdb_journal := (sdb_journal s1)\<lparr>j_entries := take snapshot es\<rparr>\<rparr>)))"

subsection \<open>Snapshots\<close>

definition Snapshot :: "StateDB \<Rightarrow> StateDB \<times> int" where
  "Snapshot s =
     (let id = sdb_nextRevisionId s
      in (s\<lparr>sdb_nextRevisionId := id + 1,
            sdb_validRevisions := sdb_validRevisions s @
              [\<lparr>rev_id = id, rev_journalIndex = journal_length (sdb_journal s)\<rparr>]\<rparr>, id))"

text \<open>The binary search of Go's \<open>sort.Search\<close>: the least index whose test holds, or \<open>n\<close>.\<close>

function sort_Search_loop :: "(nat \<Rightarrow> bool) \<Rightarrow> nat \<Rightarrow> nat \<Rightarrow> nat" where
  "sort_Search_loop f i j =
     (if i < j
      then (let h = (i + j) div 2
            in if \<not> f h then sort_Search_loop f (h + 1) j else sort_Search_loop f i h)
      else i)"
  by pat_completeness auto
termination
  by (relation "measure (\<lambda>(f, i, j). j - i)") auto

declare sort_Search_loop.simps [simp del]

definition sort_Search :: "nat \<Rightarrow> (nat \<Rightarrow> bool) \<Rightarrow> nat" where
  "sort_Search n f = sort_Search_loop f 0 n"

definition RevertToSnapshot :: "int \<Rightarrow> StateDB \<Rightarrow> StateDB outcome" where
  "RevertToSnapshot revid s =
     (let revs = sdb_validRevisions s;
          idx = sort_Search (length revs) (\<lambda>i. rev_id (revs ! i) \<ge> revid)
      in if idx = length revs \<or> rev_id (revs ! idx) \<noteq> revid then Panic
         else
           obind (journal_revert (rev_journalIndex (revs ! idx)) s)
             (\<lambda>s1. Done (s1\<lparr>sdb_validRevisions := take idx revs\<rparr>)))"

end
