(* ===== verification/State_Revert.thy ===== *)
theory State_Revert
  imports State_DB
begin

text \<open>
  What a client of the state database can observe (\<open>view\<close>), and the proof that
  \<open>RevertToSnapshot\<close> restores it: every journalled operation is \<open>undoable\<close>, the relation is a
  preorder, and reverting the entries appended since a snapshot leads back to an observationally
  equal state. Caches (loaded objects, code and storage), error fields and the dirty flags of
  objects are not observations.
\<close>

subsection \<open>Observations\<close>

record account_view =
  v_nonce :: uint64
  v_balance :: int
  v_codeHash :: Hash
  v_code :: "bytes option"
  v_storage :: "Hash \<Rightarrow> Hash"
  v_suicided :: bool

definition obj_view :: "Database \<Rightarrow> stateObject \<Rightarrow> account_view" where
  "obj_view db so =
     \<lparr>v_nonce = acc_Nonce (so_data so), v_balance = acc_Balance (so_data so),
      v_codeHash = acc_CodeHash (so_data so), v_code = snd (Code_obj db so),
      v_storage = (\<lambda>key. snd (GetState_obj db so key)), v_suicided = so_suicided so\<rparr>"

definition view :: "StateDB \<Rightarrow> Address \<Rightarrow> account_view option" where
  "view s a = map_option (obj_view (sdb_db s)) (snd (getStateObject a s))"

definition ok_obj :: "Database \<Rightarrow> stateObject \<Rightarrow> bool" where
  "ok_obj db so \<longleftrightarrow> so_addrHash so = db_Keccak256 db (Address_Bytes (so_address so))"

definition absent :: "('k, 'v) KTrie \<Rightarrow> 'k \<Rightarrow> bool" where
  "absent t k \<longleftrightarrow> (case TryGet t k of Inr (Some _) \<Rightarrow> False | _ \<Rightarrow> True)"

text \<open>
  Well-formedness: a live object is stored at its own address, and an object that has been
  deleted from the trie is absent there.
\<close>

definition wf_state :: "StateDB \<Rightarrow> bool" where
  "wf_state s \<longleftrightarrow>
     (\<forall>a so. sdb_stateObjects s a = Some so \<longrightarrow>
        so_address so = a \<and> ok_obj (sdb_db s) so \<and> (so_deleted so \<longrightarrow> absent (sdb_trie s) a))"

fun ok_entry :: "Database \<Rightarrow> journalEntry \<Rightarrow> bool" where
  "ok_entry db (resetObjectChange prev) \<longleftrightarrow> ok_obj db prev \<and> \<not> so_deleted prev"
| "ok_entry db _ \<longleftrightarrow> True"

definition same_obs :: "StateDB \<Rightarrow> StateDB \<Rightarrow> bool" where
  "same_obs s t \<longleftrightarrow>
     sdb_db s = sdb_db t \<and> sdb_trie s = sdb_trie t \<and> view s = view t \<and>
     sdb_refund s = sdb_refund t \<and> sdb_logs s = sdb_logs t \<and> sdb_logSize s = sdb_logSize t \<and>
     sdb_preimages s = sdb_preimages t \<and> sdb_thash s = sdb_thash t \<and> sdb_bhash s = sdb_bhash t \<and>
     sdb_txIndex s = sdb_txIndex t"

definition undoable :: "StateDB \<Rightarrow> StateDB \<Rightarrow> bool" where
  "undoable s s' \<longleftrightarrow>
     wf_state s' \<and> sdb_db s' = sdb_db s \<and>
     sdb_validRevisions s' = sdb_validRevisions s \<and> sdb_nextRevisionId s' = sdb_nextRevisionId s \<and>
     (\<exists>es. j_entries (sdb_journal s') = j_entries (sdb_journal s) @ es \<and>
        (\<forall>e \<in> set es. ok_entry (sdb_db s) e) \<and>
        (\<exists>t. revert_entries (rev es) s' = Done t \<and> wf_state t \<and> same_obs t s))"

subsection \<open>Views of single objects\<close>

lemma getTrie_frame [simp]:
  "so_address (fst (getTrie db so)) = so_address so"
  "so_addrHash (fst (getTrie db so)) = so_addrHash so"
  "so_data (fst (getTrie db so)) = so_data so"
  "so_code (fst (getTrie db so)) = so_code so"
  "so_cachedStorage (fst (getTrie db so)) = so_cachedStorage so"
  "so_dirtyStorage (fst (getTrie db so)) = so_dirtyStorage so"
  "so_suicided (fst (getTrie db so)) = so_suicided so"
  "so_deleted (fst (getTrie db so)) = so_deleted so"
  "so_dirtyCode (fst (getTrie db so)) = so_dirtyCode so"
  by (simp_all add: getTrie_def setError_obj_def Let_def split: option.splits sum.splits)

lemma getTrie_so_trie [simp]: "so_trie (fst (getTrie db so)) = Some (snd (getTrie db so))"
  by (simp add: getTrie_def setError_obj_def Let_def split: option.splits sum.splits)

lemma getTrie_cong:
  "so_trie so = so_trie so' \<Longrightarrow> so_addrHash so = so_addrHash so' \<Longrightarrow>
   acc_Root (so_data so) = acc_Root (so_data so') \<Longrightarrow> snd (getTrie db so) = snd (getTrie db so')"
  by (simp add: getTrie_def Let_def split: option.splits sum.splits)

lemma getTrie_loaded: "so_trie so = Some t \<Longrightarrow> snd (getTrie db so) = t"
  by (simp add: getTrie_def)

definition trie_value :: "StorageTrie \<Rightarrow> Hash \<Rightarrow> Hash" where
  "trie_value t key = (case TryGet t key of Inr (Some v) \<Rightarrow> v | _ \<Rightarrow> 0)"

lemma GetState_obj_value:
  "snd (GetState_obj db so key) =
     (case so_cachedStorage so key of Some v \<Rightarrow> v | None \<Rightarrow> trie_value (snd (getTrie db so)) key)"
  by (simp add: GetState_obj_def trie_value_def Let_def case_prod_beta split: option.splits sum.splits)

lemma setError_obj_frame [simp]:
  "so_address (setError_obj e so) = so_address so"
  "so_addrHash (setError_obj e so) = so_addrHash so"
  "so_data (setError_obj e so) = so_data so"
  "so_trie (setError_obj e so) = so_trie so"
  "so_code (setError_obj e so) = so_code so"
  "so_cachedStorage (setError_obj e so) = so_cachedStorage so"
  "so_dirtyStorage (setError_obj e so) = so_dirtyStorage so"
  "so_suicided (setError_obj e so) = so_suicided so"
  "so_deleted (setError_obj e so) = so_deleted so"
  "so_dirtyCode (setError_obj e so) = so_dirtyCode so"
  by (simp_all add: setError_obj_def)

lemma GetState_obj_frame [simp]:
  "so_address (fst (GetState_obj db so key)) = so_address so"
  "so_addrHash (fst (GetState_obj db so key)) = so_addrHash so"
  "so_data (fst (GetState_obj db so key)) = so_data so"
  "so_code (fst (GetState_obj db so key)) = so_code so"
  "so_suicided (fst (GetState_obj db so key)) = so_suicided so"
  "so_deleted (fst (GetState_obj db so key)) = so_deleted so"
  by (simp_all add: GetState_obj_def Let_def case_prod_beta split: option.splits sum.splits)

lemma GetState_obj_trie: "snd (getTrie db (fst (GetState_obj db so key))) = snd (getTrie db so)"
  by (simp add: GetState_obj_def Let_def case_prod_beta getTrie_loaded split: option.splits sum.splits)

lemma GetState_obj_cached:
  "so_cachedStorage (fst (GetState_obj db so key)) k =
     (if k = key \<and> so_cachedStorage (fst (GetState_obj db so key)) key \<noteq> None
      then Some (snd (GetState_obj db so key)) else so_cachedStorage so k)"
  by (auto simp: GetState_obj_def Let_def case_prod_beta split: option.splits sum.splits)

lemma GetState_obj_storage_same [simp]:
  "snd (GetState_obj db (fst (GetState_obj db so key)) k) = snd (GetState_obj db so k)"
  using GetState_obj_cached [of db so key k]
  by (auto simp: GetState_obj_value GetState_obj_trie split: option.splits if_splits)

lemma Code_obj_value:
  "snd (Code_obj db so) =
     (case so_code so of Some c \<Rightarrow> Some c
      | None \<Rightarrow> if acc_CodeHash (so_data so) = emptyCodeHash db then None
                else (case db_ContractCode db (so_addrHash so) (acc_CodeHash (so_data so)) of
                        Inr c \<Rightarrow> Some c | Inl _ \<Rightarrow> None))"
  by (simp add: Code_obj_def split: option.splits sum.splits)

lemma Code_obj_frame [simp]:
  "so_address (fst (Code_obj db so)) = so_address so"
  "so_addrHash (fst (Code_obj db so)) = so_addrHash so"
  "so_data (fst (Code_obj db so)) = so_data so"
  "so_trie (fst (Code_obj db so)) = so_trie so"
  "so_cachedStorage (fst (Code_obj db so)) = so_cachedStorage so"
  "so_suicided (fst (Code_obj db so)) = so_suicided so"
  "so_deleted (fst (Code_obj db so)) = so_deleted so"
  by (simp_all add: Code_obj_def split: option.splits sum.splits)

lemma Code_obj_same [simp]: "snd (Code_obj db (fst (Code_obj db so))) = snd (Code_obj db so)"
  by (auto simp: Code_obj_def split: option.splits sum.splits)

lemma GetState_obj_cong:
  "so_trie so = so_trie so' \<Longrightarrow> so_addrHash so = so_addrHash so' \<Longrightarrow>
   so_data so = so_data so' \<Longrightarrow> so_cachedStorage so = so_cachedStorage so' \<Longrightarrow>
   snd (GetState_obj db so k) = snd (GetState_obj db so' k)"
  using getTrie_cong [of so so' db] by (simp add: GetState_obj_value split: option.splits)

lemma obj_view_GetState [simp]: "obj_view db (fst (GetState_obj db so key)) = obj_view db so"
  by (simp add: obj_view_def Code_obj_value cong: option.case_cong if_cong sum.case_cong)

lemma obj_view_Code [simp]: "obj_view db (fst (Code_obj db so)) = obj_view db so"
  using GetState_obj_cong [of "fst (Code_obj db so)" so db] by (simp add: obj_view_def)

lemma obj_view_setBalance [simp]:
  "obj_view db (setBalance_obj b so) = (obj_view db so)\<lparr>v_balance := b\<rparr>"
  using getTrie_cong [of "setBalance_obj b so" so db]
  by (simp add: obj_view_def setBalance_obj_def Code_obj_value GetState_obj_value cong: option.case_cong)

lemma obj_view_setNonce [simp]:
  "obj_view db (setNonce_obj n so) = (obj_view db so)\<lparr>v_nonce := n\<rparr>"
  using getTrie_cong [of "setNonce_obj n so" so db]
  by (simp add: obj_view_def setNonce_obj_def Code_obj_value GetState_obj_value cong: option.case_cong)

lemma obj_view_setState [simp]:
  "obj_view db (setState_obj k v so) = (obj_view db so)\<lparr>v_storage := (v_storage (obj_view db so))(k := v)\<rparr>"
  using getTrie_cong [of "setState_obj k v so" so db]
  by (auto simp: obj_view_def setState_obj_def Code_obj_value GetState_obj_value fun_eq_iff
      split: option.splits)

definition code_of :: "Database \<Rightarrow> Address \<Rightarrow> bytes option \<Rightarrow> Hash \<Rightarrow> bytes option" where
  "code_of db a code codeHash =
     (case code of Some c \<Rightarrow> Some c
      | None \<Rightarrow> if codeHash = emptyCodeHash db then None
                else (case db_ContractCode db (db_Keccak256 db (Address_Bytes a)) codeHash of
                        Inr c \<Rightarrow> Some c | Inl _ \<Rightarrow> None))"

lemma obj_view_setCode:
  "ok_obj db so \<Longrightarrow>
   obj_view db (setCode_obj h c so) =
     (obj_view db so)\<lparr>v_codeHash := h, v_code := code_of db (so_address so) c h\<rparr>"
  using getTrie_cong [of "setCode_obj h c so" so db]
  by (simp add: obj_view_def setCode_obj_def Code_obj_value GetState_obj_value code_of_def ok_obj_def
      cong: option.case_cong)

lemma obj_view_suicided [simp]:
  "obj_view db (so\<lparr>so_suicided := b\<rparr>) = (obj_view db so)\<lparr>v_suicided := b\<rparr>"
  using getTrie_cong [of "so\<lparr>so_suicided := b\<rparr>" so db]
  by (simp add: obj_view_def Code_obj_value GetState_obj_value cong: option.case_cong)

subsection \<open>Views of states\<close>

definition trie_view :: "Database \<Rightarrow> AccountTrie \<Rightarrow> Address \<Rightarrow> account_view option" where
  "trie_view db tr a =
     (case TryGet tr a of Inr (Some data) \<Rightarrow> Some (obj_view db (newObject db a data)) | _ \<Rightarrow> None)"

lemma ok_obj_newObject [simp]: "ok_obj db (newObject db a data)"
  by (simp add: ok_obj_def newObject_def)

lemma newObject_simps [simp]:
  "so_address (newObject db a data) = a" "so_data (newObject db a data) = data"
  "\<not> so_deleted (newObject db a data)" "\<not> so_suicided (newObject db a data)"
  by (simp_all add: newObject_def)

lemma setError_frame [simp]:
  "sdb_db (setError e s) = sdb_db s" "sdb_trie (setError e s) = sdb_trie s"
  "sdb_stateObjects (setError e s) = sdb_stateObjects s"
  "sdb_refund (setError e s) = sdb_refund s" "sdb_logs (setError e s) = sdb_logs s"
  "sdb_logSize (setError e s) = sdb_logSize s" "sdb_preimages (setError e s) = sdb_preimages s"
  "sdb_thash (setError e s) = sdb_thash s" "sdb_bhash (setError e s) = sdb_bhash s"
  "sdb_txIndex (setError e s) = sdb_txIndex s" "sdb_journal (setError e s) = sdb_journal s"
  "sdb_validRevisions (setError e s) = sdb_validRevisions s"
  "sdb_nextRevisionId (setError e s) = sdb_nextRevisionId s"
  "sdb_stateObjectsDirty (setError e s) = sdb_stateObjectsDirty s"
  by (simp_all add: setError_def)

lemma getStateObject_frame [simp]:
  "sdb_db (fst (getStateObject a s)) = sdb_db s" "sdb_trie (fst (getStateObject a s)) = sdb_trie s"
  "sdb_refund (fst (getStateObject a s)) = sdb_refund s"
  "sdb_logs (fst (getStateObject a s)) = sdb_logs s"
  "sdb_logSize (fst (getStateObject a s)) = sdb_logSize s"
  "sdb_preimages (fst (getStateObject a s)) = sdb_preimages s"
  "sdb_thash (fst (getStateObject a s)) = sdb_thash s"
  "sdb_bhash (fst (getStateObject a s)) = sdb_bhash s"
  "sdb_txIndex (fst (getStateObject a s)) = sdb_txIndex s"
  "sdb_journal (fst (getStateObject a s)) = sdb_journal s"
  "sdb_validRevisions (fst (getStateObject a s)) = sdb_validRevisions s"
  "sdb_nextRevisionId (fst (getStateObject a s)) = sdb_nextRevisionId s"
  "sdb_stateObjectsDirty (fst (getStateObject a s)) = sdb_stateObjectsDirty s"
  by (simp_all add: getStateObject_def setStateObject_def Let_def split: option.splits sum.splits)

definition cell_view :: "Database \<Rightarrow> AccountTrie \<Rightarrow> Address \<Rightarrow> stateObject option \<Rightarrow> account_view option"
  where
  "cell_view db tr a cell =
     (case cell of
        Some so \<Rightarrow> if so_deleted so then None else Some (obj_view db so)
      | None \<Rightarrow> trie_view db tr a)"

lemma cell_view_simps [simp]:
  "cell_view db tr a None = trie_view db tr a"
  "cell_view db tr a (Some so) = (if so_deleted so then None else Some (obj_view db so))"
  by (simp_all add: cell_view_def)

lemma view_alt: "view s a = cell_view (sdb_db s) (sdb_trie s) a (sdb_stateObjects s a)"
  by (auto simp: view_def getStateObject_def trie_view_def Let_def split: option.splits sum.splits)

lemma view_frame:
  "sdb_db s = sdb_db t \<Longrightarrow> sdb_trie s = sdb_trie t \<Longrightarrow>
   sdb_stateObjects s = sdb_stateObjects t \<Longrightarrow> view s = view t"
  by (simp add: view_alt fun_eq_iff)

lemma wf_state_frame:
  "sdb_db s = sdb_db t \<Longrightarrow> sdb_trie s = sdb_trie t \<Longrightarrow>
   sdb_stateObjects s = sdb_stateObjects t \<Longrightarrow> wf_state s = wf_state t"
  by (simp add: wf_state_def)

lemma getStateObject_objects:
  "sdb_stateObjects (fst (getStateObject a s)) =
     (case snd (getStateObject a s) of
        None \<Rightarrow> sdb_stateObjects s
      | Some so \<Rightarrow> (sdb_stateObjects s)(a \<mapsto> so))"
  by (auto simp: getStateObject_def setStateObject_def Let_def fun_eq_iff split: option.splits sum.splits)

lemma getStateObject_Some:
  assumes "wf_state s" and "snd (getStateObject a s) = Some so"
  shows "so_address so = a" "ok_obj (sdb_db s) so" "\<not> so_deleted so"
  using assms
  by (auto simp: getStateObject_def wf_state_def Let_def split: option.splits sum.splits if_splits)

lemma view_lookup:
  "view s a = None \<longleftrightarrow> snd (getStateObject a s) = None"
  "snd (getStateObject a s) = Some so \<Longrightarrow> view s a = Some (obj_view (sdb_db s) so)"
  by (simp_all add: view_def)

lemma getStateObject_live: "snd (getStateObject a s) = Some so \<Longrightarrow> \<not> so_deleted so"
  by (auto simp: getStateObject_def Let_def split: option.splits sum.splits if_splits)

lemma view_getStateObject [simp]: "view (fst (getStateObject a s)) = view s"
proof (cases "snd (getStateObject a s)")
  case None
  then show ?thesis by (intro view_frame) (simp_all add: getStateObject_objects)
next
  case (Some so)
  then show ?thesis
    using view_lookup(2) [OF Some] getStateObject_live [OF Some]
    by (intro ext) (simp add: view_alt getStateObject_objects)
qed

lemma wf_state_getStateObject [simp]:
  assumes "wf_state s"
  shows "wf_state (fst (getStateObject a s))"
proof (cases "snd (getStateObject a s)")
  case None
  with assms show ?thesis by (simp add: getStateObject_objects cong: wf_state_frame)
next
  case (Some so)
  then show ?thesis
    using assms getStateObject_Some [OF assms Some]
    by (simp add: wf_state_def getStateObject_objects)
qed

lemma updObj_frame [simp]:
  "sdb_db (updObj a f s) = sdb_db s" "sdb_trie (updObj a f s) = sdb_trie s"
  "sdb_refund (updObj a f s) = sdb_refund s" "sdb_logs (updObj a f s) = sdb_logs s"
  "sdb_logSize (updObj a f s) = sdb_logSize s" "sdb_preimages (updObj a f s) = sdb_preimages s"
  "sdb_thash (updObj a f s) = sdb_thash s" "sdb_bhash (updObj a f s) = sdb_bhash s"
  "sdb_txIndex (updObj a f s) = sdb_txIndex s" "sdb_journal (updObj a f s) = sdb_journal s"
  "sdb_validRevisions (updObj a f s) = sdb_validRevisions s"
  "sdb_nextRevisionId (updObj a f s) = sdb_nextRevisionId s"
  "sdb_stateObjectsDirty (updObj a f s) = sdb_stateObjectsDirty s"
  by (simp_all add: updObj_def)

lemma view_updObj:
  "sdb_stateObjects s a = Some so \<Longrightarrow> \<not> so_deleted (f so) \<Longrightarrow>
   view (updObj a f s) = (view s)(a \<mapsto> obj_view (sdb_db s) (f so))"
  by (auto simp: view_alt fun_eq_iff updObj_def)

lemma wf_state_updObj:
  "wf_state s \<Longrightarrow>
   (\<And>so. so_address (f so) = so_address so \<and> so_addrHash (f so) = so_addrHash so \<and>
         so_deleted (f so) = so_deleted so) \<Longrightarrow> wf_state (updObj a f s)"
  by (auto simp: wf_state_def updObj_def ok_obj_def split: if_splits)

lemma obj_setters_frame [simp]:
  "so_address (setBalance_obj b so) = so_address so" "so_addrHash (setBalance_obj b so) = so_addrHash so"
  "so_deleted (setBalance_obj b so) = so_deleted so"
  "so_address (setNonce_obj n so) = so_address so" "so_addrHash (setNonce_obj n so) = so_addrHash so"
  "so_deleted (setNonce_obj n so) = so_deleted so"
  "so_address (setState_obj k v so) = so_address so" "so_addrHash (setState_obj k v so) = so_addrHash so"
  "so_deleted (setState_obj k v so) = so_deleted so"
  "so_address (setCode_obj h c so) = so_address so" "so_addrHash (setCode_obj h c so) = so_addrHash so"
  "so_deleted (setCode_obj h c so) = so_deleted so"
  "so_address (markSuicided so) = so_address so" "so_addrHash (markSuicided so) = so_addrHash so"
  "so_deleted (markSuicided so) = so_deleted so"
  by (simp_all add: setBalance_obj_def setNonce_obj_def setState_obj_def setCode_obj_def markSuicided_def)

subsection \<open>Undoing an entry respects observational equality\<close>

text \<open>
  On observations, undoing an object entry is a function of the view alone: the old value is
  written back into the view of the account.
\<close>

fun undo_view :: "Database \<Rightarrow> journalEntry \<Rightarrow> account_view \<Rightarrow> account_view" where
  "undo_view db (suicideChange a prev b) v = v\<lparr>v_balance := b, v_suicided := prev\<rparr>"
| "undo_view db (balanceChange a b) v = v\<lparr>v_balance := b\<rparr>"
| "undo_view db (nonceChange a n) v = v\<lparr>v_nonce := n\<rparr>"
| "undo_view db (codeChange a c h) v = v\<lparr>v_codeHash := h, v_code := code_of db a c h\<rparr>"
| "undo_view db (storageChange a k x) v = v\<lparr>v_storage := (v_storage v)(k := x)\<rparr>"
| "undo_view db _ v = v"

fun writes_back :: "journalEntry \<Rightarrow> Address option" where
  "writes_back (suicideChange a prev b) = Some a"
| "writes_back (balanceChange a b) = Some a"
| "writes_back (nonceChange a n) = Some a"
| "writes_back (codeChange a c h) = Some a"
| "writes_back (storageChange a k x) = Some a"
| "writes_back _ = None"

definition same_rest :: "StateDB \<Rightarrow> StateDB \<Rightarrow> bool" where
  "same_rest s t \<longleftrightarrow>
     sdb_db s = sdb_db t \<and> sdb_trie s = sdb_trie t \<and>
     sdb_refund s = sdb_refund t \<and> sdb_logs s = sdb_logs t \<and> sdb_logSize s = sdb_logSize t \<and>
     sdb_preimages s = sdb_preimages t \<and> sdb_thash s = sdb_thash t \<and> sdb_bhash s = sdb_bhash t \<and>
     sdb_txIndex s = sdb_txIndex t"

lemma same_obs_alt: "same_obs s t \<longleftrightarrow> same_rest s t \<and> view s = view t"
  by (auto simp: same_obs_def same_rest_def)

lemma updObj_lookup:
  assumes "wf_state s" and "snd (getStateObject a s) = Some so"
    and f: "\<And>so. so_address (f so) = so_address so \<and> so_addrHash (f so) = so_addrHash so \<and>
                  so_deleted (f so) = so_deleted so"
    and v: "obj_view (sdb_db s) (f so) = g (obj_view (sdb_db s) so)"
  shows "wf_state (updObj a f (fst (getStateObject a s))) \<and>
         same_rest (updObj a f (fst (getStateObject a s))) s \<and>
         view (updObj a f (fst (getStateObject a s))) = (view s)(a := map_option g (view s a))"
proof -
  have obj: "sdb_stateObjects (fst (getStateObject a s)) a = Some so"
    using assms(2) by (simp add: getStateObject_objects)
  have "\<not> so_deleted (f so)"
    using f getStateObject_Some(3) [OF assms(1,2)] by simp
  with obj have "view (updObj a f (fst (getStateObject a s))) = (view s)(a \<mapsto> g (obj_view (sdb_db s) so))"
    by (simp add: view_updObj v)
  moreover have "wf_state (updObj a f (fst (getStateObject a s)))"
    using assms(1) f by (intro wf_state_updObj) auto
  ultimately show ?thesis
    using assms(2) by (simp add: same_rest_def view_lookup(2))
qed

fun write_back :: "journalEntry \<Rightarrow> stateObject \<Rightarrow> stateObject" where
  "write_back (suicideChange a prev b) = (\<lambda>so. setBalance_obj b (so\<lparr>so_suicided := prev\<rparr>))"
| "write_back (balanceChange a b) = setBalance_obj b"
| "write_back (nonceChange a n) = setNonce_obj n"
| "write_back (codeChange a c h) = setCode_obj h c"
| "write_back (storageChange a k x) = setState_obj k x"
| "write_back _ = id"

lemma write_back_frame:
  "so_address (write_back e so) = so_address so \<and> so_addrHash (write_back e so) = so_addrHash so \<and>
   so_deleted (write_back e so) = so_deleted so"
  by (cases e) simp_all

lemma write_back_view:
  "ok_obj db so \<Longrightarrow> writes_back e = Some (so_address so) \<Longrightarrow>
   obj_view db (write_back e so) = undo_view db e (obj_view db so)"
  by (cases e) (simp_all add: obj_view_setCode)

lemma revert_entry_write_back:
  assumes "writes_back e = Some a"
  shows "revert_entry e s =
    (case getStateObject a s of
       (s1, Some so) \<Rightarrow> Done (updObj a (write_back e) s1)
     | (s1, None) \<Rightarrow> (case e of suicideChange _ _ _ \<Rightarrow> Done s1 | _ \<Rightarrow> Panic))"
  using assms by (cases e) (auto simp: modifyExisting_def split: prod.splits option.splits)

lemma revert_writes_back:
  assumes wf: "wf_state s" and e: "writes_back e = Some a" and so: "snd (getStateObject a s) = Some so"
  shows "\<exists>s'. revert_entry e s = Done s' \<and> wf_state s' \<and> same_rest s' s \<and>
           view s' = (view s)(a := map_option (undo_view (sdb_db s) e) (view s a))"
proof -
  obtain s1 where g: "getStateObject a s = (s1, Some so)"
    using so by (cases "getStateObject a s") auto
  have "obj_view (sdb_db s) (write_back e so) = undo_view (sdb_db s) e (obj_view (sdb_db s) so)"
    using getStateObject_Some [OF wf so] e by (intro write_back_view) auto
  then show ?thesis
    using updObj_lookup [OF wf so, of "write_back e" "undo_view (sdb_db s) e"] g e
    by (simp add: write_back_frame revert_entry_write_back)
qed

lemma revert_writes_back_missing:
  assumes "writes_back e = Some a" and "snd (getStateObject a s) = None"
  shows "revert_entry e s = (case e of suicideChange _ _ _ \<Rightarrow> Done (fst (getStateObject a s)) | _ \<Rightarrow> Panic)"
  using assms by (cases "getStateObject a s") (simp add: revert_entry_write_back split: journalEntry.split)

definition equiv :: "StateDB \<Rightarrow> StateDB \<Rightarrow> bool" where
  "equiv s t \<longleftrightarrow> wf_state s \<and> wf_state t \<and> same_obs s t"

lemma equiv_refl: "wf_state s \<Longrightarrow> equiv s s"
  by (simp add: equiv_def same_obs_def)

lemma equiv_sym: "equiv s t \<Longrightarrow> equiv t s"
  by (auto simp: equiv_def same_obs_def)

lemma equiv_trans [trans]: "equiv s t \<Longrightarrow> equiv t u \<Longrightarrow> equiv s u"
  by (auto simp: equiv_def same_obs_def)

lemma equiv_frame:
  "wf_state s \<Longrightarrow> same_rest s t \<Longrightarrow> sdb_stateObjects s = sdb_stateObjects t \<Longrightarrow> equiv s t"
  using view_frame [of s t] wf_state_frame [of s t]
  by (auto simp: equiv_def same_obs_alt same_rest_def)

lemma equiv_undirty: "wf_state s \<Longrightarrow> equiv (undirty e s) s"
  using wf_state_frame [of "undirty e s" s]
  by (intro equiv_frame) (auto simp: undirty_def same_rest_def split: option.splits)

lemma equiv_getStateObject: "wf_state s \<Longrightarrow> equiv (fst (getStateObject a s)) s"
  by (simp add: equiv_def same_obs_def)

lemma revert_entry_cong_obj:
  assumes "equiv s t" and "writes_back e = Some a" and "revert_entry e s = Done s'"
  shows "\<exists>t'. revert_entry e t = Done t' \<and> equiv s' t'"
proof (cases "snd (getStateObject a s)")
  case None
  moreover have "snd (getStateObject a t) = None"
    using None assms(1) by (metis equiv_def same_obs_def view_lookup(1))
  moreover have "equiv (fst (getStateObject a s)) (fst (getStateObject a t))"
    using assms(1) by (simp add: equiv_def same_obs_def)
  ultimately show ?thesis
    using assms(2,3) revert_writes_back_missing [OF assms(2), of s] revert_writes_back_missing [OF assms(2), of t]
    by (cases e) auto
next
  case (Some so)
  moreover obtain so' where "snd (getStateObject a t) = Some so'"
    using Some assms(1) by (metis equiv_def same_obs_def view_lookup(1) not_None_eq)
  ultimately show ?thesis
    using assms revert_writes_back [of s e a so] revert_writes_back [of t e a so']
    by (auto simp: equiv_def same_obs_alt same_rest_def)
qed

lemma equiv_create_undone:
  assumes "equiv s t"
  shows "equiv (s\<lparr>sdb_stateObjects := (sdb_stateObjects s)(a := None), sdb_stateObjectsDirty := D\<rparr>)
               (t\<lparr>sdb_stateObjects := (sdb_stateObjects t)(a := None), sdb_stateObjectsDirty := D'\<rparr>)"
  using assms
  by (auto simp: equiv_def same_obs_alt same_rest_def wf_state_def fun_eq_iff view_alt)

lemma equiv_setStateObject:
  assumes "equiv s t" and "ok_obj (sdb_db s) p" and "\<not> so_deleted p"
  shows "equiv (setStateObject p s) (setStateObject p t)"
  using assms
  by (auto simp: equiv_def same_obs_alt same_rest_def wf_state_def fun_eq_iff view_alt setStateObject_def)

lemma equiv_GetLogs: "equiv s t \<Longrightarrow> GetLogs h s = GetLogs h t"
  by (simp add: equiv_def same_obs_def GetLogs_def)

lemma equiv_update_rest:
  assumes "equiv s t"
  shows "equiv (s\<lparr>sdb_refund := r\<rparr>) (t\<lparr>sdb_refund := r\<rparr>)"
    and "equiv (s\<lparr>sdb_logs := l, sdb_logSize := n\<rparr>) (t\<lparr>sdb_logs := l, sdb_logSize := n\<rparr>)"
    and "equiv (s\<lparr>sdb_preimages := p\<rparr>) (t\<lparr>sdb_preimages := p\<rparr>)"
  using assms
  by (auto simp: equiv_def same_obs_alt same_rest_def wf_state_def fun_eq_iff view_alt)

lemma revert_entry_cong:
  assumes eq: "equiv s t" and ok: "ok_entry (sdb_db s) e" and s': "revert_entry e s = Done s'"
  shows "\<exists>t'. revert_entry e t = Done t' \<and> equiv s' t'"
proof (cases "writes_back e")
  case (Some a)
  then show ?thesis using revert_entry_cong_obj [OF eq _ s'] by blast
next
  case None
  have rest: "sdb_logs t = sdb_logs s" "sdb_logSize t = sdb_logSize s" "sdb_preimages t = sdb_preimages s"
    using eq by (auto simp: equiv_def same_obs_def)
  from None s' ok show ?thesis
    using equiv_create_undone [OF eq] equiv_setStateObject [OF eq] equiv_update_rest [OF eq] eq
    by (cases e) (auto simp: equiv_GetLogs [OF eq, symmetric] rest Let_def split: if_splits)
qed

lemma revert_entry_frame:
  "revert_entry e s = Done s' \<Longrightarrow>
     sdb_db s' = sdb_db s \<and> j_entries (sdb_journal s') = j_entries (sdb_journal s) \<and>
     sdb_validRevisions s' = sdb_validRevisions s \<and> sdb_nextRevisionId s' = sdb_nextRevisionId s"
proof (cases "writes_back e")
  case (Some a)
  assume "revert_entry e s = Done s'"
  then show ?thesis
    using Some getStateObject_frame [of a s]
    by (auto simp: revert_entry_write_back split: prod.splits option.splits journalEntry.splits
        simp del: getStateObject_frame)
qed (cases e; auto simp: setStateObject_def Let_def split: if_splits)

lemma undirty_frame [simp]:
  "sdb_db (undirty e s) = sdb_db s" "j_entries (sdb_journal (undirty e s)) = j_entries (sdb_journal s)"
  "sdb_validRevisions (undirty e s) = sdb_validRevisions s"
  "sdb_nextRevisionId (undirty e s) = sdb_nextRevisionId s"
  by (simp_all add: undirty_def split: option.splits)

lemma revert_entries_frame:
  "revert_entries es s = Done s' \<Longrightarrow>
     sdb_db s' = sdb_db s \<and> j_entries (sdb_journal s') = j_entries (sdb_journal s) \<and>
     sdb_validRevisions s' = sdb_validRevisions s \<and> sdb_nextRevisionId s' = sdb_nextRevisionId s"
proof (induction es arbitrary: s)
  case (Cons e es)
  then obtain s1 where "revert_entry e s = Done s1" "revert_entries es (undirty e s1) = Done s'"
    by auto
  then show ?case using Cons.IH [of "undirty e s1"] revert_entry_frame [of e s s1] by simp
qed simp

lemma revert_entries_cong:
  assumes "equiv s t" and "\<forall>e \<in> set es. ok_entry (sdb_db s) e" and "revert_entries es s = Done s'"
  shows "\<exists>t'. revert_entries es t = Done t' \<and> equiv s' t'"
  using assms
proof (induction es arbitrary: s t)
  case (Cons e es)
  from Cons.prems(3) obtain s1 where s1: "revert_entry e s = Done s1"
    and s': "revert_entries es (undirty e s1) = Done s'" by auto
  from revert_entry_cong [OF Cons.prems(1) _ s1] Cons.prems(2)
  obtain t1 where t1: "revert_entry e t = Done t1" "equiv s1 t1" by auto
  then have "equiv (undirty e s1) (undirty e t1)"
    by (meson equiv_def equiv_sym equiv_trans equiv_undirty)
  moreover have "\<forall>e' \<in> set es. ok_entry (sdb_db (undirty e s1)) e'"
    using Cons.prems(2) revert_entry_frame [OF s1] by simp
  ultimately show ?case
    using Cons.IH [OF _ _ s'] t1(1) by simp
qed auto

lemma revert_entries_append:
  "revert_entries (es @ es') s = obind (revert_entries es s) (revert_entries es')"
  by (induction es arbitrary: s) (simp_all add: obind_assoc)

subsection \<open>Undoable changes\<close>

lemma undoableI:
  assumes "wf_state s" "wf_state s'" "sdb_db s' = sdb_db s"
    and "sdb_validRevisions s' = sdb_validRevisions s" "sdb_nextRevisionId s' = sdb_nextRevisionId s"
    and "j_entries (sdb_journal s') = j_entries (sdb_journal s) @ es"
    and "\<forall>e \<in> set es. ok_entry (sdb_db s) e"
    and "revert_entries (rev es) s' = Done t" "equiv t s"
  shows "undoable s s'"
  using assms by (auto simp: undoable_def equiv_def)

lemma undoable_refl: "wf_state s \<Longrightarrow> undoable s s"
  by (rule undoableI [where es = "[]"]) (auto simp: equiv_refl)

lemma undoable_wf: "undoable s s' \<Longrightarrow> wf_state s'"
  by (simp add: undoable_def)

lemma undoable_trans [trans]:
  assumes wf: "wf_state s" and "undoable s s'" and "undoable s' s''"
  shows "undoable s s''"
proof -
  obtain es t where 1: "j_entries (sdb_journal s') = j_entries (sdb_journal s) @ es"
      "\<forall>e \<in> set es. ok_entry (sdb_db s) e" "revert_entries (rev es) s' = Done t" "wf_state t" "same_obs t s"
    using assms(2) by (auto simp: undoable_def)
  obtain es' t' where 2: "j_entries (sdb_journal s'') = j_entries (sdb_journal s') @ es'"
      "\<forall>e \<in> set es'. ok_entry (sdb_db s') e" "revert_entries (rev es') s'' = Done t'" "wf_state t'" "same_obs t' s'"
    using assms(3) by (auto simp: undoable_def)
  have db: "sdb_db s' = sdb_db s" and wf': "wf_state s'"
    using assms(2) by (simp_all add: undoable_def)
  have "equiv s' t'"
    using 2 wf' by (auto simp: equiv_def same_obs_def)
  then obtain u where u: "revert_entries (rev es) t' = Done u" "equiv t u"
    using revert_entries_cong [of s' t' "rev es" t] 1 db by auto
  then have "equiv u s"
    using 1 wf by (auto simp: equiv_def same_obs_def)
  with u(1) show ?thesis
    using assms 1 2 db
    by (intro undoableI [where es = "es @ es'" and t = u]) (auto simp: undoable_def revert_entries_append)
qed

lemma undoable_silent:
  "equiv s' s \<Longrightarrow> sdb_journal s' = sdb_journal s \<Longrightarrow>
   sdb_validRevisions s' = sdb_validRevisions s \<Longrightarrow> sdb_nextRevisionId s' = sdb_nextRevisionId s \<Longrightarrow>
   undoable s s'"
  by (rule undoableI [where es = "[]" and t = s']) (auto simp: equiv_def same_obs_def)

lemma appendEntry_frame [simp]:
  "sdb_db (appendEntry e s) = sdb_db s" "sdb_trie (appendEntry e s) = sdb_trie s"
  "sdb_stateObjects (appendEntry e s) = sdb_stateObjects s"
  "sdb_refund (appendEntry e s) = sdb_refund s" "sdb_logs (appendEntry e s) = sdb_logs s"
  "sdb_logSize (appendEntry e s) = sdb_logSize s" "sdb_preimages (appendEntry e s) = sdb_preimages s"
  "sdb_thash (appendEntry e s) = sdb_thash s" "sdb_bhash (appendEntry e s) = sdb_bhash s"
  "sdb_txIndex (appendEntry e s) = sdb_txIndex s"
  "sdb_validRevisions (appendEntry e s) = sdb_validRevisions s"
  "sdb_nextRevisionId (appendEntry e s) = sdb_nextRevisionId s"
  "j_entries (sdb_journal (appendEntry e s)) = j_entries (sdb_journal s) @ [e]"
  by (simp_all add: appendEntry_def journal_append_def Let_def split: option.splits)

lemma appendEntry_equiv: "wf_state s \<Longrightarrow> equiv (appendEntry e s) s"
  using wf_state_frame [of "appendEntry e s" s] by (intro equiv_frame) (simp_all add: same_rest_def)

lemma undoable_entry:
  assumes "wf_state s" "wf_state s'" "ok_entry (sdb_db s) e" "sdb_db s' = sdb_db s"
    and "sdb_validRevisions s' = sdb_validRevisions s" "sdb_nextRevisionId s' = sdb_nextRevisionId s"
    and "j_entries (sdb_journal s') = j_entries (sdb_journal s) @ [e]"
    and "revert_entry e s' = Done t" "equiv t s"
  shows "undoable s s'"
proof (rule undoableI [where es = "[e]" and t = "undirty e t"])
  show "equiv (undirty e t) s"
    using assms(9) equiv_undirty [of t e] equiv_trans by (auto simp: equiv_def [of t])
qed (use assms in auto)

lemma undoable_write:
  assumes wf: "wf_state s" and so: "sdb_stateObjects s a = Some so" "\<not> so_deleted so"
    and e: "writes_back e = Some a"
    and f: "\<And>so. so_address (f so) = so_address so \<and> so_addrHash (f so) = so_addrHash so \<and>
                  so_deleted (f so) = so_deleted so"
    and v: "undo_view (sdb_db s) e (obj_view (sdb_db s) (f so)) = obj_view (sdb_db s) so"
  shows "undoable s (updObj a f (appendEntry e s))"
proof -
  let ?s = "updObj a f (appendEntry e s)"
  have wf': "wf_state ?s"
    using wf_state_updObj [of "appendEntry e s" f a] f appendEntry_equiv [OF wf] by (auto simp: equiv_def)
  have "snd (getStateObject a ?s) = Some (f so)"
    using so f by (simp add: getStateObject_def updObj_def)
  from revert_writes_back [OF wf' e this] obtain t
    where t: "revert_entry e ?s = Done t" "wf_state t" "same_rest t ?s"
      "view t = (view ?s)(a := map_option (undo_view (sdb_db s) e) (view ?s a))" by auto
  have "view ?s = (view s)(a \<mapsto> obj_view (sdb_db s) (f so))"
    using so f view_frame [of "appendEntry e s" s] by (simp add: view_updObj)
  moreover have "view s a = Some (obj_view (sdb_db s) so)"
    using so by (simp add: view_alt)
  ultimately have "view t = view s"
    using v by (simp add: t(4) fun_eq_iff)
  then have "equiv t s"
    using t(2,3) wf by (simp add: equiv_def same_obs_alt same_rest_def)
  moreover have "ok_entry (sdb_db s) e" using e by (cases e) auto
  ultimately show ?thesis
    using wf wf' t(1) by (intro undoable_entry [where e = e and t = t]) auto
qed

end
