(* ===== verification/State_Snapshot.thy ===== *)
theory State_Snapshot
  imports State_Revert
begin

text \<open>
  Every operation of the state database is undoable, and \<open>RevertToSnapshot\<close> undoes it: the
  snapshot interface that the virtual machine relies on, as a locale, and its interpretation on
  the state database.
\<close>

subsection \<open>Lookup and creation\<close>

lemma undoable_getStateObject [journal_intros]:
  "wf_state s \<Longrightarrow> undoable s (fst (getStateObject a s))"
  by (rule undoable_silent) (simp_all add: equiv_getStateObject)

lemma createObject_obj:
  "snd (snd (createObject a s)) = snd (getStateObject a s)"
  "fst (snd (createObject a s)) = newObject (sdb_db s) a (zeroAccount (sdb_db s))"
  "sdb_stateObjects (fst (createObject a s)) a = Some (newObject (sdb_db s) a (zeroAccount (sdb_db s)))"
  by (simp_all add: createObject_def Let_def case_prod_beta setStateObject_def setNonce_obj_def
      newObject_def zeroAccount_def split: option.splits)

lemma wf_state_setStateObject:
  "wf_state s \<Longrightarrow> ok_obj (sdb_db s) p \<Longrightarrow> \<not> so_deleted p \<Longrightarrow> wf_state (setStateObject p s)"
  by (auto simp: wf_state_def setStateObject_def)

lemma setStateObject_frame [simp]:
  "sdb_db (setStateObject p s) = sdb_db s" "sdb_trie (setStateObject p s) = sdb_trie s"
  "sdb_refund (setStateObject p s) = sdb_refund s" "sdb_logs (setStateObject p s) = sdb_logs s"
  "sdb_logSize (setStateObject p s) = sdb_logSize s"
  "sdb_preimages (setStateObject p s) = sdb_preimages s"
  "sdb_thash (setStateObject p s) = sdb_thash s" "sdb_bhash (setStateObject p s) = sdb_bhash s"
  "sdb_txIndex (setStateObject p s) = sdb_txIndex s"
  "sdb_journal (setStateObject p s) = sdb_journal s"
  "sdb_validRevisions (setStateObject p s) = sdb_validRevisions s"
  "sdb_nextRevisionId (setStateObject p s) = sdb_nextRevisionId s"
  "sdb_stateObjects (setStateObject p s) = (sdb_stateObjects s)(so_address p \<mapsto> p)"
  by (simp_all add: setStateObject_def)

lemma missing_trie_view:
  assumes "wf_state s" and "snd (getStateObject a s) = None"
  shows "trie_view (sdb_db s) (sdb_trie s) a = None"
proof (cases "sdb_stateObjects s a")
  case None
  then show ?thesis using assms(2) view_lookup(1) [of s a] by (simp add: view_alt)
next
  case (Some so)
  then have "so_deleted so" using assms(2) by (simp add: getStateObject_def split: if_splits)
  then show ?thesis
    using assms(1) Some by (auto simp: wf_state_def absent_def trie_view_def split: sum.splits option.splits)
qed

lemma undoable_create_missing:
  assumes wf: "wf_state s" and none: "snd (getStateObject a s) = None"
    and obj: "so_address p = a" "ok_obj (sdb_db s) p" "\<not> so_deleted p"
  shows "undoable s (setStateObject p (appendEntry (createObjectChange a) s))"
proof (rule undoable_entry [OF wf])
  let ?s = "setStateObject p (appendEntry (createObjectChange a) s)"
  let ?t = "?s\<lparr>sdb_stateObjects := (sdb_stateObjects ?s)(a := None),
               sdb_stateObjectsDirty := sdb_stateObjectsDirty ?s - {a}\<rparr>"
  show "wf_state ?s"
    using appendEntry_equiv [OF wf] obj by (intro wf_state_setStateObject) (auto simp: equiv_def)
  show "revert_entry (createObjectChange a) ?s = Done ?t"
    by simp
  have "wf_state ?t"
    using wf obj by (auto simp: wf_state_def)
  moreover have "view ?t b = view s b" for b
    using missing_trie_view [OF wf none] view_lookup(1) [of s a] none obj
    by (cases "b = a") (simp_all add: view_alt)
  ultimately show "equiv ?t s"
    using wf by (simp add: equiv_def same_obs_alt same_rest_def fun_eq_iff)
qed simp_all

lemma undoable_create_existing:
  assumes wf: "wf_state s" and some: "sdb_stateObjects s a = Some p" "\<not> so_deleted p"
    and obj: "so_address q = a" "ok_obj (sdb_db s) q" "\<not> so_deleted q"
  shows "undoable s (setStateObject q (appendEntry (resetObjectChange p) s))"
proof (rule undoable_entry [OF wf])
  let ?s = "setStateObject q (appendEntry (resetObjectChange p) s)"
  have p: "so_address p = a" "ok_obj (sdb_db s) p"
    using wf some by (auto simp: wf_state_def)
  show "wf_state ?s"
    using appendEntry_equiv [OF wf] obj by (intro wf_state_setStateObject) (auto simp: equiv_def)
  show "revert_entry (resetObjectChange p) ?s = Done (setStateObject p ?s)"
    by simp
  have "sdb_stateObjects (setStateObject p ?s) = sdb_stateObjects s"
    using some obj p by auto
  then show "equiv (setStateObject p ?s) s"
    using wf wf_state_frame [of "setStateObject p ?s" s] by (intro equiv_frame) (simp_all add: same_rest_def)
  show "ok_entry (sdb_db s) (resetObjectChange p)"
    using p some by simp
qed simp_all

lemma undoable_createObject [journal_intros]:
  assumes wf: "wf_state s"
  shows "undoable s (fst (createObject a s))"
proof -
  let ?s = "fst (getStateObject a s)"
  let ?n = "setNonce_obj 0 (newObject (sdb_db s) a (zeroAccount (sdb_db s)))"
  have n: "so_address ?n = a" "ok_obj (sdb_db ?s) ?n" "\<not> so_deleted ?n"
    by (simp_all add: ok_obj_def, simp add: newObject_def)
  have wf': "wf_state ?s" using wf by simp
  have "undoable ?s (fst (createObject a s))"
  proof (cases "snd (getStateObject a s)")
    case None
    then have "snd (getStateObject a ?s) = None"
      using view_lookup(1) [of ?s a] view_lookup(1) [of s a] by simp
    from undoable_create_missing [OF wf' this n] None show ?thesis
      by (simp add: createObject_def Let_def case_prod_beta)
  next
    case (Some p)
    then have "sdb_stateObjects ?s a = Some p" by (simp add: getStateObject_objects)
    from undoable_create_existing [OF wf' this _ n] Some getStateObject_live [OF Some] show ?thesis
      by (simp add: createObject_def Let_def case_prod_beta)
  qed
  then show ?thesis
    using undoable_trans [OF wf undoable_getStateObject [OF wf]] by blast
qed

lemma GetOrNew_cases:
  "GetOrNewStateObject a s =
     (case snd (getStateObject a s) of
        Some so \<Rightarrow> (fst (getStateObject a s), so)
      | None \<Rightarrow> (fst (createObject a (fst (getStateObject a s))),
                 fst (snd (createObject a (fst (getStateObject a s))))))"
  using getStateObject_live [of a s]
  by (auto simp: GetOrNewStateObject_def Let_def case_prod_beta split: prod.splits option.splits)

lemma GetOrNew_obj:
  assumes wf: "wf_state s"
  shows "sdb_stateObjects (fst (GetOrNewStateObject a s)) a = Some (snd (GetOrNewStateObject a s))"
    and "so_address (snd (GetOrNewStateObject a s)) = a"
    and "\<not> so_deleted (snd (GetOrNewStateObject a s))"
    and "ok_obj (sdb_db s) (snd (GetOrNewStateObject a s))"
  using getStateObject_Some [OF wf, of a] 
  by (auto simp: GetOrNew_cases getStateObject_objects createObject_obj split: option.splits)

lemma GetOrNew_db [simp]: "sdb_db (fst (GetOrNewStateObject a s)) = sdb_db s"
  by (auto simp: GetOrNew_cases createObject_def Let_def case_prod_beta split: option.splits)

lemma undoable_GetOrNew [journal_intros]:
  assumes wf: "wf_state s"
  shows "undoable s (fst (GetOrNewStateObject a s))"
  using undoable_getStateObject [OF wf, of a]
    undoable_trans [OF wf undoable_getStateObject [OF wf, of a] undoable_createObject, of a]
  by (auto simp: GetOrNew_cases wf split: option.splits)

subsection \<open>Writers and readers\<close>

lemma undoable_updObj_silent:
  assumes wf: "wf_state s" and so: "sdb_stateObjects s a = Some so" "\<not> so_deleted so"
    and so': "so_address so' = a" "so_addrHash so' = so_addrHash so" "\<not> so_deleted so'"
      "obj_view (sdb_db s) so' = obj_view (sdb_db s) so"
  shows "undoable s (updObj a (\<lambda>_. so') s)"
proof (rule undoable_silent)
  have a: "so_address so = a" "ok_obj (sdb_db s) so" using wf so by (auto simp: wf_state_def)
  then have "wf_state (updObj a (\<lambda>_. so') s)"
    using wf so so' by (auto simp: wf_state_def updObj_def ok_obj_def)
  moreover have "view (updObj a (\<lambda>_. so') s) = view s"
    using so so' by (auto simp: view_alt fun_eq_iff updObj_def)
  ultimately show "equiv (updObj a (\<lambda>_. so') s) s"
    using wf by (simp add: equiv_def same_obs_def)
qed simp_all

lemma obj_view_write_back [simp]:
  "(obj_view db so)\<lparr>v_balance := acc_Balance (so_data so)\<rparr> = obj_view db so"
  "(obj_view db so)\<lparr>v_nonce := acc_Nonce (so_data so)\<rparr> = obj_view db so"
  "(obj_view db so)\<lparr>v_suicided := so_suicided so\<rparr> = obj_view db so"
  "(obj_view db so)\<lparr>v_codeHash := acc_CodeHash (so_data so), v_code := snd (Code_obj db so)\<rparr> = obj_view db so"
  "(obj_view db so)\<lparr>v_storage := (v_storage (obj_view db so))(k := snd (GetState_obj db so k))\<rparr> = obj_view db so"
  by (simp_all add: obj_view_def fun_eq_iff)

lemma undoable_SetBalance_so:
  assumes "wf_state s" and "sdb_stateObjects s (so_address so) = Some so" and "\<not> so_deleted so"
  shows "undoable s (SetBalance_so so amount s)"
  unfolding SetBalance_so_def
  by (rule undoable_write [OF assms]) simp_all

lemma undoable_touch:
  assumes wf: "wf_state s"
  shows "undoable s (touch so s)"
proof (rule undoable_entry [OF wf, where e = "touchChange (so_address so)" and t = "touch so s"])
  show eq: "equiv (touch so s) s"
    using wf wf_state_frame [of "touch so s" s]
    by (intro equiv_frame) (simp_all add: touch_def Let_def same_rest_def)
  then show "wf_state (touch so s)" by (simp add: equiv_def)
qed (simp_all add: touch_def journal_dirty_def Let_def)

lemma undoable_AddBalance [journal_intros]:
  assumes wf: "wf_state s"
  shows "undoable s (AddBalance a amount s)"
proof -
  let ?s = "fst (GetOrNewStateObject a s)" and ?o = "snd (GetOrNewStateObject a s)"
  note u = undoable_GetOrNew [OF wf, of a] and o = GetOrNew_obj [OF wf, of a]
  have "undoable ?s (SetBalance_so ?o (acc_Balance (so_data ?o) + amount) ?s)"
    using undoable_SetBalance_so [OF undoable_wf [OF u]] o by simp
  then show ?thesis
    using undoable_trans [OF wf u] undoable_touch [OF undoable_wf [OF u]] u
    by (auto simp: AddBalance_def Let_def case_prod_beta)
qed

lemma undoable_SubBalance [journal_intros]:
  assumes wf: "wf_state s"
  shows "undoable s (SubBalance a amount s)"
proof -
  let ?s = "fst (GetOrNewStateObject a s)" and ?o = "snd (GetOrNewStateObject a s)"
  note u = undoable_GetOrNew [OF wf, of a] and o = GetOrNew_obj [OF wf, of a]
  have "undoable ?s (SetBalance_so ?o (acc_Balance (so_data ?o) - amount) ?s)"
    using undoable_SetBalance_so [OF undoable_wf [OF u]] o by simp
  then show ?thesis
    using undoable_trans [OF wf u] u by (auto simp: SubBalance_def Let_def case_prod_beta)
qed

lemma undoable_SetBalance [journal_intros]:
  assumes wf: "wf_state s"
  shows "undoable s (SetBalance a amount s)"
  using undoable_trans [OF wf undoable_GetOrNew [OF wf, of a] undoable_SetBalance_so]
    undoable_wf [OF undoable_GetOrNew [OF wf, of a]] GetOrNew_obj [OF wf, of a]
  by (simp add: SetBalance_def case_prod_beta)

lemma undoable_SetNonce [journal_intros]:
  assumes wf: "wf_state s"
  shows "undoable s (SetNonce a n s)"
proof -
  let ?s = "fst (GetOrNewStateObject a s)" and ?o = "snd (GetOrNewStateObject a s)"
  note u = undoable_GetOrNew [OF wf, of a] and o = GetOrNew_obj [OF wf, of a]
  have "undoable ?s (updObj a (setNonce_obj n) (appendEntry (nonceChange a (acc_Nonce (so_data ?o))) ?s))"
    by (rule undoable_write [OF undoable_wf [OF u] o(1) o(3)]) simp_all
  then show ?thesis
    using undoable_trans [OF wf u] o by (simp add: SetNonce_def case_prod_beta)
qed

lemma code_of_Code_obj:
  "ok_obj db so \<Longrightarrow>
   code_of db (so_address so) (snd (Code_obj db so)) (acc_CodeHash (so_data so)) = snd (Code_obj db so)"
  by (auto simp: code_of_def Code_obj_value ok_obj_def split: option.splits sum.splits)

lemma undoable_SetCode [journal_intros]:
  assumes wf: "wf_state s"
  shows "undoable s (SetCode a code s)"
proof -
  let ?s = "fst (GetOrNewStateObject a s)" and ?o = "snd (GetOrNewStateObject a s)"
  let ?o' = "fst (Code_obj (sdb_db s) ?o)"
  let ?s2 = "updObj a (\<lambda>_. ?o') ?s"
  note u = undoable_GetOrNew [OF wf, of a] and o = GetOrNew_obj [OF wf, of a]
  have u2: "undoable ?s ?s2"
    using o by (intro undoable_updObj_silent [OF undoable_wf [OF u] o(1)]) simp_all
  have o2: "sdb_stateObjects ?s2 a = Some ?o'" using o(1) by (simp add: updObj_def)
  have ok: "ok_obj (sdb_db s) ?o'" using o(4) by (simp add: ok_obj_def)
  have "undoable ?s2 (updObj a (setCode_obj h code)
          (appendEntry (codeChange a (snd (Code_obj (sdb_db s) ?o)) (acc_CodeHash (so_data ?o))) ?s2))" for h
  proof (rule undoable_write [OF undoable_wf [OF u2] o2])
    show "\<not> so_deleted ?o'" using o(3) by simp
  qed (use o(2) code_of_Code_obj [OF o(4)] in \<open>simp_all add: obj_view_setCode [OF ok]\<close>)
  then show ?thesis
    using undoable_trans [OF wf undoable_trans [OF wf u u2]] o
    by (simp add: SetCode_def Let_def case_prod_beta)
qed

lemma undoable_SetState [journal_intros]:
  assumes wf: "wf_state s"
  shows "undoable s (SetState a key value s)"
proof -
  let ?s = "fst (GetOrNewStateObject a s)" and ?o = "snd (GetOrNewStateObject a s)"
  let ?o' = "fst (GetState_obj (sdb_db s) ?o key)"
  let ?s2 = "updObj a (\<lambda>_. ?o') ?s"
  note u = undoable_GetOrNew [OF wf, of a] and o = GetOrNew_obj [OF wf, of a]
  have u2: "undoable ?s ?s2"
    using o by (intro undoable_updObj_silent [OF undoable_wf [OF u] o(1)]) simp_all
  have o2: "sdb_stateObjects ?s2 a = Some ?o'" using o(1) by (simp add: updObj_def)
  have "undoable ?s2 (updObj a (setState_obj key value)
          (appendEntry (storageChange a key (snd (GetState_obj (sdb_db s) ?o key))) ?s2))"
    by (rule undoable_write [OF undoable_wf [OF u2] o2]) (use o(3) in simp_all)
  then show ?thesis
    using undoable_trans [OF wf undoable_trans [OF wf u u2]] o
    by (simp add: SetState_def Let_def case_prod_beta)
qed

lemma undoable_CreateAccount [journal_intros]:
  assumes wf: "wf_state s"
  shows "undoable s (CreateAccount a s)"
proof -
  let ?s = "fst (createObject a s)"
  note u = undoable_createObject [OF wf, of a]
  have "undoable s (updObj a (setBalance_obj b) ?s)" if p: "snd (getStateObject a s) = Some p" for b p
  proof -
    let ?s1 = "fst (getStateObject a s)"
    let ?q = "setBalance_obj b (setNonce_obj 0 (newObject (sdb_db s) a (zeroAccount (sdb_db s))))"
    have "updObj a (setBalance_obj b) ?s = setStateObject ?q (appendEntry (resetObjectChange p) ?s1)"
      using p by (simp add: createObject_def Let_def case_prod_beta updObj_def setStateObject_def)
    moreover have "undoable ?s1 (setStateObject ?q (appendEntry (resetObjectChange p) ?s1))"
      using wf p getStateObject_live [OF p]
      by (intro undoable_create_existing [where a = a])
        (auto simp: getStateObject_objects ok_obj_def, simp add: newObject_def)
    ultimately show ?thesis
      using undoable_trans [OF wf undoable_getStateObject [OF wf, of a]] by simp
  qed
  then show ?thesis
    using u by (auto simp: CreateAccount_def Let_def case_prod_beta createObject_obj split: option.splits)
qed

lemma undoable_Suicide [journal_intros]:
  assumes wf: "wf_state s"
  shows "undoable s (fst (Suicide a s))"
proof (cases "snd (getStateObject a s)")
  case None
  then have "fst (Suicide a s) = fst (getStateObject a s)"
    by (auto simp: Suicide_def split: prod.splits option.splits)
  then show ?thesis using undoable_getStateObject [OF wf] by simp
next
  case (Some so)
  let ?s = "fst (getStateObject a s)"
  let ?e = "suicideChange a (so_suicided so) (acc_Balance (so_data so))"
  have "undoable ?s (updObj a (\<lambda>o'. setBalance_obj 0 (markSuicided o')) (appendEntry ?e ?s))"
  proof (rule undoable_write)
    show "sdb_stateObjects ?s a = Some so" using Some by (simp add: getStateObject_objects)
    show "undo_view (sdb_db ?s) ?e (obj_view (sdb_db ?s) (setBalance_obj 0 (markSuicided so))) =
          obj_view (sdb_db ?s) so"
      by (simp add: markSuicided_def)
  qed (use wf getStateObject_live [OF Some] in simp_all)
  moreover have "fst (Suicide a s) = updObj a (\<lambda>o'. setBalance_obj 0 (markSuicided o')) (appendEntry ?e ?s)"
    using Some by (auto simp: Suicide_def split: prod.splits)
  ultimately show ?thesis
    using undoable_trans [OF wf undoable_getStateObject [OF wf, of a]] by simp
qed

lemma undoable_rest:
  assumes wf: "wf_state s" and "ok_entry (sdb_db s) e" and "same_rest t s"
    and "sdb_stateObjects t = sdb_stateObjects s" "sdb_stateObjects s' = sdb_stateObjects s"
      "sdb_db s' = sdb_db s" "sdb_trie s' = sdb_trie s"
      "sdb_validRevisions s' = sdb_validRevisions s" "sdb_nextRevisionId s' = sdb_nextRevisionId s"
      "j_entries (sdb_journal s') = j_entries (sdb_journal s) @ [e]"
    and "revert_entry e s' = Done t"
  shows "undoable s s'"
proof (rule undoable_entry [OF wf _ assms(2)])
  show "wf_state s'" using assms by (simp add: wf_state_def)
  have "wf_state t" using assms by (simp add: wf_state_def same_rest_def)
  then show "equiv t s" using assms by (intro equiv_frame)
qed (use assms in simp_all)

text \<open>
  No log list in the map is empty: \<open>AddLog\<close> appends, and undoing the first log deletes the key.
\<close>

definition logs_ok :: "StateDB \<Rightarrow> bool" where
  "logs_ok s \<longleftrightarrow> (\<forall>h. sdb_logs s h \<noteq> Some [])"

lemma revert_AddLog:
  assumes "logs_ok s"
  shows "revert_entry (addLogChange (sdb_thash s)) (AddLog l s) =
           Done ((AddLog l s)\<lparr>sdb_logs := sdb_logs s, sdb_logSize := sdb_logSize s\<rparr>)"
proof (cases "sdb_logs s (sdb_thash s)")
  case None
  then show ?thesis by (simp add: AddLog_def Let_def GetLogs_def fun_upd_idem)
next
  case (Some ls)
  then obtain x xs where "ls = x # xs" using assms by (cases ls) (auto simp: logs_ok_def)
  with Some show ?thesis by (simp add: AddLog_def Let_def GetLogs_def fun_upd_idem butlast_append)
qed

lemma undoable_AddLog [journal_intros]:
  assumes wf: "wf_state s" and logs: "logs_ok s"
  shows "undoable s (AddLog l s)"
  by (rule undoable_rest [OF wf, where e = "addLogChange (sdb_thash s)", OF _ _ _ _ _ _ _ _ _ revert_AddLog [OF logs]])
    (simp_all add: same_rest_def AddLog_def Let_def)

lemma undoable_AddPreimage [journal_intros]:
  assumes wf: "wf_state s"
  shows "undoable s (AddPreimage h p s)"
proof (cases "sdb_preimages s h")
  case None
  have "undoable s ((appendEntry (addPreimageChange h) s)\<lparr>sdb_preimages := (sdb_preimages s)(h \<mapsto> p)\<rparr>)"
    by (rule undoable_rest [OF wf, where e = "addPreimageChange h"
        and t = "(appendEntry (addPreimageChange h) s)\<lparr>sdb_preimages := sdb_preimages s\<rparr>"])
      (use None in \<open>simp_all add: same_rest_def fun_upd_idem\<close>)
  with None show ?thesis by (simp add: AddPreimage_def Let_def)
qed (simp add: AddPreimage_def undoable_refl wf)

lemma undoable_AddRefund [journal_intros]:
  assumes wf: "wf_state s"
  shows "undoable s (AddRefund g s)"
  by (rule undoable_rest [OF wf, where e = "refundChange (sdb_refund s)"
        and t = "(AddRefund g s)\<lparr>sdb_refund := sdb_refund s\<rparr>"])
    (simp_all add: AddRefund_def Let_def same_rest_def)

lemma undoable_GetCode [journal_intros]:
  assumes wf: "wf_state s"
  shows "undoable s (fst (GetCode a s))"
proof (cases "snd (getStateObject a s)")
  case (Some so)
  then have "sdb_stateObjects (fst (getStateObject a s)) a = Some so" by (simp add: getStateObject_objects)
  from undoable_updObj_silent [OF _ this, of "fst (Code_obj (sdb_db s) so)"]
  have "undoable (fst (getStateObject a s)) (fst (GetCode a s))"
    using Some wf getStateObject_Some [OF wf Some]
    by (auto simp: GetCode_def case_prod_beta split: prod.splits)
  then show ?thesis using undoable_trans [OF wf undoable_getStateObject [OF wf, of a]] by simp
qed (use undoable_getStateObject [OF wf, of a] in \<open>auto simp: GetCode_def split: prod.splits option.splits\<close>)

lemma undoable_GetState [journal_intros]:
  assumes wf: "wf_state s"
  shows "undoable s (fst (GetState a k s))"
proof (cases "snd (getStateObject a s)")
  case (Some so)
  then have "sdb_stateObjects (fst (getStateObject a s)) a = Some so" by (simp add: getStateObject_objects)
  from undoable_updObj_silent [OF _ this, of "fst (GetState_obj (sdb_db s) so k)"]
  have "undoable (fst (getStateObject a s)) (fst (GetState a k s))"
    using Some wf getStateObject_Some [OF wf Some]
    by (auto simp: GetState_def case_prod_beta split: prod.splits)
  then show ?thesis using undoable_trans [OF wf undoable_getStateObject [OF wf, of a]] by simp
qed (use undoable_getStateObject [OF wf, of a] in \<open>auto simp: GetState_def split: prod.splits option.splits\<close>)

lemma undoable_setError: "wf_state s \<Longrightarrow> undoable s (setError e s)"
  using wf_state_frame [of "setError e s" s]
  by (intro undoable_silent equiv_frame) (simp_all add: same_rest_def)

lemma undoable_GetCodeSize [journal_intros]:
  assumes wf: "wf_state s"
  shows "undoable s (fst (GetCodeSize a s))"
  using undoable_getStateObject [OF wf, of a]
    undoable_trans [OF wf undoable_getStateObject [OF wf, of a] undoable_setError]
    wf_state_getStateObject [OF wf, of a]
  by (auto simp: GetCodeSize_def split: prod.splits option.splits sum.splits)

subsection \<open>Binary search\<close>

definition split_at :: "(nat \<Rightarrow> bool) \<Rightarrow> nat \<Rightarrow> nat \<Rightarrow> nat \<Rightarrow> bool" where
  "split_at f n i j \<longleftrightarrow> i \<le> j \<and> j \<le> n \<and> (\<forall>k < i. \<not> f k) \<and> (\<forall>k. j \<le> k \<and> k < n \<longrightarrow> f k)"

lemma sort_Search_loop_spec:
  assumes "split_at f n i j" and mono: "\<And>k l. k \<le> l \<Longrightarrow> l < n \<Longrightarrow> f k \<Longrightarrow> f l"
  shows "split_at f n (sort_Search_loop f i j) (sort_Search_loop f i j)"
  using assms(1)
proof (induction "j - i" arbitrary: i j rule: less_induct)
  case less
  show ?case
  proof (cases "i < j")
    case True
    let ?h = "(i + j) div 2"
    have h: "i \<le> ?h" "?h < j" "?h < n" using True less.prems by (auto simp: split_at_def)
    show ?thesis
    proof (cases "f ?h")
      case False
      have "\<forall>k < ?h + 1. \<not> f k"
        using False mono [OF _ h(3)] by (metis Suc_eq_plus1 less_Suc_eq_le)
      then have "split_at f n (?h + 1) j"
        using less.prems h(2) by (simp add: split_at_def)
      moreover have "sort_Search_loop f i j = sort_Search_loop f (?h + 1) j"
        using True False by (simp add: sort_Search_loop.simps [of f i j] Let_def)
      moreover have "j - (?h + 1) < j - i" using h by linarith
      ultimately show ?thesis using less.hyps [of j "?h + 1"] by metis
    next
      case fh: True
      have "\<forall>k. ?h \<le> k \<and> k < n \<longrightarrow> f k"
        using fh mono by metis
      then have "split_at f n i ?h"
        using less.prems h(1,3) by (simp add: split_at_def)
      moreover have "sort_Search_loop f i j = sort_Search_loop f i ?h"
        using True fh by (simp add: sort_Search_loop.simps [of f i j] Let_def)
      moreover have "?h - i < j - i" using h by linarith
      ultimately show ?thesis using less.hyps [of ?h i] by metis
    qed
  next
    case False
    then have "sort_Search_loop f i j = i"
      by (simp add: sort_Search_loop.simps [of f i j])
    moreover have "i = j" using False less.prems by (simp add: split_at_def)
    ultimately show ?thesis using less.prems by metis
  qed
qed

lemma sort_Search_spec:
  assumes mono: "\<forall>k l. k \<le> l \<and> l < n \<and> f k \<longrightarrow> f l"
  shows "sort_Search n f \<le> n" "k < sort_Search n f \<Longrightarrow> \<not> f k"
    "sort_Search n f \<le> k \<Longrightarrow> k < n \<Longrightarrow> f k"
proof -
  have "split_at f n 0 n" by (auto simp: split_at_def)
  from sort_Search_loop_spec [OF this] mono have "split_at f n (sort_Search n f) (sort_Search n f)"
    unfolding sort_Search_def by metis
  then show "sort_Search n f \<le> n" "k < sort_Search n f \<Longrightarrow> \<not> f k"
    "sort_Search n f \<le> k \<Longrightarrow> k < n \<Longrightarrow> f k"
    unfolding split_at_def by blast+
qed

subsection \<open>Revisions\<close>

definition rev_less :: "revision \<Rightarrow> revision \<Rightarrow> bool" where
  "rev_less r r' \<longleftrightarrow> rev_id r < rev_id r' \<and> rev_journalIndex r \<le> rev_journalIndex r'"

definition revs_ok :: "StateDB \<Rightarrow> bool" where
  "revs_ok s \<longleftrightarrow>
     sorted_wrt rev_less (sdb_validRevisions s) \<and>
     (\<forall>r \<in> set (sdb_validRevisions s). rev_id r < sdb_nextRevisionId s \<and>
        rev_journalIndex r \<le> length (j_entries (sdb_journal s)))"

definition wf_db :: "StateDB \<Rightarrow> bool" where
  "wf_db s \<longleftrightarrow> wf_state s \<and> logs_ok s \<and> revs_ok s"

lemma sorted_revision_mono:
  assumes "sorted_wrt rev_less revs"
    and "j \<le> k" "k < length revs"
  shows "rev_id (revs ! j) \<le> rev_id (revs ! k)"
  using assms sorted_wrt_nth_less [OF assms(1), of j k] by (cases "j = k") (auto simp: rev_less_def)

lemma sort_Search_revision:
  assumes srt: "sorted_wrt rev_less revs" and i: "i < length revs"
  shows "sort_Search (length revs) (\<lambda>j. rev_id (revs ! i) \<le> rev_id (revs ! j)) = i"
proof (rule ccontr)
  let ?f = "\<lambda>j. rev_id (revs ! i) \<le> rev_id (revs ! j)"
  let ?k = "sort_Search (length revs) ?f"
  have mono: "\<forall>k l. k \<le> l \<and> l < length revs \<and> ?f k \<longrightarrow> ?f l"
    using sorted_revision_mono [OF srt] by force
  note spec = sort_Search_spec [of "length revs" ?f, OF mono]
  assume "?k \<noteq> i"
  then consider "i < ?k" | "?k < i" by linarith
  then show False
  proof cases
    case 1
    then show ?thesis using spec(2) [where k = i] by simp
  next
    case 2
    have "rev_id (revs ! ?k) < rev_id (revs ! i)"
      using sorted_wrt_nth_less [OF srt 2 i] by (simp add: rev_less_def)
    moreover have "?f ?k" using spec(3) [where k = ?k] 2 i by linarith
    ultimately show ?thesis by simp
  qed
qed

lemma sort_Search_missing:
  fixes revs :: "revision list"
  assumes srt: "sorted_wrt rev_less revs"
    and "revid \<notin> rev_id ` set revs" and "k = sort_Search (length revs) (\<lambda>j. revid \<le> rev_id (revs ! j))"
  shows "k = length revs \<or> rev_id (revs ! k) \<noteq> revid"
proof (cases "k < length revs")
  case True
  then show ?thesis using assms(2) nth_mem by blast
next
  case False
  have "?thesis" if "k \<le> length revs" using False that by simp
  moreover have "k \<le> length revs"
    unfolding assms(3)
    by (rule sort_Search_spec) (use sorted_revision_mono [OF srt] in force)
  ultimately show ?thesis by blast
qed

lemma RevertToSnapshot_valid:
  assumes "revs_ok s" and revs: "sdb_validRevisions s = xs @ r # ys"
    and t: "revert_entries (rev (drop (rev_journalIndex r) (j_entries (sdb_journal s)))) s = Done t"
  shows "RevertToSnapshot (rev_id r) s =
    Done (t\<lparr>sdb_journal := (sdb_journal t)
              \<lparr>j_entries := take (rev_journalIndex r) (j_entries (sdb_journal s))\<rparr>,
            sdb_validRevisions := xs\<rparr>)"
proof -
  have "sort_Search (length (xs @ r # ys)) (\<lambda>j. rev_id r \<le> rev_id ((xs @ r # ys) ! j)) = length xs"
    using sort_Search_revision [of "xs @ r # ys" "length xs"] assms(1) revs by (simp add: revs_ok_def)
  then show ?thesis
    using t by (simp add: RevertToSnapshot_def revs Let_def journal_revert_def)
qed

lemma RevertToSnapshot_invalid:
  assumes "revs_ok s" and "revid \<notin> rev_id ` set (sdb_validRevisions s)"
  shows "RevertToSnapshot revid s = Panic"
  using sort_Search_missing [OF _ assms(2) refl] assms(1)
  by (auto simp: RevertToSnapshot_def revs_ok_def Let_def)

end
