(* ===== verification/State_Interface.thy ===== *)
theory State_Interface
  imports State_Snapshot
begin

text \<open>
  The contract of the state database towards its clients. \<open>extends s s'\<close> says that \<open>s'\<close> was
  reached from \<open>s\<close> by operations of the database, snapshots and reverts to snapshots taken since
  \<open>s\<close>. The locale \<open>snapshot_store\<close> is the interface the virtual machine uses; it is interpreted on
  the state database.
\<close>

subsection \<open>The interface\<close>

locale snapshot_store =
  fixes ok :: "'s \<Rightarrow> bool"
    and obs :: "'s \<Rightarrow> 'v"
    and ext :: "'s \<Rightarrow> 's \<Rightarrow> bool"
    and snap :: "'s \<Rightarrow> 's \<times> 'i"
    and rvt :: "'i \<Rightarrow> 's \<Rightarrow> 's outcome"
  assumes ext_refl: "ok s \<Longrightarrow> ext s s"
    and ext_ok: "ext s s' \<Longrightarrow> ok s'"
    and ext_trans: "ok s \<Longrightarrow> ext s s' \<Longrightarrow> ext s' s'' \<Longrightarrow> ext s s''"
    and ext_snap: "ok s \<Longrightarrow> ext s (fst (snap s))"
    and rvt_snap: "ok s \<Longrightarrow> ext (fst (snap s)) s' \<Longrightarrow>
          \<exists>s''. rvt (snd (snap s)) s' = Done s'' \<and> obs s'' = obs s \<and> ext s s''"
begin

lemma protected_commit: "ok s \<Longrightarrow> ext (fst (snap s)) s' \<Longrightarrow> ext s s'"
  using ext_trans ext_snap by blast

lemma protected_rollback:
  assumes "ok s" and "ext (fst (snap s)) s'"
  obtains s'' where "rvt (snd (snap s)) s' = Done s''" "obs s'' = obs s" "ext s s''" "ok s''"
  using rvt_snap [OF assms] ext_ok by blast

lemma ext_snap_ok: "ok s \<Longrightarrow> ok (fst (snap s))"
  using ext_snap ext_ok by blast

lemma ext_chain: "ok s \<Longrightarrow> ext s s' \<Longrightarrow> (ok s' \<Longrightarrow> ext s' s'') \<Longrightarrow> ext s s''"
  using ext_trans ext_ok by blast

end

subsection \<open>Extension of a state\<close>

definition extends :: "StateDB \<Rightarrow> StateDB \<Rightarrow> bool" where
  "extends s s' \<longleftrightarrow>
     wf_db s' \<and> sdb_db s' = sdb_db s \<and> sdb_nextRevisionId s \<le> sdb_nextRevisionId s' \<and>
     (\<exists>rs. sdb_validRevisions s' = sdb_validRevisions s @ rs \<and>
        (\<forall>r \<in> set rs. sdb_nextRevisionId s \<le> rev_id r \<and>
           length (j_entries (sdb_journal s)) \<le> rev_journalIndex r)) \<and>
     (\<exists>es. j_entries (sdb_journal s') = j_entries (sdb_journal s) @ es \<and>
        (\<forall>e \<in> set es. ok_entry (sdb_db s) e) \<and>
        (\<exists>t. revert_entries (rev es) s' = Done t \<and> equiv t s))"

definition observation where
  "observation s =
     (view s, sdb_refund s, sdb_logs s, sdb_logSize s, sdb_preimages s,
      (sdb_thash s, sdb_bhash s, sdb_txIndex s), sdb_db s, sdb_trie s)"

lemma same_obs_iff: "same_obs s t \<longleftrightarrow> observation s = observation t"
  by (auto simp: same_obs_def observation_def)

lemma extends_wf: "extends s s' \<Longrightarrow> wf_db s'"
  by (simp add: extends_def)

lemma extendsI:
  assumes "wf_db s'" "sdb_db s' = sdb_db s" "sdb_nextRevisionId s \<le> sdb_nextRevisionId s'"
    and "sdb_validRevisions s' = sdb_validRevisions s @ rs"
    and "\<And>r. r \<in> set rs \<Longrightarrow> sdb_nextRevisionId s \<le> rev_id r \<and>
           length (j_entries (sdb_journal s)) \<le> rev_journalIndex r"
    and "j_entries (sdb_journal s') = j_entries (sdb_journal s) @ es"
    and "\<And>e. e \<in> set es \<Longrightarrow> ok_entry (sdb_db s) e"
    and "revert_entries (rev es) s' = Done t" "equiv t s"
  shows "extends s s'"
  using assms by (simp add: extends_def)

lemma extendsE:
  assumes "extends s s'"
  obtains rs es t where "wf_db s'" "sdb_db s' = sdb_db s" "sdb_nextRevisionId s \<le> sdb_nextRevisionId s'"
    and "sdb_validRevisions s' = sdb_validRevisions s @ rs"
    and "\<forall>r \<in> set rs. sdb_nextRevisionId s \<le> rev_id r \<and>
           length (j_entries (sdb_journal s)) \<le> rev_journalIndex r"
    and "j_entries (sdb_journal s') = j_entries (sdb_journal s) @ es"
    and "\<forall>e \<in> set es. ok_entry (sdb_db s) e"
    and "revert_entries (rev es) s' = Done t" "equiv t s"
  using assms unfolding extends_def by blast

lemma extends_refl: "wf_db s \<Longrightarrow> extends s s"
  by (auto simp: extends_def wf_db_def intro: equiv_refl exI [of _ "[]"])

lemma undoable_extends:
  assumes wf: "wf_db s" and u: "undoable s s'" and l: "logs_ok s'"
  shows "extends s s'"
proof -
  have "revs_ok s'"
    using wf u by (force simp: wf_db_def revs_ok_def undoable_def)
  then show ?thesis
    using assms by (fastforce simp: extends_def undoable_def wf_db_def equiv_def)
qed

lemma extends_trans [trans]:
  assumes wf: "wf_db s" and 1: "extends s s'" and 2: "extends s' s''"
  shows "extends s s''"
proof -
  from 1 obtain rs es t where e: "wf_db s'" "sdb_db s' = sdb_db s" "sdb_nextRevisionId s \<le> sdb_nextRevisionId s'"
      "sdb_validRevisions s' = sdb_validRevisions s @ rs"
      "\<forall>r \<in> set rs. sdb_nextRevisionId s \<le> rev_id r \<and> length (j_entries (sdb_journal s)) \<le> rev_journalIndex r"
      "j_entries (sdb_journal s') = j_entries (sdb_journal s) @ es"
      "\<forall>e \<in> set es. ok_entry (sdb_db s) e" "revert_entries (rev es) s' = Done t" "equiv t s"
    by (rule extendsE)
  from 2 obtain rs' es' t' where e': "wf_db s''" "sdb_db s'' = sdb_db s'" "sdb_nextRevisionId s' \<le> sdb_nextRevisionId s''"
      "sdb_validRevisions s'' = sdb_validRevisions s' @ rs'"
      "\<forall>r \<in> set rs'. sdb_nextRevisionId s' \<le> rev_id r \<and> length (j_entries (sdb_journal s')) \<le> rev_journalIndex r"
      "j_entries (sdb_journal s'') = j_entries (sdb_journal s') @ es'"
      "\<forall>e \<in> set es'. ok_entry (sdb_db s') e" "revert_entries (rev es') s'' = Done t'" "equiv t' s'"
    by (rule extendsE)
  obtain u where u: "revert_entries (rev es) t' = Done u" "equiv t u"
    using revert_entries_cong [OF equiv_sym [OF e'(9)], of "rev es" t] e(2,7,8) by auto
  show ?thesis
  proof (rule extendsI [where rs = "rs @ rs'" and es = "es @ es'" and t = u])
    show "equiv u s" using e(9) u(2) equiv_sym equiv_trans by blast
    show "revert_entries (rev (es @ es')) s'' = Done u"
      using u(1) e'(8) by (simp add: revert_entries_append)
    show "sdb_nextRevisionId s \<le> rev_id r \<and> length (j_entries (sdb_journal s)) \<le> rev_journalIndex r"
      if "r \<in> set (rs @ rs')" for r
      using that e(3,5,6) e'(5) by fastforce
  qed (use e(2-7) e'(1-7) in auto)
qed

subsection \<open>Snapshots and reverts\<close>

lemma extends_Snapshot:
  assumes "wf_db s"
  shows "extends s (fst (Snapshot s))"
proof -
  let ?s = "fst (Snapshot s)"
  have "revs_ok ?s"
    using assms by (force simp: wf_db_def revs_ok_def Snapshot_def Let_def sorted_wrt_append rev_less_def journal_length_def)
  moreover have "equiv ?s s"
    using assms wf_state_frame [of ?s s]
    by (intro equiv_frame) (simp_all add: Snapshot_def Let_def same_rest_def wf_db_def)
  ultimately have "wf_db ?s"
    using assms by (simp add: wf_db_def equiv_def logs_ok_def same_obs_def)
  then show ?thesis
    using \<open>equiv ?s s\<close> by (simp add: extends_def Snapshot_def Let_def journal_length_def)
qed

lemma RevertToSnapshot_core:
  assumes wf: "wf_db s" and revs: "sdb_validRevisions s = xs @ r # ys"
    and es: "j_entries (sdb_journal s) = es @ es'" "length es = rev_journalIndex r"
    and t: "revert_entries (rev es') s = Done t" "wf_state t" "logs_ok t"
  obtains s' where "RevertToSnapshot (rev_id r) s = Done s'" "equiv s' t" "wf_db s'"
    "j_entries (sdb_journal s') = es" "sdb_validRevisions s' = xs"
    "sdb_nextRevisionId s' = sdb_nextRevisionId s" "sdb_db s' = sdb_db s"
proof
  let ?s = "t\<lparr>sdb_journal := (sdb_journal t)\<lparr>j_entries := es\<rparr>, sdb_validRevisions := xs\<rparr>"
  show "RevertToSnapshot (rev_id r) s = Done ?s"
    using RevertToSnapshot_valid [of s xs r ys t] wf revs es t by (simp add: wf_db_def)
  show eq: "equiv ?s t"
    using t(2) wf_state_frame [of ?s t] by (intro equiv_frame) (simp_all add: same_rest_def)
  have "revs_ok ?s"
    using wf revs es(2) revert_entries_frame [OF t(1)]
    by (fastforce simp: wf_db_def revs_ok_def sorted_wrt_append rev_less_def)
  then show "wf_db ?s"
    using eq t(3) by (simp add: wf_db_def equiv_def logs_ok_def)
qed (use revert_entries_frame [OF t(1)] in simp_all)

lemma logs_ok_revert_entry: "revert_entry e s = Done s' \<Longrightarrow> logs_ok s \<Longrightarrow> logs_ok s'"
proof (cases "writes_back e")
  case (Some a)
  assume "revert_entry e s = Done s'" "logs_ok s"
  then show ?thesis
    using Some getStateObject_frame(4) [of a s]
    by (auto simp: revert_entry_write_back logs_ok_def split: prod.splits option.splits journalEntry.splits
        simp del: getStateObject_frame)
next
  case None
  assume 1: "revert_entry e s = Done s'" and 2: "logs_ok s"
  show ?thesis
  proof (cases e)
    case (addLogChange h)
    have "butlast l \<noteq> []" if "length l \<noteq> Suc 0" "l \<noteq> []" for l :: "Log list"
      using that by (cases l rule: rev_cases) (auto simp: neq_Nil_conv)
    then show ?thesis
      using 1 2 addLogChange by (auto simp: logs_ok_def Let_def split: if_splits)
  qed (use 1 2 None in \<open>auto simp: logs_ok_def\<close>)
qed

lemma logs_ok_revert_entries: "revert_entries es s = Done s' \<Longrightarrow> logs_ok s \<Longrightarrow> logs_ok s'"
proof (induction es arbitrary: s)
  case (Cons e es)
  then obtain s1 where 1: "revert_entry e s = Done s1" "revert_entries es (undirty e s1) = Done s'"
    by auto
  have "logs_ok (undirty e s1)"
    using logs_ok_revert_entry [OF 1(1) Cons.prems(2)] by (simp add: logs_ok_def undirty_def split: option.splits)
  then show ?case using Cons.IH 1(2) by blast
qed simp

lemma extends_Revert:
  assumes wf: "wf_db s" and ext: "extends s s'" and r: "r \<in> set (sdb_validRevisions s')"
    and new: "sdb_nextRevisionId s \<le> rev_id r"
  shows "\<exists>s''. RevertToSnapshot (rev_id r) s' = Done s'' \<and> extends s s''"
proof -
  from ext obtain rs es t where e: "wf_db s'" "sdb_db s' = sdb_db s" "sdb_nextRevisionId s \<le> sdb_nextRevisionId s'"
      "sdb_validRevisions s' = sdb_validRevisions s @ rs"
      "\<forall>r \<in> set rs. sdb_nextRevisionId s \<le> rev_id r \<and> length (j_entries (sdb_journal s)) \<le> rev_journalIndex r"
      "j_entries (sdb_journal s') = j_entries (sdb_journal s) @ es"
      "\<forall>e \<in> set es. ok_entry (sdb_db s) e" "revert_entries (rev es) s' = Done t" "equiv t s"
    by (rule extendsE)
  have "r \<in> set rs" using r new wf e(4) by (fastforce simp: wf_db_def revs_ok_def)
  then obtain xs ys where rs: "rs = xs @ r # ys" by (meson split_list)
  let ?E = "j_entries (sdb_journal s)"
  define n where "n = rev_journalIndex r - length ?E"
  have n: "rev_journalIndex r = length ?E + n" using e(5) \<open>r \<in> set rs\<close> by (simp add: n_def)
  have "rev_journalIndex r \<le> length (?E @ es)"
    using e(1,6) r by (auto simp: wf_db_def revs_ok_def)
  then have len: "length (?E @ take n es) = rev_journalIndex r" using n by simp
  have "rev es = rev (drop n es) @ rev (take n es)" by (metis append_take_drop_id rev_append)
  with e(8) obtain t1 where t1: "revert_entries (rev (drop n es)) s' = Done t1"
      "revert_entries (rev (take n es)) t1 = Done t"
    by (auto simp: revert_entries_append)
  have "\<forall>x \<in> set (rev (drop n es)). ok_entry (sdb_db s') x" using e(2,7) by (auto dest: in_set_dropD)
  then have wf1: "wf_state t1"
    using revert_entries_cong [OF equiv_refl _ t1(1)] e(1) by (auto simp: wf_db_def equiv_def)
  obtain s'' where s'': "RevertToSnapshot (rev_id r) s' = Done s''" "equiv s'' t1" "wf_db s''"
      "j_entries (sdb_journal s'') = ?E @ take n es" "sdb_validRevisions s'' = sdb_validRevisions s @ xs"
      "sdb_nextRevisionId s'' = sdb_nextRevisionId s'" "sdb_db s'' = sdb_db s'"
  proof (rule RevertToSnapshot_core [OF e(1) _ _ len t1(1) wf1])
    show "logs_ok t1" using logs_ok_revert_entries [OF t1(1)] e(1) by (simp add: wf_db_def)
  qed (use rs e in auto)
  have "\<forall>x \<in> set (rev (take n es)). ok_entry (sdb_db t1) x"
    using e(2,7) revert_entries_frame [OF t1(1)] by (auto dest: in_set_takeD)
  from revert_entries_cong [OF equiv_sym [OF s''(2)] this t1(2)]
  obtain u where u: "revert_entries (rev (take n es)) s'' = Done u" "equiv t u" by blast
  have "extends s s''"
  proof (rule extendsI [where rs = xs and es = "take n es" and t = u])
    show "equiv u s" using u(2) e(9) equiv_sym equiv_trans by blast
  qed (use s'' e u rs in \<open>auto dest: in_set_takeD\<close>)
  with s''(1) show ?thesis by blast
qed

lemma Snapshot_equiv: "wf_db s \<Longrightarrow> equiv (fst (Snapshot s)) s"
  using wf_state_frame [of "fst (Snapshot s)" s]
  by (intro equiv_frame) (simp_all add: Snapshot_def Let_def same_rest_def wf_db_def)

lemma revert_Snapshot:
  assumes wf: "wf_db s" and ext: "extends (fst (Snapshot s)) s'"
  shows "\<exists>s''. RevertToSnapshot (snd (Snapshot s)) s' = Done s'' \<and> observation s'' = observation s \<and>
           j_entries (sdb_journal s'') = j_entries (sdb_journal s) \<and>
           sdb_validRevisions s'' = sdb_validRevisions s \<and> extends s s''"
proof -
  let ?s = "fst (Snapshot s)"
  let ?r = "\<lparr>rev_id = sdb_nextRevisionId s, rev_journalIndex = length (j_entries (sdb_journal s))\<rparr>"
  from ext obtain rs es t where e: "wf_db s'" "sdb_db s' = sdb_db ?s" "sdb_nextRevisionId ?s \<le> sdb_nextRevisionId s'"
      "sdb_validRevisions s' = sdb_validRevisions ?s @ rs"
      "\<forall>r \<in> set rs. sdb_nextRevisionId ?s \<le> rev_id r \<and> length (j_entries (sdb_journal ?s)) \<le> rev_journalIndex r"
      "j_entries (sdb_journal s') = j_entries (sdb_journal ?s) @ es"
      "\<forall>e \<in> set es. ok_entry (sdb_db ?s) e" "revert_entries (rev es) s' = Done t" "equiv t ?s"
    by (rule extendsE)
  have snap: "sdb_validRevisions ?s = sdb_validRevisions s @ [?r]" "sdb_journal ?s = sdb_journal s"
      "sdb_nextRevisionId ?s = sdb_nextRevisionId s + 1" "snd (Snapshot s) = sdb_nextRevisionId s"
      "sdb_db ?s = sdb_db s"
    by (simp_all add: Snapshot_def Let_def journal_length_def)
  have eq: "equiv t s" using e(9) Snapshot_equiv [OF wf] equiv_trans by blast
  then have t: "wf_state t" "logs_ok t"
    using wf by (simp_all add: equiv_def same_obs_def wf_db_def logs_ok_def)
  obtain s'' where s'': "RevertToSnapshot (rev_id ?r) s' = Done s''" "equiv s'' t" "wf_db s''"
      "j_entries (sdb_journal s'') = j_entries (sdb_journal s)" "sdb_validRevisions s'' = sdb_validRevisions s"
      "sdb_nextRevisionId s'' = sdb_nextRevisionId s'" "sdb_db s'' = sdb_db s'"
    by (rule RevertToSnapshot_core [OF e(1) _ _ _ e(8) t]) (use e(4,6) snap in auto)
  have "equiv s'' s" using s''(2) eq equiv_trans by blast
  moreover have "extends s s''"
    by (rule extendsI [where rs = "[]" and es = "[]" and t = s'']) (use s'' e snap \<open>equiv s'' s\<close> in auto)
  ultimately show ?thesis
    using s'' snap by (auto simp: equiv_def same_obs_iff)
qed

interpretation state_store: snapshot_store wf_db observation extends Snapshot RevertToSnapshot
  using extends_refl extends_wf extends_trans extends_Snapshot revert_Snapshot
  by unfold_locales blast+

subsection \<open>Sequences of operations\<close>

datatype state_op =
    OpCreateAccount Address | OpAddBalance Address int | OpSubBalance Address int
  | OpSetBalance Address int | OpSetNonce Address uint64 | OpSetCode Address "bytes option"
  | OpSetState Address Hash Hash | OpSuicide Address | OpAddLog Log | OpAddPreimage Hash bytes
  | OpAddRefund uint64 | OpLookup Address | OpGetCode Address | OpGetCodeSize Address
  | OpGetState Address Hash | OpSnapshot | OpRevert int

fun exec_op :: "state_op \<Rightarrow> StateDB \<Rightarrow> StateDB outcome" where
  "exec_op (OpCreateAccount a) s = Done (CreateAccount a s)"
| "exec_op (OpAddBalance a n) s = Done (AddBalance a n s)"
| "exec_op (OpSubBalance a n) s = Done (SubBalance a n s)"
| "exec_op (OpSetBalance a n) s = Done (SetBalance a n s)"
| "exec_op (OpSetNonce a n) s = Done (SetNonce a n s)"
| "exec_op (OpSetCode a c) s = Done (SetCode a c s)"
| "exec_op (OpSetState a k v) s = Done (SetState a k v s)"
| "exec_op (OpSuicide a) s = Done (fst (Suicide a s))"
| "exec_op (OpAddLog l) s = Done (AddLog l s)"
| "exec_op (OpAddPreimage h p) s = Done (AddPreimage h p s)"
| "exec_op (OpAddRefund g) s = Done (AddRefund g s)"
| "exec_op (OpLookup a) s = Done (fst (getStateObject a s))"
| "exec_op (OpGetCode a) s = Done (fst (GetCode a s))"
| "exec_op (OpGetCodeSize a) s = Done (fst (GetCodeSize a s))"
| "exec_op (OpGetState a k) s = Done (fst (GetState a k s))"
| "exec_op OpSnapshot s = Done (fst (Snapshot s))"
| "exec_op (OpRevert revid) s = RevertToSnapshot revid s"

fun exec_ops :: "state_op list \<Rightarrow> StateDB \<Rightarrow> StateDB outcome" where
  "exec_ops [] s = Done s"
| "exec_ops (op # ops) s = obind (exec_op op s) (exec_ops ops)"

lemma GetOrNew_logs [simp]: "sdb_logs (fst (GetOrNewStateObject a s)) = sdb_logs s"
  by (auto simp: GetOrNew_cases createObject_def Let_def case_prod_beta split: option.splits)

lemma op_logs [simp]:
  "sdb_logs (CreateAccount a s) = sdb_logs s"
  "sdb_logs (AddBalance a n s) = sdb_logs s" "sdb_logs (SubBalance a n s) = sdb_logs s"
  "sdb_logs (SetBalance a n s) = sdb_logs s" "sdb_logs (SetNonce a m s) = sdb_logs s"
  "sdb_logs (SetCode a c s) = sdb_logs s" "sdb_logs (SetState a k v s) = sdb_logs s"
  by (auto simp: CreateAccount_def createObject_def AddBalance_def SubBalance_def SetBalance_def SetBalance_so_def
      touch_def SetNonce_def SetCode_def SetState_def Let_def case_prod_beta split: option.splits)

lemma op_logs' [simp]:
  "sdb_logs (fst (Suicide a s)) = sdb_logs s" "sdb_logs (fst (GetCode a s)) = sdb_logs s"
  "sdb_logs (fst (GetCodeSize a s)) = sdb_logs s" "sdb_logs (fst (GetState a k s)) = sdb_logs s"
  "sdb_logs (AddRefund g s) = sdb_logs s" "sdb_logs (AddPreimage h p s) = sdb_logs s"
  using getStateObject_frame(4) [of a s]
  by (auto simp: Suicide_def GetCode_def GetCodeSize_def GetState_def AddRefund_def AddPreimage_def Let_def
      case_prod_beta split: prod.splits option.splits sum.splits simp del: getStateObject_frame(4))

lemma logs_ok_AddLog: "logs_ok s \<Longrightarrow> logs_ok (AddLog l s)"
  by (auto simp: logs_ok_def AddLog_def Let_def)

lemma extends_op:
  assumes wf: "wf_db s" and "exec_op op s = Done s'" and "\<forall>i. op \<noteq> OpRevert i"
  shows "extends s s'"
proof (cases "op = OpSnapshot")
  case True
  then show ?thesis using assms extends_Snapshot [OF wf] by simp
next
  case False
  have "undoable s s' \<and> logs_ok s'"
    using assms False logs_ok_AddLog [of s]
    by (cases op) (auto simp: wf_db_def journal_intros, auto simp: logs_ok_def)
  then show ?thesis using undoable_extends wf by blast
qed

fun reverts_since :: "int \<Rightarrow> state_op \<Rightarrow> bool" where
  \<comment> \<open>the operation reverts at most to revisions numbered \<open>revid\<close> or later\<close>
  "reverts_since revid (OpRevert i) \<longleftrightarrow> revid \<le> i"
| "reverts_since revid _ \<longleftrightarrow> True"

lemma extends_exec_op:
  assumes wf: "wf_db s" and ext: "extends s s'" and op: "exec_op op s' = Done s''"
    and since: "reverts_since (sdb_nextRevisionId s) op"
  shows "extends s s''"
proof (cases "\<exists>i. op = OpRevert i")
  case True
  then obtain i where i: "op = OpRevert i" by blast
  have "i \<in> rev_id ` set (sdb_validRevisions s')"
    using op i RevertToSnapshot_invalid [of s' i] extends_wf [OF ext] by (auto simp: wf_db_def)
  then show ?thesis using extends_Revert [OF wf ext] op i since by fastforce
next
  case False
  then show ?thesis using extends_trans [OF wf ext] extends_op [OF extends_wf [OF ext] op] by blast
qed

lemma extends_exec_ops:
  assumes "wf_db s" "extends s s'" "exec_ops ops s' = Done s''"
    and "\<forall>op \<in> set ops. reverts_since (sdb_nextRevisionId s) op"
  shows "extends s s''"
  using assms(2-)
proof (induction ops arbitrary: s')
  case (Cons op ops)
  then obtain s1 where "exec_op op s' = Done s1" "exec_ops ops s1 = Done s''" by auto
  then show ?case using Cons extends_exec_op [OF assms(1) Cons.prems(1)] by auto
qed simp

lemma exec_op_outcome:
  assumes wf: "wf_db s" and ext: "extends s s'" and revs: "sdb_validRevisions s = []"
  shows "exec_op op s' = Panic \<and> (\<exists>i. op = OpRevert i \<and> i \<notin> rev_id ` set (sdb_validRevisions s')) \<or>
         (\<exists>s''. exec_op op s' = Done s'')"
proof (cases "\<exists>i. op = OpRevert i")
  case True
  then obtain i where i: "op = OpRevert i" by blast
  show ?thesis
  proof (cases "i \<in> rev_id ` set (sdb_validRevisions s')")
    case True
    then obtain r where "r \<in> set (sdb_validRevisions s')" "i = rev_id r" by blast
    moreover have "sdb_nextRevisionId s \<le> rev_id r"
      using ext revs calculation(1) by (auto elim!: extendsE)
    ultimately show ?thesis using extends_Revert [OF wf ext] i by auto
  next
    case False
    then show ?thesis
      using i RevertToSnapshot_invalid [of s' i] extends_wf [OF ext] by (auto simp: wf_db_def)
  qed
qed (cases op; simp)

subsection \<open>States a database can reach\<close>

inductive reachable :: "StateDB \<Rightarrow> bool" where
  reach_New: "New root db = Inr s \<Longrightarrow> reachable s"
| reach_Reset: "reachable s \<Longrightarrow> Reset root s = Inr s' \<Longrightarrow> reachable s'"
| reach_op: "reachable s \<Longrightarrow> exec_op op s = Done s' \<Longrightarrow> reachable s'"
| reach_Prepare: "reachable s \<Longrightarrow> sdb_validRevisions s = [] \<Longrightarrow> j_entries (sdb_journal s) = [] \<Longrightarrow>
    reachable (Prepare thash bhash ti s)"

lemma wf_db_fresh:
  "sdb_stateObjects s = Map.empty \<Longrightarrow> sdb_logs s = Map.empty \<Longrightarrow> sdb_validRevisions s = [] \<Longrightarrow> wf_db s"
  by (simp add: wf_db_def wf_state_def logs_ok_def revs_ok_def)

lemma reachable_extends:
  "reachable s \<Longrightarrow> \<exists>s0. wf_db s0 \<and> sdb_validRevisions s0 = [] \<and> j_entries (sdb_journal s0) = [] \<and> extends s0 s"
proof (induction rule: reachable.induct)
  case (reach_New root db s)
  then have "wf_db s" "sdb_validRevisions s = []" "j_entries (sdb_journal s) = []"
    by (auto simp: New_def newJournal_def split: sum.splits intro!: wf_db_fresh)
  then show ?case using extends_refl by blast
next
  case (reach_Reset s root s')
  then have "wf_db s'" "sdb_validRevisions s' = []" "j_entries (sdb_journal s') = []"
    by (auto simp: Reset_def clearJournalAndRefund_def newJournal_def split: sum.splits intro!: wf_db_fresh)
  then show ?case using extends_refl by blast
next
  case (reach_op s op s')
  then obtain s0 where s0: "wf_db s0" "sdb_validRevisions s0 = []" "j_entries (sdb_journal s0) = []" "extends s0 s"
    by blast
  have "reverts_since (sdb_nextRevisionId s0) op"
  proof (cases op)
    case (OpRevert i)
    then have "i \<in> rev_id ` set (sdb_validRevisions s)"
      using reach_op(2) RevertToSnapshot_invalid [of s i] extends_wf [OF s0(4)] by (auto simp: wf_db_def)
    then show ?thesis using OpRevert s0(2,4) by (auto elim!: extendsE)
  qed simp_all
  then show ?case using s0 extends_exec_op [OF s0(1,4) reach_op(2)] by blast
next
  case (reach_Prepare s thash bhash ti)
  then have "wf_db s" using extends_wf by blast
  then have "wf_db (Prepare thash bhash ti s)"
    by (simp add: wf_db_def Prepare_def wf_state_def logs_ok_def revs_ok_def)
  then show ?case using reach_Prepare extends_refl by (intro exI [of _ "Prepare thash bhash ti s"]) (simp add: Prepare_def)
qed

subsection \<open>Main properties of the state database\<close>

definition sampleDatabase :: Database where
  \<comment> \<open>an empty database: every trie is empty and no code is stored\<close>
  "sampleDatabase =
     \<lparr>db_Keccak256 = (\<lambda>bs. of_nat (Suc (length bs))), db_OpenTrie = (\<lambda>_. Inr emptyTrie),
      db_OpenStorageTrie = (\<lambda>_ _. Inr emptyTrie), db_ContractCode = (\<lambda>_ h. Inl (CodeNotFound h)),
      db_StorageRoot = (\<lambda>_. 0), db_StateRoot = (\<lambda>_. 0)\<rparr>"

definition sampleState :: StateDB where
  "sampleState =
     \<lparr>sdb_db = sampleDatabase, sdb_trie = emptyTrie, sdb_stateObjects = Map.empty,
      sdb_stateObjectsDirty = {}, sdb_dbErr = None, sdb_refund = 0, sdb_thash = 0, sdb_bhash = 0,
      sdb_txIndex = 0, sdb_logs = Map.empty, sdb_logSize = 0, sdb_preimages = Map.empty,
      sdb_journal = newJournal, sdb_validRevisions = [], sdb_nextRevisionId = 0\<rparr>"

lemma sampleState_New: "New 0 sampleDatabase = Inr sampleState"
  by (simp add: New_def sampleState_def sampleDatabase_def)

lemma sampleState_reachable: "reachable sampleState"
  using sampleState_New by (rule reach_New)

lemma sampleState_wf: "wf_db sampleState"
  by (rule wf_db_fresh) (simp_all add: sampleState_def)


definition sample_ops :: "state_op list" where
  "sample_ops = [OpAddBalance 1 5, OpSnapshot, OpSetState 1 2 3, OpRevert 1, OpAddRefund 7, OpSuicide 1]"

lemma sample_ops_run:
  "case exec_ops sample_ops (fst (Snapshot sampleState)) of
     Done s \<Rightarrow> snd (HasSuicided 1 s) \<and> sdb_refund s = 7 | _ \<Rightarrow> False"
  by code_simp




end
