(* ===== verification/State_Views.thy ===== *)
theory State_Views
  imports State_Interface
begin

text \<open>
  The state database refines a map from addresses to accounts: each operation changes the view
  of \<open>State_Revert\<close> as the abstract operation does. On top of it, the ledger interface (balances
  that are credited and debited) used by \<open>Transfer\<close> of \<open>src/core/evm.go\<close>.
\<close>

subsection \<open>Abstract accounts\<close>

definition fresh_view :: "Database \<Rightarrow> Address \<Rightarrow> account_view" where
  "fresh_view db a = obj_view db (newObject db a (zeroAccount db))"

definition acct :: "StateDB \<Rightarrow> Address \<Rightarrow> account_view" where
  "acct s a = (case view s a of Some v \<Rightarrow> v | None \<Rightarrow> fresh_view (sdb_db s) a)"

lemma fresh_view_simps [simp]:
  "v_nonce (fresh_view db a) = 0" "v_balance (fresh_view db a) = 0"
  "v_codeHash (fresh_view db a) = emptyCodeHash db" "v_code (fresh_view db a) = None"
  "\<not> v_suicided (fresh_view db a)"
  by (simp_all add: fresh_view_def obj_view_def zeroAccount_def newObject_def Code_obj_def)

lemma fresh_view_balance [simp]: "(fresh_view db a)\<lparr>v_balance := 0\<rparr> = fresh_view db a"
  by (rule account_view.equality) simp_all

lemma obj_view_sel [simp]:
  "v_nonce (obj_view db so) = acc_Nonce (so_data so)"
  "v_balance (obj_view db so) = acc_Balance (so_data so)"
  "v_codeHash (obj_view db so) = acc_CodeHash (so_data so)"
  "v_code (obj_view db so) = snd (Code_obj db so)"
  "v_storage (obj_view db so) k = snd (GetState_obj db so k)"
  "v_suicided (obj_view db so) = so_suicided so"
  by (simp_all add: obj_view_def)

lemma setNonce_zero [simp]: "setNonce_obj 0 (newObject db a (zeroAccount db)) = newObject db a (zeroAccount db)"
  by (simp add: setNonce_obj_def newObject_def zeroAccount_def)

lemma view_setStateObject:
  "\<not> so_deleted p \<Longrightarrow> view (setStateObject p s) = (view s)(so_address p \<mapsto> obj_view (sdb_db s) p)"
  by (auto simp: view_alt fun_eq_iff)

lemma view_appendEntry [simp]: "view (appendEntry e s) = view s"
  by (rule view_frame) simp_all

lemma view_createObject:
  "view (fst (createObject a s)) = (view s)(a \<mapsto> fresh_view (sdb_db s) a)"
  by (simp add: createObject_def Let_def case_prod_beta view_setStateObject fresh_view_def
      split: option.splits)

lemma view_GetOrNew:
  "view (fst (GetOrNewStateObject a s)) = (view s)(a \<mapsto> acct s a)"
  "obj_view (sdb_db s) (snd (GetOrNewStateObject a s)) = acct s a"
proof -
  show "view (fst (GetOrNewStateObject a s)) = (view s)(a \<mapsto> acct s a)"
    using view_lookup(1) [of s a] view_lookup(2) [of a s]
    by (auto simp: GetOrNew_cases acct_def view_createObject split: option.splits)
  show "obj_view (sdb_db s) (snd (GetOrNewStateObject a s)) = acct s a"
    using view_lookup(1) [of s a] view_lookup(2) [of a s]
    by (auto simp: GetOrNew_cases acct_def createObject_obj fresh_view_def split: option.splits)
qed

lemma GetOrNew_data:
  "acc_Balance (so_data (snd (GetOrNewStateObject a s))) = v_balance (acct s a)"
  "acc_Nonce (so_data (snd (GetOrNewStateObject a s))) = v_nonce (acct s a)"
  by (simp_all flip: view_GetOrNew(2))

lemma view_GetOrNew_upd:
  assumes wf: "wf_state s" and f: "\<not> so_deleted (f (snd (GetOrNewStateObject a s)))"
  shows "view (updObj a f (appendEntry e (fst (GetOrNewStateObject a s)))) =
           (view s)(a \<mapsto> obj_view (sdb_db s) (f (snd (GetOrNewStateObject a s))))"
  using f GetOrNew_obj(1) [OF wf, of a]
  by (subst view_updObj [where so = "snd (GetOrNewStateObject a s)"]) (simp_all add: view_GetOrNew)

subsection \<open>Each operation on the abstract accounts\<close>

lemma view_SetBalance [simp]:
  "wf_state s \<Longrightarrow> view (SetBalance a n s) = (view s)(a \<mapsto> (acct s a)\<lparr>v_balance := n\<rparr>)"
  using GetOrNew_obj [of s a]
  by (simp add: SetBalance_def SetBalance_so_def case_prod_beta view_GetOrNew_upd view_GetOrNew(2))

lemma view_AddBalance:
  assumes "wf_state s"
  shows "view (AddBalance a n s) = (view s)(a \<mapsto> (acct s a)\<lparr>v_balance := v_balance (acct s a) + n\<rparr>)"
proof -
  have t: "view (touch so s') = view s'" for so s'
    by (rule view_frame) (simp_all add: touch_def Let_def)
  show ?thesis
    using assms GetOrNew_obj [of s a]
    by (auto simp: AddBalance_def SetBalance_so_def Let_def case_prod_beta view_GetOrNew_upd view_GetOrNew
        GetOrNew_data t)
qed

lemma view_SubBalance:
  "wf_state s \<Longrightarrow>
   view (SubBalance a n s) = (view s)(a \<mapsto> (acct s a)\<lparr>v_balance := v_balance (acct s a) - n\<rparr>)"
  using GetOrNew_obj [of s a]
  by (auto simp: SubBalance_def SetBalance_so_def Let_def case_prod_beta view_GetOrNew_upd view_GetOrNew
        GetOrNew_data)

lemma view_SetNonce [simp]:
  "wf_state s \<Longrightarrow> view (SetNonce a n s) = (view s)(a \<mapsto> (acct s a)\<lparr>v_nonce := n\<rparr>)"
  using GetOrNew_obj [of s a]
  by (simp add: SetNonce_def case_prod_beta view_GetOrNew_upd view_GetOrNew(2))

lemma updObj_updObj: "updObj a f (appendEntry e (updObj a (\<lambda>_. so) s)) = updObj a (\<lambda>_. f so) (appendEntry e s)"
  by (simp add: updObj_def appendEntry_def option.map_comp comp_def)

lemma view_SetState [simp]:
  assumes wf: "wf_state s"
  shows "view (SetState a k v s) = (view s)(a \<mapsto> (acct s a)\<lparr>v_storage := (v_storage (acct s a))(k := v)\<rparr>)"
  using GetOrNew_obj [OF wf, of a]
  by (simp add: SetState_def Let_def case_prod_beta updObj_updObj view_GetOrNew_upd wf view_GetOrNew(2))

lemma view_SetCode [simp]:
  assumes wf: "wf_state s"
  shows "view (SetCode a c s) =
    (let h = db_Keccak256 (sdb_db s) (case c of None \<Rightarrow> [] | Some b \<Rightarrow> b)
     in (view s)(a \<mapsto> (acct s a)\<lparr>v_codeHash := h, v_code := code_of (sdb_db s) a c h\<rparr>))"
proof -
  have "ok_obj (sdb_db s) (fst (Code_obj (sdb_db s) (snd (GetOrNewStateObject a s))))"
    using GetOrNew_obj(4) [OF wf, of a] by (simp add: ok_obj_def)
  then show ?thesis
    using GetOrNew_obj [OF wf, of a]
    by (simp add: SetCode_def Let_def case_prod_beta updObj_updObj view_GetOrNew_upd wf
        obj_view_setCode view_GetOrNew(2))
qed

lemma code_of_nonempty: "code_of db a (Some b) h = Some b"
  "code_of db a None (db_Keccak256 db []) = None"
  by (simp_all add: code_of_def emptyCodeHash_def)

lemma view_CreateAccount [simp]:
  "view (CreateAccount a s) =
     (view s)(a \<mapsto> (fresh_view (sdb_db s) a)
        \<lparr>v_balance := (case view s a of Some v \<Rightarrow> v_balance v | None \<Rightarrow> 0)\<rparr>)"
proof (cases "snd (getStateObject a s)")
  case None
  then show ?thesis
    using view_lookup(1) [of s a]
    by (simp add: CreateAccount_def Let_def case_prod_beta createObject_obj view_createObject)
next
  case (Some p)
  then have "view s a = Some (obj_view (sdb_db s) p)" by (rule view_lookup(2))
  moreover have "sdb_db (fst (createObject a s)) = sdb_db s"
    by (simp add: createObject_def Let_def case_prod_beta split: option.splits)
  ultimately show ?thesis
    using Some createObject_obj(3) [of a s]
    by (simp add: CreateAccount_def Let_def case_prod_beta createObject_obj(1) view_updObj view_createObject
        fresh_view_def)
qed

lemma view_Suicide [simp]:
  "view (fst (Suicide a s)) =
     (case view s a of None \<Rightarrow> view s | Some v \<Rightarrow> (view s)(a \<mapsto> v\<lparr>v_suicided := True, v_balance := 0\<rparr>))"
proof (cases "snd (getStateObject a s)")
  case None
  then show ?thesis
    using view_lookup(1) [of s a] view_getStateObject [of a s]
    by (auto simp: Suicide_def split: prod.splits simp del: view_getStateObject)
next
  case (Some p)
  then show ?thesis
    using view_lookup(2) [OF Some] getStateObject_live [OF Some]
    by (subst Suicide_def)
      (simp add: case_prod_beta prod.case_eq_if view_updObj getStateObject_objects markSuicided_def)
qed

lemma view_silent [simp]:
  "view (AddLog l s) = view s" "view (AddPreimage h p s) = view s" "view (AddRefund g s) = view s"
  "view (Prepare th bh ti s) = view s" "view (setError e s) = view s" "view (fst (Snapshot s)) = view s"
  by (auto intro!: view_frame simp: AddLog_def AddPreimage_def AddRefund_def Prepare_def Snapshot_def Let_def
      split: option.splits)

subsection \<open>Readers\<close>

lemma reader_values:
  "snd (GetBalance a s) = (case view s a of None \<Rightarrow> 0 | Some v \<Rightarrow> v_balance v)"
  "snd (GetNonce a s) = (case view s a of None \<Rightarrow> 0 | Some v \<Rightarrow> v_nonce v)"
  "snd (GetCodeHash a s) = (case view s a of None \<Rightarrow> 0 | Some v \<Rightarrow> v_codeHash v)"
  "snd (HasSuicided a s) \<longleftrightarrow> (case view s a of None \<Rightarrow> False | Some v \<Rightarrow> v_suicided v)"
  "snd (Exist a s) \<longleftrightarrow> view s a \<noteq> None"
  "snd (Empty a s) \<longleftrightarrow> (case view s a of None \<Rightarrow> True
      | Some v \<Rightarrow> v_nonce v = 0 \<and> v_balance v = 0 \<and> v_codeHash v = emptyCodeHash (sdb_db s))"
  using view_lookup(1) [of s a] view_lookup(2) [of a s]
  by (auto simp: GetBalance_def GetNonce_def GetCodeHash_def HasSuicided_def Exist_def Empty_def empty_obj_def
      Let_def case_prod_beta split: option.splits)

lemma GetCode_value: "snd (GetCode a s) = (case view s a of None \<Rightarrow> None | Some v \<Rightarrow> v_code v)"
  using view_lookup(1) [of s a] view_lookup(2) [of a s] getStateObject_frame(1) [of a s]
  by (cases "getStateObject a s") (auto simp: GetCode_def Let_def case_prod_beta split: option.splits
      simp del: getStateObject_frame)

lemma GetState_value: "snd (GetState a k s) = (case view s a of None \<Rightarrow> 0 | Some v \<Rightarrow> v_storage v k)"
  using view_lookup(1) [of s a] view_lookup(2) [of a s] getStateObject_frame(1) [of a s]
  by (cases "getStateObject a s") (auto simp: GetState_def Let_def case_prod_beta split: option.splits
      simp del: getStateObject_frame)

subsection \<open>Transfers\<close>

definition CanTransfer :: "StateDB \<Rightarrow> Address \<Rightarrow> int \<Rightarrow> StateDB \<times> bool" where
  "CanTransfer s addr amount = (let (s1, b) = GetBalance addr s in (s1, b \<ge> amount))"

definition Transfer :: "Address \<Rightarrow> Address \<Rightarrow> int \<Rightarrow> StateDB \<Rightarrow> StateDB" where
  "Transfer sender recipient amount s = AddBalance recipient amount (SubBalance sender amount s)"

definition balance :: "StateDB \<Rightarrow> Address \<Rightarrow> int" where
  "balance s a = snd (GetBalance a s)"

text \<open>A ledger: balances that can be credited and debited one account at a time.\<close>

locale ledger =
  fixes ok :: "'s \<Rightarrow> bool"
    and bal :: "'s \<Rightarrow> 'a \<Rightarrow> int"
    and credit :: "'a \<Rightarrow> int \<Rightarrow> 's \<Rightarrow> 's"
    and debit :: "'a \<Rightarrow> int \<Rightarrow> 's \<Rightarrow> 's"
  assumes credit_ok: "ok s \<Longrightarrow> ok (credit a n s)"
    and debit_ok: "ok s \<Longrightarrow> ok (debit a n s)"
    and bal_credit: "ok s \<Longrightarrow> bal (credit a n s) = (bal s)(a := bal s a + n)"
    and bal_debit: "ok s \<Longrightarrow> bal (debit a n s) = (bal s)(a := bal s a - n)"
begin

lemma move_ok: "ok s \<Longrightarrow> ok (credit b n (debit a n s))"
  by (simp add: credit_ok debit_ok)

lemma bal_move:
  "ok s \<Longrightarrow> bal (credit b n (debit a n s)) =
     (if a = b then bal s else (bal s)(a := bal s a - n, b := bal s b + n))"
  by (auto simp: bal_credit bal_debit debit_ok)

lemma sum_bal_credit:
  assumes "ok s" "finite A"
  shows "sum (bal (credit a n s)) A = sum (bal s) A + (if a \<in> A then n else 0)"
  using assms by (auto simp: bal_credit sum.remove [of A a] intro!: sum.cong)

lemma sum_bal_debit:
  assumes "ok s" "finite A"
  shows "sum (bal (debit a n s)) A = sum (bal s) A - (if a \<in> A then n else 0)"
  using assms by (auto simp: bal_debit sum.remove [of A a] intro!: sum.cong)

lemma sum_bal_move:
  assumes "ok s" "finite A" "a \<in> A" "b \<in> A"
  shows "sum (bal (credit b n (debit a n s))) A = sum (bal s) A"
  using assms by (simp add: sum_bal_credit sum_bal_debit debit_ok)

end

lemma balance_view: "balance s a = (case view s a of None \<Rightarrow> 0 | Some v \<Rightarrow> v_balance v)"
  by (simp add: balance_def reader_values)

lemma acct_balance: "v_balance (acct s a) = balance s a"
  by (simp add: acct_def balance_view split: option.splits)

interpretation state_ledger: ledger wf_state balance AddBalance SubBalance
proof
  show "wf_state s \<Longrightarrow> wf_state (AddBalance a n s)" for s a n
    using undoable_AddBalance undoable_wf by blast
  show "wf_state s \<Longrightarrow> wf_state (SubBalance a n s)" for s a n
    using undoable_SubBalance undoable_wf by blast
  show "wf_state s \<Longrightarrow> balance (AddBalance a n s) = (balance s)(a := balance s a + n)" for s a n
    by (auto simp: balance_view [abs_def] view_AddBalance acct_balance fun_eq_iff)
  show "wf_state s \<Longrightarrow> balance (SubBalance a n s) = (balance s)(a := balance s a - n)" for s a n
    by (auto simp: balance_view [abs_def] view_SubBalance acct_balance fun_eq_iff)
qed

text \<open>
  C16. \<open>Transfer\<close> moves exactly the amount: the balances of the two accounts change by it, all other
  balances stay, a transfer to oneself changes nothing, and the sum over any finite set of accounts
  that contains both ends is unchanged. When \<open>CanTransfer\<close> allowed a non-negative amount, no
  balance becomes negative that was not negative before.
\<close>

theorem Transfer_moves_amount:
  assumes "wf_state s" and "finite A" "a \<in> A" "b \<in> A"
  shows "balance (Transfer a b n s) =
           (if a = b then balance s else (balance s)(a := balance s a - n, b := balance s b + n)) \<and>
         sum (balance (Transfer a b n s)) A = sum (balance s) A \<and>
         (0 \<le> n \<and> snd (CanTransfer s a n) \<longrightarrow>
            (\<forall>c. 0 \<le> balance s c \<longrightarrow> 0 \<le> balance (Transfer a b n s) c))"
  using state_ledger.bal_move [OF assms(1), of b n a] state_ledger.sum_bal_move [OF assms, of n]
  by (auto simp: Transfer_def CanTransfer_def balance_def case_prod_beta)

theorem Transfer_moves_amount_witness:
  "balance (Transfer 1 2 3 (AddBalance 1 5 sampleState)) 2 = 3 \<and>
   sum (balance (Transfer 1 2 3 (AddBalance 1 5 sampleState))) {1, 2} = 5"
proof -
  have wf: "wf_state (AddBalance 1 5 sampleState)"
    using state_ledger.credit_ok sampleState_wf by (simp add: wf_db_def)
  have "balance (AddBalance 1 5 sampleState) 1 = 5" "balance (AddBalance 1 5 sampleState) 2 = 0"
    by code_simp+
  then show ?thesis
    using Transfer_moves_amount [OF wf, of "{1, 2}" 1 2 3] by simp
qed

end
