(* ===== verification/EVM_Types.thy ===== *)
theory EVM_Types
  imports State_Views
begin

text \<open>
  Data of the virtual machine (\<open>src/vm/solc\<close>): operand stack, memory, contracts, the machine
  itself, and the helpers of \<open>stack.go\<close>, \<open>memory.go\<close>, \<open>common.go\<close>, \<open>contract.go\<close>,
  \<open>stack_table.go\<close> and \<open>memory_table.go\<close>.

  \<^item> The stack is a list with the top first: \<open>pop\<close> takes the head, \<open>Back(n)\<close> is element \<open>n\<close>.
    Popping an empty stack is the run-time panic of the slice index.
  \<^item> The pool of big integers (\<open>intpool.go\<close>) only recycles memory of values that are no longer on
    the stack; numbers are values here.
  \<^item> A nil byte slice and an empty one are both \<open>[]\<close>: the machine only looks at lengths and bytes.
  \<^item> Tracing (\<open>Config.Debug\<close>) observes the run without changing it and is left out.
\<close>

subsection \<open>Errors\<close>

datatype vm_error =
    ErrOutOfGas | ErrCodeStoreOutOfGas | ErrDepth | ErrInsufficientBalance | ErrContractAddressCollision
  | errWriteProtection | errReturnDataOutOfBounds | errExecutionReverted | errMaxCodeSizeExceeded
  | errGasUintOverflow | errInvalidOpCode byte | errInvalidJump byte int | errStackUnderflow nat nat
  | errStackLimit nat | errNotOnCurve | errInvalidCurvePoint | errBadPairingInput

subsection \<open>Conversions of big integers\<close>

definition bigInt64_value :: "int \<Rightarrow> int" where
  \<comment> \<open>\<open>big.Int.Int64\<close>: the low 64 bits read as a signed number\<close>
  "bigInt64_value x = sint (word_of_int x :: uint64)"

definition bigUint64 :: "int \<Rightarrow> uint64 \<times> bool" where
  "bigUint64 v = (bigUint64_value v, BitLen v > 64)"

subsection \<open>Stack: stack.go, stack_table.go\<close>

type_synonym Stack = "int list"

definition StackLimit :: nat where "StackLimit = 1024"

definition swap_st :: "nat \<Rightarrow> Stack \<Rightarrow> Stack outcome" where
  "swap_st n st = (if n < 1 \<or> n > length st then Panic else Done ((st[n - 1 := st ! 0])[0 := st ! (n - 1)]))"

definition dup_st :: "nat \<Rightarrow> Stack \<Rightarrow> Stack outcome" where
  "dup_st n st = (if n < 1 \<or> n > length st then Panic else Done (st ! (n - 1) # st))"

definition require :: "Stack \<Rightarrow> nat \<Rightarrow> vm_error option" where
  "require st n = (if length st < n then Some (errStackUnderflow (length st) n) else None)"

definition makeStackFunc :: "nat \<Rightarrow> nat \<Rightarrow> Stack \<Rightarrow> vm_error option" where
  "makeStackFunc pop push st =
     (case require st pop of
        Some err \<Rightarrow> Some err
      | None \<Rightarrow> if length st + push - pop > StackLimit then Some (errStackLimit (length st)) else None)"

definition makeDupStackFunc :: "nat \<Rightarrow> Stack \<Rightarrow> vm_error option" where
  "makeDupStackFunc n = makeStackFunc n (n + 1)"

definition makeSwapStackFunc :: "nat \<Rightarrow> Stack \<Rightarrow> vm_error option" where
  "makeSwapStackFunc n = makeStackFunc n n"

subsection \<open>Memory: memory.go\<close>

record Memory =
  mem_store :: bytes
  mem_lastGasCost :: uint64

definition NewMemory :: Memory where
  "NewMemory = \<lparr>mem_store = [], mem_lastGasCost = 0\<rparr>"

definition Memory_Len :: "Memory \<Rightarrow> nat" where
  "Memory_Len m = length (mem_store m)"

definition overwrite :: "nat \<Rightarrow> bytes \<Rightarrow> bytes \<Rightarrow> bytes" where
  \<comment> \<open>\<open>copy(store[offset:], src)\<close> for a source that fits\<close>
  "overwrite offset src store = take offset store @ src @ drop (offset + length src) store"

definition Memory_Set :: "uint64 \<Rightarrow> uint64 \<Rightarrow> bytes \<Rightarrow> Memory \<Rightarrow> Memory outcome" where
  "Memory_Set offset sz value m =
     (if unat sz > Memory_Len m then Panic
      else if sz > 0
      then (if unat (offset + sz) > Memory_Len m \<or> offset + sz < offset then Panic
            else Done (m\<lparr>mem_store := overwrite (unat offset) (take (unat sz) value) (mem_store m)\<rparr>))
      else Done m)"

definition Memory_Resize :: "uint64 \<Rightarrow> Memory \<Rightarrow> Memory" where
  "Memory_Resize sz m =
     (if Memory_Len m < unat sz
      then m\<lparr>mem_store := mem_store m @ replicate (unat sz - Memory_Len m) 0\<rparr> else m)"

definition Memory_GetPtr :: "int \<Rightarrow> int \<Rightarrow> Memory \<Rightarrow> bytes outcome" where
  \<comment> \<open>\<open>offset\<close> and \<open>sz\<close> are \<open>int64\<close>; a slice expression out of range panics\<close>
  "Memory_GetPtr offset sz m =
     (if sz = 0 then Done []
      else if int (Memory_Len m) > offset
      then (if offset < 0 \<or> sz < 0 \<or> offset + sz > int (Memory_Len m) then Panic
            else Done (take (nat sz) (drop (nat offset) (mem_store m))))
      else Done [])"

definition Memory_Get :: "int \<Rightarrow> int \<Rightarrow> Memory \<Rightarrow> bytes outcome" where
  \<comment> \<open>as \<open>GetPtr\<close>, on a copy of the bytes\<close>
  "Memory_Get offset sz m =
     (if sz = 0 then Done []
      else if int (Memory_Len m) > offset
      then (if sz < 0 then Panic
            else if offset < 0 \<or> offset + sz > int (Memory_Len m) then Panic
            else Done (take (nat sz) (drop (nat offset) (mem_store m))))
      else Done [])"

subsection \<open>Slices with padding, word counts: common.go\<close>

definition calcMemSize :: "int \<Rightarrow> int \<Rightarrow> int" where
  "calcMemSize off l = (if l = 0 then 0 else off + l)"

definition getData :: "bytes \<Rightarrow> uint64 \<Rightarrow> uint64 \<Rightarrow> bytes outcome" where
  \<comment> \<open>\<open>start + size\<close> wraps; the slice expression panics when its end is before its start\<close>
  "getData data start sz =
     (let len = word_of_nat (length data);
          start' = (if start > len then len else start);
          end' = start' + sz;
          end'' = (if end' > len then len else end')
      in if end'' < start' then Panic
         else Done (RightPadBytes (take (unat end'' - unat start') (drop (unat start') data)) (nat (sint sz))))"

definition getDataBig :: "bytes \<Rightarrow> int \<Rightarrow> int \<Rightarrow> bytes" where
  "getDataBig data start sz =
     (let dlen = int (length data);
          s = BigMin start dlen;
          e = BigMin (s + sz) dlen
      in RightPadBytes (take (nat e - nat s) (drop (nat s) data)) (nat (sint (bigUint64_value sz))))"

definition toWordSize :: "uint64 \<Rightarrow> uint64" where
  "toWordSize sz = (if sz > MaxUint64 - 31 then MaxUint64 div 32 + 1 else (sz + 31) div 32)"

definition allZero :: "bytes \<Rightarrow> bool" where
  "allZero b \<longleftrightarrow> list_all (\<lambda>x. x = 0) b"

subsection \<open>Memory requirements of the instructions: memory_table.go\<close>

fun memorySha3 :: "Stack \<Rightarrow> int outcome" where
  "memorySha3 (off # sz # _) = Done (calcMemSize off sz)"
| "memorySha3 _ = Panic"

fun memoryCallDataCopy :: "Stack \<Rightarrow> int outcome" where
  "memoryCallDataCopy (off # _ # sz # _) = Done (calcMemSize off sz)"
| "memoryCallDataCopy _ = Panic"

fun memoryReturnDataCopy :: "Stack \<Rightarrow> int outcome" where
  "memoryReturnDataCopy (off # _ # sz # _) = Done (calcMemSize off sz)"
| "memoryReturnDataCopy _ = Panic"

fun memoryCodeCopy :: "Stack \<Rightarrow> int outcome" where
  "memoryCodeCopy (off # _ # sz # _) = Done (calcMemSize off sz)"
| "memoryCodeCopy _ = Panic"

fun memoryExtCodeCopy :: "Stack \<Rightarrow> int outcome" where
  "memoryExtCodeCopy (_ # off # _ # sz # _) = Done (calcMemSize off sz)"
| "memoryExtCodeCopy _ = Panic"

fun memoryMLoad :: "Stack \<Rightarrow> int outcome" where
  "memoryMLoad (off # _) = Done (calcMemSize off 32)"
| "memoryMLoad _ = Panic"

fun memoryMStore8 :: "Stack \<Rightarrow> int outcome" where
  "memoryMStore8 (off # _) = Done (calcMemSize off 1)"
| "memoryMStore8 _ = Panic"

fun memoryMStore :: "Stack \<Rightarrow> int outcome" where
  "memoryMStore (off # _) = Done (calcMemSize off 32)"
| "memoryMStore _ = Panic"

fun memoryCreate :: "Stack \<Rightarrow> int outcome" where
  "memoryCreate (_ # off # sz # _) = Done (calcMemSize off sz)"
| "memoryCreate _ = Panic"

fun memoryCall :: "Stack \<Rightarrow> int outcome" where
  "memoryCall (_ # _ # _ # inOff # inSize # retOff # retSize # _) =
     Done (BigMax (calcMemSize retOff retSize) (calcMemSize inOff inSize))"
| "memoryCall _ = Panic"

fun memoryCallCode :: "Stack \<Rightarrow> int outcome" where
  "memoryCallCode (_ # _ # _ # inOff # inSize # retOff # retSize # _) =
     Done (BigMax (calcMemSize retOff retSize) (calcMemSize inOff inSize))"
| "memoryCallCode _ = Panic"

fun memoryDelegateCall :: "Stack \<Rightarrow> int outcome" where
  "memoryDelegateCall (_ # _ # inOff # inSize # retOff # retSize # _) =
     Done (BigMax (calcMemSize retOff retSize) (calcMemSize inOff inSize))"
| "memoryDelegateCall _ = Panic"

fun memoryStaticCall :: "Stack \<Rightarrow> int outcome" where
  "memoryStaticCall (_ # _ # inOff # inSize # retOff # retSize # _) =
     Done (BigMax (calcMemSize retOff retSize) (calcMemSize inOff inSize))"
| "memoryStaticCall _ = Panic"

fun memoryReturn :: "Stack \<Rightarrow> int outcome" where
  "memoryReturn (off # sz # _) = Done (calcMemSize off sz)"
| "memoryReturn _ = Panic"

fun memoryRevert :: "Stack \<Rightarrow> int outcome" where
  "memoryRevert (off # sz # _) = Done (calcMemSize off sz)"
| "memoryRevert _ = Panic"

fun memoryLog :: "Stack \<Rightarrow> int outcome" where
  "memoryLog (mStart # mSize # _) = Done (calcMemSize mStart mSize)"
| "memoryLog _ = Panic"

subsection \<open>Contracts: contract.go\<close>

text \<open>
  The cache of jump destinations that \<open>NewContract\<close> shares with the calling contract is a Go map,
  shared by reference: it is one map per outermost call and lives in the machine (\<open>evm_jumpdests\<close>).
\<close>

record Contract =
  c_CallerAddress :: Address
  c_self :: Address
  c_Code :: bytes
  c_CodeHash :: Hash
  c_CodeAddr :: "Address option"
  c_Input :: bytes
  c_Gas :: uint64
  c_value :: int
  c_DelegateCall :: bool

datatype ContractRef = AccountRef Address | ContractCaller Contract

fun ref_Address :: "ContractRef \<Rightarrow> Address" where
  "ref_Address (AccountRef a) = a"
| "ref_Address (ContractCaller c) = c_self c"

definition NewContract :: "ContractRef \<Rightarrow> Address \<Rightarrow> int \<Rightarrow> uint64 \<Rightarrow> Contract" where
  "NewContract caller self value gas =
     \<lparr>c_CallerAddress = ref_Address caller, c_self = self, c_Code = [], c_CodeHash = 0,
      c_CodeAddr = None, c_Input = [], c_Gas = gas, c_value = value, c_DelegateCall = False\<rparr>"

fun AsDelegate :: "ContractRef \<Rightarrow> Contract \<Rightarrow> Contract outcome" where
  \<comment> \<open>the type assertion \<open>c.caller.(*Contract)\<close> panics on any other reference\<close>
  "AsDelegate (ContractCaller parent) c =
     Done (c\<lparr>c_DelegateCall := True, c_CallerAddress := c_CallerAddress parent, c_value := c_value parent\<rparr>)"
| "AsDelegate (AccountRef a) c = Panic"

definition GetByte :: "Contract \<Rightarrow> uint64 \<Rightarrow> byte" where
  "GetByte c n = (if unat n < length (c_Code c) then c_Code c ! unat n else 0)"

definition GetOp :: "Contract \<Rightarrow> uint64 \<Rightarrow> byte" where
  "GetOp c n = GetByte c n"

definition UseGas :: "uint64 \<Rightarrow> Contract \<Rightarrow> Contract \<times> bool" where
  "UseGas gas c = (if c_Gas c < gas then (c, False) else (c\<lparr>c_Gas := c_Gas c - gas\<rparr>, True))"

definition SetCallCode :: "Address \<Rightarrow> Hash \<Rightarrow> bytes \<Rightarrow> Contract \<Rightarrow> Contract" where
  "SetCallCode addr codeHash code c =
     c\<lparr>c_Code := code, c_CodeHash := codeHash, c_CodeAddr := Some addr\<rparr>"

subsection \<open>Configuration: gas tables and flags\<close>

record GasTable =
  gt_ExtcodeSize :: uint64
  gt_ExtcodeCopy :: uint64
  gt_Balance :: uint64
  gt_SLoad :: uint64
  gt_Calls :: uint64
  gt_Suicide :: uint64
  gt_ExpByte :: uint64
  gt_CreateBySuicide :: uint64

definition GasTableEIP158 :: GasTable where
  "GasTableEIP158 =
     \<lparr>gt_ExtcodeSize = 700, gt_ExtcodeCopy = 700, gt_Balance = 400, gt_SLoad = 200, gt_Calls = 700,
      gt_Suicide = 5000, gt_ExpByte = 50, gt_CreateBySuicide = 25000\<rparr>"

record VMConfig =
  cfg_NoRecursion :: bool
  cfg_DisableGasMetering :: bool
  cfg_EnablePreimageRecording :: bool

text \<open>
  The native functions the precompiled contracts call: the secp256k1 and bn256 libraries and the
  SHA-256 and RIPEMD-160 hashes. Points are given by their four coordinates, as \<open>CurvePoints\<close>
  returns them; \<open>Unmarshal\<close> also tells whether the point is on the curve.
\<close>

type_synonym G1 = "int \<times> int \<times> int \<times> int"
type_synonym G2 = "(int \<times> int) \<times> (int \<times> int) \<times> (int \<times> int) \<times> (int \<times> int)"

record NativeCrypto =
  nv_Ecrecover :: "bytes \<Rightarrow> bytes \<Rightarrow> bytes option"
  nv_Sha256 :: "bytes \<Rightarrow> bytes"
  nv_Ripemd160 :: "bytes \<Rightarrow> bytes"
  nv_G1Unmarshal :: "bytes \<Rightarrow> G1 \<times> bool"
  nv_G2Unmarshal :: "bytes \<Rightarrow> G2 \<times> bool"
  nv_G1Add :: "G1 \<Rightarrow> G1 \<Rightarrow> G1"
  nv_G1ScalarMult :: "G1 \<Rightarrow> int \<Rightarrow> G1"
  nv_G1Marshal :: "G1 \<Rightarrow> bytes"
  nv_PairingCheck :: "G1 list \<Rightarrow> G2 list \<Rightarrow> bool"

subsection \<open>The machine: evm.go, interpreter.go\<close>

record Context =
  ctx_GetHash :: "uint64 \<Rightarrow> Hash"
  ctx_Origin :: Address
  ctx_GasPrice :: int
  ctx_Coinbase :: Address
  ctx_GasLimit :: uint64
  ctx_BlockNumber :: int
  ctx_Time :: int
  ctx_Difficulty :: int

type_synonym bitvec = bytes

record EVM =
  evm_Context :: Context
  evm_StateDB :: StateDB
  evm_depth :: nat
  evm_IsByzantium :: bool
  evm_vmConfig :: VMConfig
  evm_abort :: bool
  evm_callGasTemp :: uint64
  evm_gasTable :: GasTable
  evm_readOnly :: bool
  evm_returnData :: bytes
  evm_jumpdests :: "Hash \<rightharpoonup> bitvec"
  evm_native :: NativeCrypto

definition NewEVM :: "Context \<Rightarrow> StateDB \<Rightarrow> bool \<Rightarrow> VMConfig \<Rightarrow> NativeCrypto \<Rightarrow> EVM" where
  "NewEVM ctx statedb byzantium cfg native =
     \<lparr>evm_Context = ctx, evm_StateDB = statedb, evm_depth = 0, evm_IsByzantium = byzantium,
      evm_vmConfig = cfg, evm_abort = False, evm_callGasTemp = 0, evm_gasTable = GasTableEIP158,
      evm_readOnly = False, evm_returnData = [], evm_jumpdests = Map.empty, evm_native = native\<rparr>"

definition Cancel :: "EVM \<Rightarrow> EVM" where
  "Cancel evm = evm\<lparr>evm_abort := True\<rparr>"

text \<open>One activation of \<open>Interpreter.Run\<close>: its local variables and the machine.\<close>

record Frame =
  f_pc :: uint64
  f_contract :: Contract
  f_mem :: Memory
  f_stack :: Stack
  f_evm :: EVM

abbreviation f_sdb :: "Frame \<Rightarrow> StateDB" where
  "f_sdb f \<equiv> evm_StateDB (f_evm f)"

definition set_sdb :: "StateDB \<Rightarrow> Frame \<Rightarrow> Frame" where
  "set_sdb s f = f\<lparr>f_evm := (f_evm f)\<lparr>evm_StateDB := s\<rparr>\<rparr>"

text \<open>The outcome of one instruction: the new frame, the returned bytes and the error.\<close>

type_synonym execution = "Frame \<Rightarrow> (Frame \<times> bytes \<times> vm_error option) outcome"

text \<open>The outcome of a gas function: it may charge the refund counter, remember the memory fee and
  the gas of a call; the result is an error or the cost.\<close>

type_synonym gasFunc = "Frame \<Rightarrow> uint64 \<Rightarrow> (Frame \<times> (vm_error + uint64)) outcome"

end
