(* ===== verification/EVM_Gas.thy ===== *)
theory EVM_Gas
  imports EVM_Types
begin

text \<open>
  Gas costs: \<open>src/vm/solc/gas.go\<close>, \<open>src/vm/solc/gas_table.go\<close> and the constants of
  \<open>src/config/protocol_params.go\<close>. All arithmetic is on 64-bit words; overflow checks are the
  code's own. A gas function that fails after it wrote \<open>lastGasCost\<close> or the refund counter keeps
  the write, as in the source.
\<close>

subsection \<open>Constants\<close>

definition GasQuickStep :: uint64 where "GasQuickStep = 2"
definition GasFastestStep :: uint64 where "GasFastestStep = 3"
definition GasFastStep :: uint64 where "GasFastStep = 5"
definition GasMidStep :: uint64 where "GasMidStep = 8"
definition GasSlowStep :: uint64 where "GasSlowStep = 10"
definition GasExtStep :: uint64 where "GasExtStep = 20"

definition CallValueTransferGas :: uint64 where "CallValueTransferGas = 9000"
definition CallNewAccountGas :: uint64 where "CallNewAccountGas = 25000"
definition QuadCoeffDiv :: uint64 where "QuadCoeffDiv = 512"
definition SstoreSetGas :: uint64 where "SstoreSetGas = 20000"
definition SstoreResetGas :: uint64 where "SstoreResetGas = 5000"
definition SstoreClearGas :: uint64 where "SstoreClearGas = 5000"
definition SstoreRefundGas :: uint64 where "SstoreRefundGas = 15000"
definition LogDataGas :: uint64 where "LogDataGas = 8"
definition LogGas :: uint64 where "LogGas = 375"
definition LogTopicGas :: uint64 where "LogTopicGas = 375"
definition CallStipend :: uint64 where "CallStipend = 2300"
definition Sha3Gas :: uint64 where "Sha3Gas = 30"
definition Sha3WordGas :: uint64 where "Sha3WordGas = 6"
definition JumpdestGas :: uint64 where "JumpdestGas = 1"
definition CreateDataGas :: uint64 where "CreateDataGas = 200"
definition CreateGas :: uint64 where "CreateGas = 32000"
definition CopyGas :: uint64 where "CopyGas = 3"
definition SuicideRefundGas :: uint64 where "SuicideRefundGas = 24000"
definition MemoryGas :: uint64 where "MemoryGas = 3"
definition MaxCodeSize :: nat where "MaxCodeSize = 24576"
definition CallCreateDepth :: nat where "CallCreateDepth = 1024"

lemmas gas_constants =
  GasQuickStep_def GasFastestStep_def GasFastStep_def GasMidStep_def GasSlowStep_def GasExtStep_def
  CallValueTransferGas_def CallNewAccountGas_def QuadCoeffDiv_def SstoreSetGas_def SstoreResetGas_def
  SstoreClearGas_def SstoreRefundGas_def LogDataGas_def LogGas_def LogTopicGas_def CallStipend_def
  Sha3Gas_def Sha3WordGas_def JumpdestGas_def CreateDataGas_def CreateGas_def CopyGas_def
  SuicideRefundGas_def MemoryGas_def

subsection \<open>Memory expansion and call gas\<close>

definition memoryGasCost :: "Memory \<Rightarrow> uint64 \<Rightarrow> Memory \<times> (vm_error + uint64)" where
  "memoryGasCost mem newMemSize =
     (if newMemSize = 0 then (mem, Inr 0)
      else if newMemSize > 0xffffffffe0 then (mem, Inl errGasUintOverflow)
      else
        (let newMemSizeWords = toWordSize newMemSize;
             newMemSize' = newMemSizeWords * 32
         in if unat newMemSize' > Memory_Len mem
            then
              (let square = newMemSizeWords * newMemSizeWords;
                   linCoef = newMemSizeWords * MemoryGas;
                   quadCoef = square div QuadCoeffDiv;
                   newTotalFee = linCoef + quadCoef;
                   fee = newTotalFee - mem_lastGasCost mem
               in (mem\<lparr>mem_lastGasCost := newTotalFee\<rparr>, Inr fee))
            else (mem, Inr 0)))"

definition callGas :: "GasTable \<Rightarrow> uint64 \<Rightarrow> uint64 \<Rightarrow> int \<Rightarrow> vm_error + uint64" where
  "callGas gt availableGas base callCost =
     (let availableGas' = availableGas - base;
          gas = availableGas' - availableGas' div 64
      in if gt_CreateBySuicide gt > 0 \<and> (BitLen callCost > 64 \<or> gas < bigUint64_value callCost)
         then Inr gas
         else if BitLen callCost > 64 then Inl errGasUintOverflow
         else Inr (bigUint64_value callCost))"

subsection \<open>Combinators for the checked sums of the source\<close>

definition charge :: "uint64 \<Rightarrow> vm_error + uint64 \<Rightarrow> vm_error + uint64" where
  \<comment> \<open>\<open>if gas, overflow = math.SafeAdd(gas, x); overflow { return errGasUintOverflow }\<close>\<close>
  "charge x r =
     (case r of
        Inl e \<Rightarrow> Inl e
      | Inr gas \<Rightarrow> (let (gas', overflow) = SafeAdd gas x in if overflow then Inl errGasUintOverflow else Inr gas'))"

definition chargeWords :: "uint64 \<Rightarrow> int \<Rightarrow> vm_error + uint64 \<Rightarrow> vm_error + uint64" where
  \<comment> \<open>a price per 32-byte word of a size taken from the stack\<close>
  "chargeWords price sz r =
     (case r of
        Inl e \<Rightarrow> Inl e
      | Inr gas \<Rightarrow>
          (let (words, overflow) = bigUint64 sz
           in if overflow then Inl errGasUintOverflow
              else
                (let (wordGas, overflow') = SafeMul (toWordSize words) price
                 in if overflow' then Inl errGasUintOverflow else charge wordGas (Inr gas))))"

definition memoryFee :: "Frame \<Rightarrow> uint64 \<Rightarrow> Frame \<times> (vm_error + uint64)" where
  "memoryFee f memorySize =
     (let (mem, r) = memoryGasCost (f_mem f) memorySize in (f\<lparr>f_mem := mem\<rparr>, r))"

subsection \<open>Gas functions\<close>

definition constGasFunc :: "uint64 \<Rightarrow> gasFunc" where
  "constGasFunc gas f memorySize = Done (f, Inr gas)"

definition gasCallDataCopy :: gasFunc where
  "gasCallDataCopy f memorySize =
     (case f_stack f of
        _ # _ # sz # _ \<Rightarrow>
          (let (f1, gas) = memoryFee f memorySize
           in Done (f1, chargeWords CopyGas sz (charge GasFastestStep gas)))
      | _ \<Rightarrow> Panic)"

definition gasReturnDataCopy :: gasFunc where
  "gasReturnDataCopy f memorySize =
     (case f_stack f of
        _ # _ # sz # _ \<Rightarrow>
          (let (f1, gas) = memoryFee f memorySize
           in Done (f1, chargeWords CopyGas sz (charge GasFastestStep gas)))
      | _ \<Rightarrow> Panic)"

definition gasSStore :: gasFunc where
  "gasSStore f memorySize =
     (case f_stack f of
        x # y # _ \<Rightarrow>
          (let (s1, val) = GetState (c_self (f_contract f)) (BigToHash x) (f_sdb f)
           in if EmptyHash val \<and> \<not> EmptyHash (BigToHash y)
              then Done (set_sdb s1 f, Inr SstoreSetGas)
              else if \<not> EmptyHash val \<and> EmptyHash (BigToHash y)
              then Done (set_sdb (AddRefund SstoreRefundGas s1) f, Inr SstoreClearGas)
              else Done (set_sdb s1 f, Inr SstoreResetGas))
      | _ \<Rightarrow> Panic)"

definition makeGasLog :: "uint64 \<Rightarrow> gasFunc" where
  "makeGasLog n f memorySize =
     (case f_stack f of
        _ # sz # _ \<Rightarrow>
          (let (requestedSize, overflow) = bigUint64 sz
           in if overflow then Done (f, Inl errGasUintOverflow)
              else
                (let (f1, gas) = memoryFee f memorySize
                 in Done (f1,
                      (case charge (n * LogTopicGas) (charge LogGas gas) of
                         Inl e \<Rightarrow> Inl e
                       | Inr gas' \<Rightarrow>
                           (let (memorySizeGas, overflow') = SafeMul requestedSize LogDataGas
                            in if overflow' then Inl errGasUintOverflow
                               else charge memorySizeGas (Inr gas'))))))
      | _ \<Rightarrow> Panic)"

definition gasSha3 :: gasFunc where
  "gasSha3 f memorySize =
     (case f_stack f of
        _ # sz # _ \<Rightarrow>
          (let (f1, gas) = memoryFee f memorySize
           in Done (f1, chargeWords Sha3WordGas sz (charge Sha3Gas gas)))
      | _ \<Rightarrow> Panic)"

definition gasCodeCopy :: gasFunc where
  "gasCodeCopy f memorySize =
     (case f_stack f of
        _ # _ # sz # _ \<Rightarrow>
          (let (f1, gas) = memoryFee f memorySize
           in Done (f1, chargeWords CopyGas sz (charge GasFastestStep gas)))
      | _ \<Rightarrow> Panic)"

definition gasExtCodeCopy :: gasFunc where
  "gasExtCodeCopy f memorySize =
     (case f_stack f of
        _ # _ # _ # sz # _ \<Rightarrow>
          (let (f1, gas) = memoryFee f memorySize
           in Done (f1, chargeWords CopyGas sz (charge (gt_ExtcodeCopy (evm_gasTable (f_evm f))) gas)))
      | _ \<Rightarrow> Panic)"

definition gasMLoad :: gasFunc where
  "gasMLoad f memorySize =
     (let (f1, gas) = memoryFee f memorySize in Done (f1, charge GasFastestStep gas))"

definition gasMStore8 :: gasFunc where
  "gasMStore8 f memorySize =
     (let (f1, gas) = memoryFee f memorySize in Done (f1, charge GasFastestStep gas))"

definition gasMStore :: gasFunc where
  "gasMStore f memorySize =
     (let (f1, gas) = memoryFee f memorySize in Done (f1, charge GasFastestStep gas))"

definition gasCreate :: gasFunc where
  "gasCreate f memorySize =
     (let (f1, gas) = memoryFee f memorySize in Done (f1, charge CreateGas gas))"

definition gasBalance :: gasFunc where
  "gasBalance f memorySize = Done (f, Inr (gt_Balance (evm_gasTable (f_evm f))))"

definition gasExtCodeSize :: gasFunc where
  "gasExtCodeSize f memorySize = Done (f, Inr (gt_ExtcodeSize (evm_gasTable (f_evm f))))"

definition gasSLoad :: gasFunc where
  "gasSLoad f memorySize = Done (f, Inr (gt_SLoad (evm_gasTable (f_evm f))))"

definition gasExp :: gasFunc where
  "gasExp f memorySize =
     (case f_stack f of
        _ # e # _ \<Rightarrow>
          (let expByteLen = word_of_nat ((BitLen e + 7) div 8);
               gas = expByteLen * gt_ExpByte (evm_gasTable (f_evm f))
           in Done (f, charge GasSlowStep (Inr gas)))
      | _ \<Rightarrow> Panic)"

definition rememberCallGas :: "int \<Rightarrow> Frame \<times> (vm_error + uint64) \<Rightarrow> Frame \<times> (vm_error + uint64)" where
  \<comment> \<open>\<open>evm.callGasTemp, err = callGas(...)\<close> and the final sum, shared by the four call gas functions\<close>
  "rememberCallGas callCost r =
     (case r of
        (f, Inl e) \<Rightarrow> (f, Inl e)
      | (f, Inr gas) \<Rightarrow>
          (case callGas (evm_gasTable (f_evm f)) (c_Gas (f_contract f)) gas callCost of
             Inl e \<Rightarrow> (f\<lparr>f_evm := (f_evm f)\<lparr>evm_callGasTemp := 0\<rparr>\<rparr>, Inl e)
           | Inr temp \<Rightarrow>
               (f\<lparr>f_evm := (f_evm f)\<lparr>evm_callGasTemp := temp\<rparr>\<rparr>, charge temp (Inr gas))))"

definition gasCall :: gasFunc where
  "gasCall f memorySize =
     (case f_stack f of
        callCost # addr # val # _ \<Rightarrow>
          (let transfersValue = val \<noteq> 0;
               (s1, isEmpty) =
                 (if transfersValue then Empty (BigToAddress addr) (f_sdb f) else (f_sdb f, False));
               gas = gt_Calls (evm_gasTable (f_evm f));
               gas1 = (if isEmpty then gas + CallNewAccountGas else gas);
               gas2 = (if transfersValue then gas1 + CallValueTransferGas else gas1);
               (f1, memoryGas) = memoryFee (set_sdb s1 f) memorySize;
               total = (case memoryGas of Inl e \<Rightarrow> Inl e | Inr mg \<Rightarrow> charge mg (Inr gas2))
           in Done (rememberCallGas callCost (f1, total)))
      | _ \<Rightarrow> Panic)"

definition gasCallCode :: gasFunc where
  "gasCallCode f memorySize =
     (case f_stack f of
        callCost # addr # val # _ \<Rightarrow>
          (let gas = gt_Calls (evm_gasTable (f_evm f));
               gas1 = (if val \<noteq> 0 then gas + CallValueTransferGas else gas);
               (f1, memoryGas) = memoryFee f memorySize;
               total = (case memoryGas of Inl e \<Rightarrow> Inl e | Inr mg \<Rightarrow> charge mg (Inr gas1))
           in Done (rememberCallGas callCost (f1, total)))
      | _ \<Rightarrow> Panic)"

definition gasReturn :: gasFunc where
  "gasReturn f memorySize = Done (memoryFee f memorySize)"

definition gasRevert :: gasFunc where
  "gasRevert f memorySize = Done (memoryFee f memorySize)"

definition gasSuicide :: gasFunc where
  "gasSuicide f memorySize =
     (case f_stack f of
        addr # _ \<Rightarrow>
          (let self = c_self (f_contract f);
               (s1, isEmpty) = Empty (BigToAddress addr) (f_sdb f);
               (s2, bal) = (if isEmpty then GetBalance self s1 else (s1, 0));
               gas = gt_Suicide (evm_gasTable (f_evm f)) +
                 (if isEmpty \<and> bal \<noteq> 0 then gt_CreateBySuicide (evm_gasTable (f_evm f)) else 0);
               (s3, dead) = HasSuicided self s2;
               s4 = (if dead then s3 else AddRefund SuicideRefundGas s3)
           in Done (set_sdb s4 f, Inr gas))
      | _ \<Rightarrow> Panic)"

definition gasDelegateCall :: gasFunc where
  "gasDelegateCall f memorySize =
     (case f_stack f of
        callCost # _ \<Rightarrow>
          (let (f1, gas) = memoryFee f memorySize
           in Done (rememberCallGas callCost (f1, charge (gt_Calls (evm_gasTable (f_evm f))) gas)))
      | _ \<Rightarrow> Panic)"

definition gasStaticCall :: gasFunc where
  "gasStaticCall f memorySize =
     (case f_stack f of
        callCost # _ \<Rightarrow>
          (let (f1, gas) = memoryFee f memorySize
           in Done (rememberCallGas callCost (f1, charge (gt_Calls (evm_gasTable (f_evm f))) gas)))
      | _ \<Rightarrow> Panic)"

definition gasPush :: gasFunc where
  "gasPush f memorySize = Done (f, Inr GasFastestStep)"

definition gasSwap :: gasFunc where
  "gasSwap f memorySize = Done (f, Inr GasFastestStep)"

definition gasDup :: gasFunc where
  "gasDup f memorySize = Done (f, Inr GasFastestStep)"

end
