(* ===== verification/Rlp.thy ===== *)
theory Rlp
  imports Common_Math
begin

text \<open>
  RLP, the serialisation of accounts, transactions and addresses: the buffered encoder of
  \<open>src/common/rlp/encode.go\<close> and the raw splitter of \<open>src/common/rlp/raw.go\<close>. The encoder keeps
  string data and list headers apart and merges them at the end; it is proved equal to the
  recursive definition of the format, and the splitter is proved to undo it.

  Reflection (\<open>makeWriter\<close>) selects a writer from the Go type of a value; here a value carries
  its writer as the constructor of \<open>rlp_value\<close> (\<open>VList\<close> a slice or struct, \<open>VTail\<close> the
  slice field tagged \<open>tail\<close>, \<open>VRaw\<close> a \<open>RawValue\<close>). Sizes are lengths of slices, below \<open>2^64\<close>.
\<close>

subsection \<open>Encoder: encode.go\<close>

definition putint :: "nat \<Rightarrow> bytes" where
  \<comment> \<open>the bytes that the source stores at the start of \<open>b\<close>\<close>
  "putint i =
     (let byt = (\<lambda>k. word_of_nat (i div 2 ^ k))
      in if i < 2 ^ 8 then [byt 0]
         else if i < 2 ^ 16 then [byt 8, byt 0]
         else if i < 2 ^ 24 then [byt 16, byt 8, byt 0]
         else if i < 2 ^ 32 then [byt 24, byt 16, byt 8, byt 0]
         else if i < 2 ^ 40 then [byt 32, byt 24, byt 16, byt 8, byt 0]
         else if i < 2 ^ 48 then [byt 40, byt 32, byt 24, byt 16, byt 8, byt 0]
         else if i < 2 ^ 56 then [byt 48, byt 40, byt 32, byt 24, byt 16, byt 8, byt 0]
         else [byt 56, byt 48, byt 40, byt 32, byt 24, byt 16, byt 8, byt 0])"

fun intsize :: "nat \<Rightarrow> nat" where
  "intsize i = (if i div 256 = 0 then 1 else Suc (intsize (i div 256)))"

declare intsize.simps [simp del]

definition headsize :: "nat \<Rightarrow> nat" where
  "headsize sz = (if sz < 56 then 1 else 1 + intsize sz)"

definition puthead :: "byte \<Rightarrow> byte \<Rightarrow> nat \<Rightarrow> bytes" where
  "puthead smalltag largetag sz =
     (if sz < 56 then [smalltag + word_of_nat sz]
      else (let s = putint sz in (largetag + word_of_nat (length s)) # s))"

record listhead =
  lh_offset :: nat
  lh_size :: nat

record encbuf =
  eb_str :: bytes
  eb_lheads :: "listhead list"
  eb_lhsize :: nat

definition encbuf_empty :: encbuf where
  "encbuf_empty = \<lparr>eb_str = [], eb_lheads = [], eb_lhsize = 0\<rparr>"

definition listhead_encode :: "listhead \<Rightarrow> bytes" where
  "listhead_encode head = puthead 0xC0 0xF7 (lh_size head)"

definition put_str :: "bytes \<Rightarrow> encbuf \<Rightarrow> encbuf" where
  "put_str b w = w\<lparr>eb_str := eb_str w @ b\<rparr>"

definition encodeStringHeader :: "nat \<Rightarrow> encbuf \<Rightarrow> encbuf" where
  "encodeStringHeader sz w =
     (if sz < 56 then put_str [0x80 + word_of_nat sz] w
      else (let s = putint sz in put_str ((0xB7 + word_of_nat (length s)) # s) w))"

definition encodeString :: "bytes \<Rightarrow> encbuf \<Rightarrow> encbuf" where
  "encodeString b w =
     (if length b = 1 \<and> b ! 0 \<le> 0x7F then put_str b w else put_str b (encodeStringHeader (length b) w))"

definition encbuf_size :: "encbuf \<Rightarrow> nat" where
  "encbuf_size w = length (eb_str w) + eb_lhsize w"

definition encbuf_list :: "encbuf \<Rightarrow> encbuf \<times> nat" where
  \<comment> \<open>the new header and its index; the pointer of the source is that index\<close>
  "encbuf_list w =
     (w\<lparr>eb_lheads := eb_lheads w @ [\<lparr>lh_offset = length (eb_str w), lh_size = eb_lhsize w\<rparr>]\<rparr>,
      length (eb_lheads w))"

definition listEnd :: "nat \<Rightarrow> encbuf \<Rightarrow> encbuf" where
  "listEnd i w =
     (let lh = eb_lheads w ! i;
          sz = encbuf_size w - lh_offset lh - lh_size lh
      in w\<lparr>eb_lheads := (eb_lheads w)[i := lh\<lparr>lh_size := sz\<rparr>],
           eb_lhsize := eb_lhsize w + (if sz < 56 then 1 else 1 + intsize sz)\<rparr>)"

fun toBytes_loop :: "bytes \<Rightarrow> nat \<Rightarrow> listhead list \<Rightarrow> bytes" where
  "toBytes_loop str strpos [] = drop strpos str"
| "toBytes_loop str strpos (head # heads) =
     take (lh_offset head - strpos) (drop strpos str) @ listhead_encode head @
     toBytes_loop str (strpos + length (take (lh_offset head - strpos) (drop strpos str))) heads"

definition toBytes :: "encbuf \<Rightarrow> bytes" where
  "toBytes w = toBytes_loop (eb_str w) 0 (eb_lheads w)"

datatype rlp_value =
    VUint uint64 | VBool bool | VBig int | VBytes bytes | VRaw bytes
  | VList "rlp_value list" | VTail "rlp_value list"

datatype rlp_error = ErrNegativeBig | ErrExpectedString | ErrExpectedList | ErrCanonSize | ErrValueTooLarge
  | ErrUnexpectedEOF

definition writeUint :: "uint64 \<Rightarrow> encbuf \<Rightarrow> encbuf" where
  "writeUint i w =
     (if i = 0 then put_str [0x80] w
      else if i < 128 then put_str [word_of_nat (unat i)] w
      else (let s = putint (unat i) in put_str ((0x80 + word_of_nat (length s)) # s) w))"

definition writeBool :: "bool \<Rightarrow> encbuf \<Rightarrow> encbuf" where
  "writeBool b w = (if b then put_str [0x01] w else put_str [0x80] w)"

definition writeBigInt :: "int \<Rightarrow> encbuf \<Rightarrow> rlp_error + encbuf" where
  "writeBigInt i w =
     (if i < 0 then Inl ErrNegativeBig
      else if i = 0 then Inr (put_str [0x80] w)
      else Inr (encodeString (Bytes i) w))"

fun writer :: "rlp_value \<Rightarrow> encbuf \<Rightarrow> rlp_error + encbuf"
  and slice_writer :: "rlp_value list \<Rightarrow> encbuf \<Rightarrow> rlp_error + encbuf" where
  "writer (VUint i) w = Inr (writeUint i w)"
| "writer (VBool b) w = Inr (writeBool b w)"
| "writer (VBig i) w = writeBigInt i w"
| "writer (VBytes b) w = Inr (encodeString b w)"
| "writer (VRaw b) w = Inr (put_str b w)"
| "writer (VList vs) w =
     (let (w1, lh) = encbuf_list w
      in case slice_writer vs w1 of Inl e \<Rightarrow> Inl e | Inr w2 \<Rightarrow> Inr (listEnd lh w2))"
| "writer (VTail vs) w = slice_writer vs w"
| "slice_writer [] w = Inr w"
| "slice_writer (v # vs) w = (case writer v w of Inl e \<Rightarrow> Inl e | Inr w1 \<Rightarrow> slice_writer vs w1)"

definition EncodeToBytes :: "rlp_value \<Rightarrow> rlp_error + bytes" where
  "EncodeToBytes v = (case writer v encbuf_empty of Inl e \<Rightarrow> Inl e | Inr w \<Rightarrow> Inr (toBytes w))"

subsection \<open>Splitter: raw.go\<close>

datatype Kind = KByte | KString | KList

definition readSize :: "bytes \<Rightarrow> nat \<Rightarrow> rlp_error + nat" where
  \<comment> \<open>the shifted bytes of the source are disjoint, so their bitwise or is the big-endian number\<close>
  "readSize b slen =
     (if slen > length b then Inl ErrUnexpectedEOF
      else
        (let s = be_nat 0 (take slen b)
         in if s < 56 \<or> b ! 0 = 0 then Inl ErrCanonSize else Inr s))"

definition readKind :: "bytes \<Rightarrow> (rlp_error + Kind \<times> nat \<times> nat) outcome" where
  "readKind buf =
     (case buf of
        [] \<Rightarrow> Done (Inl ErrUnexpectedEOF)
      | b # rest \<Rightarrow>
          (let check = (\<lambda>k tagsize contentsize.
                 if contentsize > length buf - tagsize then Done (Inl ErrValueTooLarge)
                 else Done (Inr (k, tagsize, contentsize)));
               long = (\<lambda>k base.
                 (let slen = unat (b - base)
                  in case readSize rest slen of
                       Inl e \<Rightarrow> Done (Inl e)
                     | Inr contentsize \<Rightarrow> check k (slen + 1) contentsize))
           in if b < 0x80 then check KByte 0 1
              else if b < 0xB8
              then (let contentsize = unat (b - 0x80)
                    in if contentsize = 1
                       then (case rest of
                               [] \<Rightarrow> Panic
                             | c # _ \<Rightarrow> if c < 128 then Done (Inl ErrCanonSize) else check KString 1 contentsize)
                       else check KString 1 contentsize)
              else if b < 0xC0 then long KString 0xB7
              else if b < 0xF8 then check KList 1 (unat (b - 0xC0))
              else long KList 0xF7))"

definition Split :: "bytes \<Rightarrow> (rlp_error + Kind \<times> bytes \<times> bytes) outcome" where
  "Split b =
     obind (readKind b)
       (\<lambda>r. Done (case r of
          Inl e \<Rightarrow> Inl e
        | Inr (k, ts, cs) \<Rightarrow> Inr (k, take cs (drop ts b), drop (ts + cs) b)))"

definition SplitString :: "bytes \<Rightarrow> (rlp_error + bytes \<times> bytes) outcome" where
  "SplitString b =
     obind (Split b)
       (\<lambda>r. Done (case r of
          Inl e \<Rightarrow> Inl e
        | Inr (k, content, rest) \<Rightarrow> if k = KList then Inl ErrExpectedString else Inr (content, rest)))"

definition SplitList :: "bytes \<Rightarrow> (rlp_error + bytes \<times> bytes) outcome" where
  "SplitList b =
     obind (Split b)
       (\<lambda>r. Done (case r of
          Inl e \<Rightarrow> Inl e
        | Inr (k, content, rest) \<Rightarrow> if k \<noteq> KList then Inl ErrExpectedList else Inr (content, rest)))"

function CountValues_loop :: "bytes \<Rightarrow> nat \<Rightarrow> (rlp_error + nat) outcome" where
  "CountValues_loop b i =
     (if b = [] then Done (Inr i)
      else
        (case readKind b of
           Panic \<Rightarrow> Panic
         | OutOfFuel \<Rightarrow> OutOfFuel
         | Done (Inl e) \<Rightarrow> Done (Inl e)
         | Done (Inr (_, tagsize, sz)) \<Rightarrow>
             if tagsize + sz = 0 then OutOfFuel else CountValues_loop (drop (tagsize + sz) b) (i + 1)))"
  by pat_completeness auto
termination
  by (relation "measure (\<lambda>(b, i). length b)") auto

declare CountValues_loop.simps [simp del]

definition CountValues :: "bytes \<Rightarrow> (rlp_error + nat) outcome" where
  "CountValues b = CountValues_loop b 0"

definition ListSize :: "nat \<Rightarrow> nat" where
  "ListSize contentSize = headsize contentSize + contentSize"

subsection \<open>The format, as a recursive definition\<close>

definition enc_str :: "bytes \<Rightarrow> bytes" where
  "enc_str b = (if length b = 1 \<and> b ! 0 \<le> 0x7F then b else puthead 0x80 0xB7 (length b) @ b)"

definition enc_list :: "bytes \<Rightarrow> bytes" where
  "enc_list c = puthead 0xC0 0xF7 (length c) @ c"

fun encoding :: "rlp_value \<Rightarrow> bytes" where
  "encoding (VUint i) = enc_str (be_bytes (unat i))"
| "encoding (VBool b) = enc_str (if b then [1] else [])"
| "encoding (VBig i) = enc_str (Bytes i)"
| "encoding (VBytes b) = enc_str b"
| "encoding (VRaw b) = b"
| "encoding (VList vs) = enc_list (concat (map encoding vs))"
| "encoding (VTail vs) = concat (map encoding vs)"

fun encodable :: "rlp_value \<Rightarrow> bool" where
  "encodable (VBig i) \<longleftrightarrow> 0 \<le> i"
| "encodable (VList vs) \<longleftrightarrow> (\<forall>v \<in> set vs. encodable v)"
| "encodable (VTail vs) \<longleftrightarrow> (\<forall>v \<in> set vs. encodable v)"
| "encodable _ \<longleftrightarrow> True"

fun payload :: "rlp_value \<Rightarrow> bytes" where
  "payload (VUint i) = be_bytes (unat i)"
| "payload (VBool b) = (if b then [1] else [])"
| "payload (VBig i) = Bytes i"
| "payload (VBytes b) = b"
| "payload (VRaw b) = b"
| "payload (VList vs) = concat (map encoding vs)"
| "payload (VTail vs) = concat (map encoding vs)"

fun kind_of :: "rlp_value \<Rightarrow> Kind" where
  "kind_of (VList vs) = KList"
| "kind_of v = (if length (payload v) = 1 \<and> payload v ! 0 \<le> 0x7F then KByte else KString)"

fun self_delimiting :: "rlp_value \<Rightarrow> bool" where
  "self_delimiting (VRaw _) \<longleftrightarrow> False"
| "self_delimiting (VTail _) \<longleftrightarrow> False"
| "self_delimiting _ \<longleftrightarrow> True"

definition shift_head :: "nat \<Rightarrow> listhead \<Rightarrow> listhead" where
  "shift_head n h = h\<lparr>lh_offset := n + lh_offset h\<rparr>"

definition emits :: "encbuf \<Rightarrow> encbuf \<Rightarrow> bytes \<Rightarrow> bool" where
  \<comment> \<open>\<open>w'\<close> is \<open>w\<close> after writing what comes out as \<open>bs\<close>\<close>
  "emits w w' bs \<longleftrightarrow>
     (\<exists>s hs n. w' = \<lparr>eb_str = eb_str w @ s,
                     eb_lheads = eb_lheads w @ map (shift_head (length (eb_str w))) hs,
                     eb_lhsize = eb_lhsize w + n\<rparr> \<and>
        sorted (map lh_offset hs) \<and> (\<forall>h \<in> set hs. lh_offset h \<le> length s) \<and>
        toBytes_loop s 0 hs = bs \<and> length bs = length s + n)"

subsection \<open>Big-endian integers\<close>

lemma be_bytes_pos: "0 < n \<Longrightarrow> be_bytes n = be_bytes (n div 256) @ [word_of_nat n]"
  by (subst be_bytes.simps) simp

lemma be_bytes_0 [simp]: "be_bytes 0 = []"
  by (simp add: be_bytes.simps)

lemma be_bytes_Nil_iff [simp]: "be_bytes n = [] \<longleftrightarrow> n = 0"
  by (cases "n = 0") (simp_all add: be_bytes_pos)

lemma hd_be_bytes: "0 < n \<Longrightarrow> hd (be_bytes n) \<noteq> 0"
proof (induction n rule: be_bytes.induct)
  case (1 n)
  show ?case
  proof (cases "n div 256 = 0")
    case True
    then have n: "n < 2 ^ 8" by auto
    have "unat (word_of_nat n :: byte) = n"
      using n by (simp add: unsigned_of_nat take_bit_nat_eq_self)
    then have "(word_of_nat n :: byte) \<noteq> 0" using 1(2) by (metis unat_0 less_irrefl)
    then show ?thesis using True 1(2) by (simp add: be_bytes_pos [of n])
  next
    case False
    then show ?thesis using 1 by (simp add: be_bytes_pos [of n] hd_append)
  qed
qed

lemma putint_be_bytes: "0 < n \<Longrightarrow> n < 2 ^ 64 \<Longrightarrow> putint n = be_bytes n"
  unfolding putint_def Let_def
  by (auto simp: be_bytes_pos div_mult2_eq [symmetric] div_greater_zero_iff)

lemma length_be_bytes_intsize: "0 < n \<Longrightarrow> length (be_bytes n) = intsize n"
  by (induction n rule: intsize.induct)
    (auto simp: be_bytes_pos intsize.simps)

lemma length_be_bytes_uint64: "n < 2 ^ 64 \<Longrightarrow> length (be_bytes n) \<le> 8"
  by (simp add: length_be_bytes_le)

subsection \<open>The encoder writes the format\<close>

lemma lh_offset_shift [simp]: "lh_offset (shift_head n h) = n + lh_offset h"
  and lh_size_shift [simp]: "lh_size (shift_head n h) = lh_size h"
  and shift_head_shift [simp]: "shift_head n (shift_head m h) = shift_head (n + m) h"
  and listhead_encode_shift [simp]: "listhead_encode (shift_head n h) = listhead_encode h"
  by (simp_all add: shift_head_def listhead_encode_def)

lemma shift_head_0 [simp]: "shift_head 0 h = h"
  by (simp add: shift_head_def)

lemma toBytes_loop_shift:
  "toBytes_loop (s @ t) (length s + p) (map (shift_head (length s)) hs) = toBytes_loop t p hs"
  by (induction hs arbitrary: p) (simp_all add: add.assoc)

lemma toBytes_loop_catch_up:
  assumes "p \<le> length s"
  shows "toBytes_loop (s @ t) p (map (shift_head (length s)) hs) = drop p s @ toBytes_loop t 0 hs"
proof (cases hs)
  case Nil
  then show ?thesis using assms by simp
next
  case (Cons h hs')
  have n: "length s + lh_offset h - p - length (drop p s) = lh_offset h" using assms by simp
  have "p + (length s - p + min (length t) (lh_offset h)) = length s + min (length t) (lh_offset h)"
    using assms by simp
  then show ?thesis
    using assms toBytes_loop_shift [of s t "min (length t) (lh_offset h)" hs']
    by (simp add: Cons min_def split: if_splits)
qed

lemma toBytes_loop_append:
  assumes "p \<le> length s" "sorted (map lh_offset hs)" "\<forall>h \<in> set hs. p \<le> lh_offset h \<and> lh_offset h \<le> length s"
  shows "toBytes_loop (s @ t) p (hs @ map (shift_head (length s)) hs') = toBytes_loop s p hs @ toBytes_loop t 0 hs'"
  using assms
proof (induction hs arbitrary: p)
  case Nil
  then show ?case by (simp add: toBytes_loop_catch_up)
next
  case (Cons h hs)
  then have "lh_offset h \<le> length s" "p \<le> lh_offset h" by auto
  then have "min (length s - p) (lh_offset h - p) = lh_offset h - p" by simp
  then show ?case using Cons by (simp add: min_absorb2)
qed

lemma emits_trans: "emits w w1 b1 \<Longrightarrow> emits w1 w2 b2 \<Longrightarrow> emits w w2 (b1 @ b2)"
proof -
  assume a: "emits w w1 b1" and b: "emits w1 w2 b2"
  obtain s hs n where w1: "w1 = \<lparr>eb_str = eb_str w @ s,
      eb_lheads = eb_lheads w @ map (shift_head (length (eb_str w))) hs, eb_lhsize = eb_lhsize w + n\<rparr>"
    and 1: "sorted (map lh_offset hs)" "\<forall>h \<in> set hs. lh_offset h \<le> length s"
      "toBytes_loop s 0 hs = b1" "length b1 = length s + n"
    using a unfolding emits_def by blast
  obtain t gs m where w2: "w2 = \<lparr>eb_str = eb_str w1 @ t,
      eb_lheads = eb_lheads w1 @ map (shift_head (length (eb_str w1))) gs, eb_lhsize = eb_lhsize w1 + m\<rparr>"
    and 2: "sorted (map lh_offset gs)" "\<forall>h \<in> set gs. lh_offset h \<le> length t"
      "toBytes_loop t 0 gs = b2" "length b2 = length t + m"
    using b unfolding emits_def by blast
  let ?hs = "hs @ map (shift_head (length s)) gs"
  have "sorted (map lh_offset (map (shift_head (length s)) gs))"
    using 2(1) by (simp add: sorted_map comp_def sorted_wrt_map)
  then have "sorted (map lh_offset ?hs)"
    using 1(1,2) by (auto simp: sorted_append intro: trans_le_add1)
  moreover have "toBytes_loop (s @ t) 0 ?hs = b1 @ b2"
    using toBytes_loop_append [of 0 s hs t gs] 1 2 by simp
  moreover have "\<forall>h \<in> set ?hs. lh_offset h \<le> length (s @ t)"
    using 1(2) 2(2) by auto
  ultimately show ?thesis
    unfolding emits_def using 1(4) 2(4)
    by (intro exI [of _ "s @ t"] exI [of _ ?hs] exI [of _ "n + m"]) (simp add: w1 w2)
qed

lemma emits_put_str: "emits w (put_str b w) b"
  unfolding emits_def
  by (intro exI [of _ b] exI [of _ "[]"] exI [of _ 0]) (simp add: put_str_def)

lemma emits_refl: "emits w w []"
  using emits_put_str [of w "[]"] by (simp add: put_str_def)

lemma length_puthead: "n < 2 ^ 64 \<Longrightarrow> length (puthead t l n) = headsize n"
  by (simp add: puthead_def headsize_def Let_def putint_be_bytes length_be_bytes_intsize)

lemma emits_list:
  assumes e: "emits (fst (encbuf_list w)) w2 c" and c: "length c < 2 ^ 64"
  shows "emits w (listEnd (snd (encbuf_list w)) w2) (enc_list c)"
proof -
  let ?w1 = "fst (encbuf_list w)" and ?k = "length (eb_str w)"
  obtain s hs n where w2: "w2 = \<lparr>eb_str = eb_str ?w1 @ s,
      eb_lheads = eb_lheads ?w1 @ map (shift_head (length (eb_str ?w1))) hs, eb_lhsize = eb_lhsize ?w1 + n\<rparr>"
    and 1: "sorted (map lh_offset hs)" "\<forall>h \<in> set hs. lh_offset h \<le> length s"
      "toBytes_loop s 0 hs = c" "length c = length s + n"
    using e unfolding emits_def by blast
  let ?h = "\<lparr>lh_offset = 0, lh_size = length c\<rparr>"
  have "toBytes_loop s 0 (?h # hs) = enc_list c"
    using 1(3) by (simp add: listhead_encode_def enc_list_def)
  moreover have "length (enc_list c) = length s + (n + headsize (length c))"
    using 1(4) c by (simp add: enc_list_def length_puthead)
  ultimately show ?thesis
    unfolding emits_def using 1
    by (intro exI [of _ s] exI [of _ "?h # hs"] exI [of _ "n + headsize (length c)"])
      (simp add: w2 listEnd_def encbuf_list_def encbuf_size_def Let_def headsize_def shift_head_def)
qed

lemma encodeString_emits: "emits w (encodeString b w) (enc_str b)"
proof -
  have "encodeString b w = put_str (enc_str b) w"
    by (simp add: encodeString_def enc_str_def encodeStringHeader_def puthead_def put_str_def Let_def)
  then show ?thesis by (simp add: emits_put_str)
qed

lemma writeUint_emits: "emits w (writeUint i w) (enc_str (be_bytes (unat i)))"
proof -
  have b: "unat i < 2 ^ 64" using unsigned_less [of i] by simp
  have "writeUint i w = put_str (enc_str (be_bytes (unat i))) w"
  proof (cases "i = 0")
    case True
    then show ?thesis by (simp add: writeUint_def enc_str_def puthead_def)
  next
    case False
    then have p: "0 < unat i" by (simp add: unat_gt_0)
    show ?thesis
    proof (cases "unat i < 256")
      case True
      then have one: "be_bytes (unat i) = [word_of_nat (unat i)]"
        using p by (simp add: be_bytes_pos)
      have u: "unat (word_of_nat (unat i) :: byte) = unat i"
        using True by (simp only: unsigned_of_nat) (simp add: take_bit_nat_eq_self)
      have "i < 128 \<longleftrightarrow> (word_of_nat (unat i) :: byte) \<le> 0x7F"
        by (simp only: word_less_nat_alt word_le_nat_alt u) auto
      then show ?thesis
        using False p b one
        by (simp add: writeUint_def enc_str_def puthead_def Let_def putint_be_bytes)
    next
      case big: False
      then have "\<not> i < 128" by (simp add: word_less_nat_alt)
      moreover have "2 \<le> length (be_bytes (unat i))"
        using big length_be_bytes_le [of "unat i" 1] by simp
      ultimately show ?thesis
        using False p b length_be_bytes_uint64 [OF b]
        by (simp add: writeUint_def enc_str_def puthead_def Let_def putint_be_bytes)
    qed
  qed
  then show ?thesis by (simp add: emits_put_str)
qed

lemma writeBool_emits: "emits w (writeBool b w) (enc_str (if b then [1] else []))"
  using emits_put_str [of w "[1]"] emits_put_str [of w "[0x80]"]
  by (simp add: writeBool_def enc_str_def puthead_def word_le_nat_alt)

lemma writeBigInt_emits:
  "0 \<le> i \<Longrightarrow> \<exists>w'. writeBigInt i w = Inr w' \<and> emits w w' (enc_str (Bytes i))"
  using emits_put_str [of w "[0x80]"] encodeString_emits [of w "Bytes i"]
  by (auto simp: writeBigInt_def enc_str_def puthead_def Bytes_def)

lemma length_concat_member: "v \<in> set vs \<Longrightarrow> length (f v) \<le> length (concat (map f vs))"
  by (induction vs) auto

lemma writer_emits:
  "encodable v \<Longrightarrow> length (encoding v) < 2 ^ 64 \<Longrightarrow> \<exists>w'. writer v w = Inr w' \<and> emits w w' (encoding v)"
  "\<forall>v \<in> set vs. encodable v \<Longrightarrow> length (concat (map encoding vs)) < 2 ^ 64 \<Longrightarrow>
     \<exists>w'. slice_writer vs w = Inr w' \<and> emits w w' (concat (map encoding vs))"
proof (induction v w and vs w rule: writer_slice_writer.induct)
  case (6 vs w)
  obtain w1 lh where l: "encbuf_list w = (w1, lh)" by (cases "encbuf_list w")
  have len: "length (concat (map encoding vs)) < 2 ^ 64"
    using 6(3) by (simp add: enc_list_def)
  obtain w2 where "slice_writer vs w1 = Inr w2" "emits w1 w2 (concat (map encoding vs))"
    using 6(1) [OF l [symmetric] refl] 6(2) len by auto
  then show ?case using emits_list [of w w2, OF _ len] l by simp
next
  case (9 v vs w)
  obtain w1 where w1: "writer v w = Inr w1" "emits w w1 (encoding v)" using 9(1,3,4) by fastforce
  obtain w2 where w2: "slice_writer vs w1 = Inr w2" "emits w1 w2 (concat (map encoding vs))"
    using 9(2) [OF w1(1)] 9(3,4) by fastforce
  show ?case using w1 w2 emits_trans [OF w1(2) w2(2)] by simp
qed (simp_all add: writeUint_emits writeBool_emits writeBigInt_emits encodeString_emits emits_put_str
       emits_refl)

lemma writer_total:
  "if encodable v then \<exists>w'. writer v w = Inr w' else writer v w = Inl ErrNegativeBig"
  "if \<forall>v \<in> set vs. encodable v then \<exists>w'. slice_writer vs w = Inr w'
   else slice_writer vs w = Inl ErrNegativeBig"
proof (induction v w and vs w rule: writer_slice_writer.induct)
  case (6 vs w)
  obtain w1 lh where l: "encbuf_list w = (w1, lh)" by (cases "encbuf_list w")
  show ?case using 6 [OF l [symmetric] refl] by (auto simp: l split: if_splits)
qed (auto simp: writeBigInt_def split: if_splits)

lemma EncodeToBytes_writes:
  assumes "encodable v" "length (encoding v) < 2 ^ 64"
  shows "EncodeToBytes v = Inr (encoding v)"
proof -
  obtain w' where w: "writer v encbuf_empty = Inr w'" "emits encbuf_empty w' (encoding v)"
    using writer_emits(1) [OF assms] by blast
  then have "toBytes w' = encoding v"
    by (auto simp: emits_def encbuf_empty_def toBytes_def shift_head_def cong: map_cong)
  then show ?thesis using w(1) by (simp add: EncodeToBytes_def)
qed

text \<open>
  C32. The buffered encoder writes the RLP format: for a value without negative integers, whose
  encoding fits the address space, \<open>EncodeToBytes\<close> returns exactly the recursive encoding, with
  the list headers that were recorded out of line merged back at the right places and with the
  right sizes.
\<close>

theorem EncodeToBytes_encoding:
  assumes "encodable v" "length (encoding v) < 2 ^ 64"
  shows "EncodeToBytes v = Inr (encoding v)"
  using assms by (rule EncodeToBytes_writes)

theorem EncodeToBytes_encoding_witness:
  "EncodeToBytes (VList [VUint 1024, VList [VBool True], VBytes (replicate 60 7)]) =
     Inr ([0xF8, 0x43, 0x82, 4, 0, 0xC1, 1, 0xB8, 60] @ replicate 60 7)"
proof -
  have e: "encoding (VList [VUint 1024, VList [VBool True], VBytes (replicate 60 7)]) =
      [0xF8, 0x43, 0x82, 4, 0, 0xC1, 1, 0xB8, 60] @ replicate 60 7"
    by code_simp
  show ?thesis
    using EncodeToBytes_encoding [of "VList [VUint 1024, VList [VBool True], VBytes (replicate 60 7)]"]
    by (simp only: e) simp
qed

lemma EncodeToBytes_rejects: "\<not> encodable v \<Longrightarrow> EncodeToBytes v = Inl ErrNegativeBig"
  using writer_total(1) [of v encbuf_empty] by (simp add: EncodeToBytes_def)

subsection \<open>The splitter undoes the encoder\<close>

lemma readSize_be_bytes:
  assumes "56 \<le> n"
  shows "readSize (be_bytes n @ r) (length (be_bytes n)) = Inr n"
proof -
  have "be_bytes n \<noteq> []" using assms by simp
  then have "(be_bytes n @ r) ! 0 = hd (be_bytes n)" by (cases "be_bytes n") simp_all
  then show ?thesis using assms hd_be_bytes [of n] by (simp add: readSize_def)
qed

lemma unat_tag:
  fixes t :: byte
  assumes "unat t + k < 256"
  shows "unat (t + word_of_nat k) = unat t + k"
proof -
  have "unat (word_of_nat k :: byte) = k" using assms by (simp add: unsigned_of_nat take_bit_nat_eq_self)
  then show ?thesis using assms by (simp add: unat_word_ariths)
qed

lemmas tag_arith = word_less_nat_alt word_le_nat_alt unat_tag

lemma be_bytes_len_bounds:
  assumes "56 \<le> n" "n < 2 ^ 64"
  shows "1 \<le> length (be_bytes n)" "length (be_bytes n) \<le> 8"
  using assms length_be_bytes_uint64 [of n] by (cases "be_bytes n"; simp)+

lemma readKind_long:
  assumes n: "56 \<le> length c" "length c < 2 ^ 64" and t: "t = 0xB7 \<or> t = 0xF7"
  shows "readKind ((t + word_of_nat (length (be_bytes (length c)))) # be_bytes (length c) @ c @ rest) =
    Done (Inr (if t = 0xB7 then KString else KList, Suc (length (be_bytes (length c))), length c))"
  (is "readKind (?b # _) = _")
proof -
  let ?k = "length (be_bytes (length c))"
  note k = be_bytes_len_bounds [OF n]
  have ne: "c \<noteq> []" using n by auto
  have u: "unat ?b = unat t + ?k" using t k by (intro unat_tag) auto
  have d: "?b - t = word_of_nat ?k" by simp
  have dk: "unat (?b - t) = ?k" unfolding d using k by (simp add: unsigned_of_nat take_bit_nat_eq_self)
  show ?thesis
    using t
  proof
    assume "t = 0xB7"
    then show ?thesis
      using u k dk n ne readSize_be_bytes [OF n(1), of "c @ rest"]
      by (simp add: readKind_def Let_def word_less_nat_alt)
  next
    assume "t = 0xF7"
    then show ?thesis
      using u k dk n ne readSize_be_bytes [OF n(1), of "c @ rest"]
      by (simp add: readKind_def Let_def word_less_nat_alt)
  qed
qed

lemma Split_enc_list: "length c < 2 ^ 64 \<Longrightarrow> Split (enc_list c @ rest) = Done (Inr (KList, c, rest))"
proof (cases "length c < 56")
  case True
  then have u: "unat (0xC0 + word_of_nat (length c) :: byte) = 0xC0 + length c" using unat_tag [of "0xC0" "length c"] by simp
  have "unat (word_of_nat (length c) :: byte) = length c"
    using True by (simp add: unsigned_of_nat take_bit_nat_eq_self)
  then show ?thesis
    using True u by (simp add: Split_def enc_list_def puthead_def readKind_def Let_def word_less_nat_alt)
next
  case False
  moreover assume n: "length c < 2 ^ 64"
  moreover have "putint (length c) = be_bytes (length c)" using False n by (intro putint_be_bytes) auto
  ultimately show ?thesis
    using readKind_long [of c "0xF7" rest] by (simp add: Split_def enc_list_def puthead_def Let_def)
qed

lemma Split_enc_str:
  assumes "length b < 2 ^ 64"
  shows "Split (enc_str b @ rest) =
    Done (Inr (if length b = 1 \<and> b ! 0 \<le> 0x7F then KByte else KString, b, rest))"
proof -
  consider (byte) c where "b = [c]" "c \<le> 0x7F" | (short) "length b < 56" "\<not> (length b = 1 \<and> b ! 0 \<le> 0x7F)"
    | (long) "56 \<le> length b"
    by (metis (no_types, lifting) One_nat_def length_0_conv length_Suc_conv not_less nth_Cons_0)
  then show ?thesis
  proof cases
    case byte
    then show ?thesis by (simp add: Split_def enc_str_def readKind_def word_less_nat_alt word_le_nat_alt)
  next
    case short
    have u: "unat (0x80 + word_of_nat (length b) :: byte) = 0x80 + length b"
      using short unat_tag [of "0x80" "length b"] by simp
    have v: "unat (word_of_nat (length b) :: byte) = length b"
      using short by (simp add: unsigned_of_nat take_bit_nat_eq_self)
    show ?thesis
      using short u v
      by (cases b) (auto simp: Split_def enc_str_def puthead_def readKind_def Let_def word_less_nat_alt
          word_le_nat_alt)
  next
    case long
    then have "putint (length b) = be_bytes (length b)" using assms by (intro putint_be_bytes) auto
    then show ?thesis
      using long assms readKind_long [of b "0xB7" rest]
      by (simp add: Split_def enc_str_def puthead_def Let_def)
  qed
qed

lemma readKind_progress:
  "readKind b = Done (Inr (k, ts, cs)) \<Longrightarrow> 0 < ts + cs \<and> ts + cs \<le> length b"
  "readKind b \<noteq> OutOfFuel"
  by (auto simp: readKind_def readSize_def Let_def split: list.splits if_splits sum.splits)

lemma tag_81: "unat (x - 0x80) = Suc 0 \<longleftrightarrow> x = 0x81" for x :: byte
proof -
  have "unat (x - 0x80) = Suc 0 \<longleftrightarrow> x - 0x80 = 1"
    by (simp add: word_unat_eq_iff)
  then show ?thesis by (simp add: diff_eq_eq)
qed

lemma readKind_panics: "readKind b = Panic \<longleftrightarrow> b = [0x81]"
  by (cases b; cases "tl b")
    (auto simp: readKind_def Let_def tag_81 word_less_nat_alt split: if_splits sum.splits)

lemma Split_encoding:
  assumes "self_delimiting v" "length (encoding v) < 2 ^ 64"
  shows "Split (encoding v @ rest) = Done (Inr (kind_of v, payload v, rest))"
proof -
  have s: "length b < 2 ^ 64" if "length (enc_str b) < 2 ^ 64" for b
    using that by (simp add: enc_str_def split: if_splits)
  have l: "length c < 2 ^ 64" if "length (enc_list c) < 2 ^ 64" for c
    using that by (simp add: enc_list_def)
  show ?thesis
    using assms by (cases v) (simp_all add: Split_enc_str [OF s] Split_enc_list [OF l])
qed

lemma readKind_of_Split:
  assumes "Split b = Done (Inr (k, c, rest))"
  obtains ts cs where "readKind b = Done (Inr (k, ts, cs))" "c = take cs (drop ts b)" "rest = drop (ts + cs) b"
  using assms by (cases "readKind b") (auto simp: Split_def split: sum.splits prod.splits)

lemma CountValues_loop_step:
  assumes "readKind b = Done (Inr (k, ts, cs))"
  shows "CountValues_loop b i = CountValues_loop (drop (ts + cs) b) (i + 1)"
  using assms readKind_progress(1) [OF assms] by (subst CountValues_loop.simps) auto

lemma CountValues_loop_concat:
  assumes "\<forall>v \<in> set vs. self_delimiting v" "length (concat (map encoding vs)) < 2 ^ 64"
  shows "CountValues_loop (concat (map encoding vs)) i = Done (Inr (i + length vs))"
  using assms
proof (induction vs arbitrary: i)
  case Nil
  then show ?case by (simp add: CountValues_loop.simps)
next
  case (Cons v vs)
  let ?r = "concat (map encoding vs)"
  have "Split (encoding v @ ?r) = Done (Inr (kind_of v, payload v, ?r))"
    using Cons.prems by (intro Split_encoding) simp_all
  then obtain ts cs where k: "readKind (encoding v @ ?r) = Done (Inr (kind_of v, ts, cs))"
    "?r = drop (ts + cs) (encoding v @ ?r)"
    by (rule readKind_of_Split) blast
  have "CountValues_loop (encoding v @ ?r) i = CountValues_loop (drop (ts + cs) (encoding v @ ?r)) (i + 1)"
    by (rule CountValues_loop_step [OF k(1)])
  also have "\<dots> = CountValues_loop ?r (i + 1)"
    using k(2) by simp
  finally show ?case using Cons by simp
qed

lemma CountValues_loop_returns: "CountValues_loop b i \<noteq> OutOfFuel"
proof (induction b i rule: CountValues_loop.induct)
  case (1 b i)
  show ?case
    using 1 readKind_progress(1) [of b] readKind_progress(2) [of b]
    by (subst CountValues_loop.simps) (auto split: outcome.splits sum.splits)
qed

lemma be_bytes_be_nat:
  assumes "xs = [] \<or> hd xs \<noteq> 0"
  shows "be_bytes (be_nat 0 xs) = xs"
  using assms
proof (induction xs rule: rev_induct)
  case (snoc x xs)
  have v: "be_nat 0 (xs @ [x]) = be_nat 0 xs * 256 + unat x" by (simp add: be_nat_append)
  have x: "unat x < 256" using unsigned_less [of x] by simp
  have "0 < be_nat 0 (xs @ [x])"
  proof (cases xs)
    case Nil
    then show ?thesis using snoc.prems by (simp add: unat_gt_0)
  next
    case (Cons y ys)
    then have "be_bytes (be_nat 0 xs) = xs" using snoc by simp
    then have "be_nat 0 xs \<noteq> 0" using Cons by (metis be_bytes_0 list.distinct(1))
    then show ?thesis using v by simp
  qed
  then have "be_bytes (be_nat 0 (xs @ [x])) = be_bytes (be_nat 0 xs) @ [word_of_nat (be_nat 0 (xs @ [x]))]"
    using v x by (simp add: be_bytes_pos)
  also have "(word_of_nat (be_nat 0 (xs @ [x])) :: byte) = x"
    using x by (simp only: v word_unat_eq_iff unsigned_of_nat take_bit_eq_mod) simp
  finally show ?case using snoc by (cases xs) auto
qed simp

lemma readSize_accepts:
  assumes "readSize b n = Inr s" "0 < n" "n \<le> 8"
  shows "56 \<le> s" "s < 2 ^ 64" "be_bytes s = take n b" "n \<le> length b"
proof -
  have b: "n \<le> length b" and s: "s = be_nat 0 (take n b)" and 56: "56 \<le> s" and nz: "b ! 0 \<noteq> 0"
    using assms(1) by (auto simp: readSize_def Let_def split: if_splits)
  have "hd (take n b) \<noteq> 0" using assms(2) b nz by (cases b; cases n) auto
  then show "be_bytes s = take n b" using s by (simp add: be_bytes_be_nat)
  have "s < 256 ^ n" using be_nat_bound [of "take n b"] s b by simp
  also have "(256::nat) ^ n \<le> 256 ^ 8" using assms(3) by (intro power_increasing) auto
  finally show "s < 2 ^ 64" by simp
qed (use assms(1) in \<open>auto simp: readSize_def Let_def split: if_splits\<close>)

lemma readKind_long_canonical:
  assumes r: "readSize rest (unat (b - t)) = Inr cs" and n: "0 < unat (b - t)" "unat (b - t) \<le> 8"
    and cs: "cs \<le> length rest - unat (b - t)"
  shows "b # rest = puthead u t (length (take cs (drop (unat (b - t)) rest))) @
    take cs (drop (unat (b - t)) rest) @ drop (unat (b - t) + cs) rest"
proof -
  note a = readSize_accepts [OF r n]
  have len: "length (take cs (drop (unat (b - t)) rest)) = cs" using cs by simp
  have p: "putint cs = take (unat (b - t)) rest" using a by (simp add: putint_be_bytes)
  have "puthead u t cs = b # take (unat (b - t)) rest"
    using a(1,4) p by (simp add: puthead_def Let_def min_def)
  then show ?thesis
    unfolding len by (metis append_Cons append_take_drop_id drop_drop add.commute)
qed

lemma puthead_short:
  fixes x t :: byte
  assumes "unat (x - t) < 56"
  shows "puthead t u (unat (x - t)) = [x]"
  using assms by (simp add: puthead_def)

text \<open>
  C34. The splitter accepts only canonical encodings: whatever bytes it splits successfully are
  the encoding of the content it returns followed by the rest it returns, so no two different
  encodings of one string or list are accepted.
\<close>

theorem Split_canonical:
  assumes "Split b = Done (Inr (k, c, rest))"
  shows "b = (if k = KList then enc_list c else enc_str c) @ rest"
proof -
  obtain x r where b: "b = x # r" using assms by (cases b) (auto simp: Split_def readKind_def)
  obtain ts cs where rk: "readKind b = Done (Inr (k, ts, cs))"
    and c: "c = take cs (drop ts b)" and rest: "rest = drop (ts + cs) b"
    using assms by (rule readKind_of_Split)
  have le: "cs \<le> length b - ts" using readKind_progress(1) [OF rk] by auto
  then have len: "length c = cs" using c by simp
  have tags: "enc_str c = puthead 0x80 0xB7 cs @ c" if "\<not> (cs = 1 \<and> c ! 0 \<le> 0x7F)"
    using that len by (auto simp: enc_str_def)
  consider "x < 0x80" | "\<not> x < 0x80" "x < 0xB8" | "\<not> x < 0xB8" "x < 0xC0"
    | "\<not> x < 0xC0" "x < 0xF8" | "\<not> x < 0xF8" by blast
  then show ?thesis
  proof cases
    case 1
    then have "k = KByte" "ts = 0" "cs = 1" using rk b by (auto simp: readKind_def split: if_splits)
    then show ?thesis using c rest b 1 by (simp add: enc_str_def word_less_nat_alt word_le_nat_alt)
  next
    case 2
    then have k: "k = KString" "ts = 1" "cs = unat (x - 0x80)"
      and one: "cs = 1 \<Longrightarrow> r \<noteq> [] \<and> \<not> hd r < 128"
      using rk b by (auto simp: readKind_def Let_def split: if_splits list.splits)
    have "cs < 56" using 2 k(3) by (simp add: unat_sub word_less_nat_alt word_le_nat_alt)
    then have h: "puthead 0x80 0xB7 cs = [x]" using k(3) puthead_short by simp
    have "\<not> (cs = 1 \<and> c ! 0 \<le> 0x7F)"
      using one c b k(2) by (cases r) (auto simp: word_less_nat_alt word_le_nat_alt)
    then have "enc_str c = x # c" using tags h by simp
    then show ?thesis using k c rest b by simp
  next
    case 3
    have u: "unat (x - 0xB7) = unat x - 0xB7" using 3 by (simp add: unat_sub word_less_nat_alt word_le_nat_alt)
    have k: "k = KString" "ts = unat (x - 0xB7) + 1" and rs: "readSize r (unat (x - 0xB7)) = Inr cs"
      using rk b 3 by (auto simp: readKind_def Let_def word_less_nat_alt split: if_splits list.splits sum.splits)
    have n: "0 < unat (x - 0xB7)" "unat (x - 0xB7) \<le> 8" using u 3 by (auto simp: word_less_nat_alt)
    have ne: "cs \<noteq> 1" using readSize_accepts(1) [OF rs n] by simp
    have cr: "c = take cs (drop (unat (x - 0xB7)) r)" "rest = drop (unat (x - 0xB7) + cs) r"
      using c rest b k by simp_all
    have "cs \<le> length r - unat (x - 0xB7)" using le b k by simp
    from readKind_long_canonical [OF rs n this, of "0x80", folded cr] have "b = puthead 0x80 0xB7 cs @ c @ rest"
      using b len by simp
    then show ?thesis using ne k tags by simp
  next
    case 4
    then have k: "k = KList" "ts = 1" "cs = unat (x - 0xC0)"
      using rk b by (auto simp: readKind_def Let_def word_less_nat_alt split: if_splits list.splits)
    have "cs < 56" using 4 k(3) by (simp add: unat_sub word_less_nat_alt word_le_nat_alt)
    then show ?thesis using k c rest b puthead_short [of x "0xC0" "0xF7"] len by (simp add: enc_list_def)
  next
    case 5
    have u: "unat (x - 0xF7) = unat x - 0xF7" using 5 by (simp add: unat_sub word_less_nat_alt word_le_nat_alt)
    have k: "k = KList" "ts = unat (x - 0xF7) + 1" and rs: "readSize r (unat (x - 0xF7)) = Inr cs"
      using rk b 5 by (auto simp: readKind_def Let_def word_less_nat_alt split: if_splits list.splits sum.splits)
    have "unat x < 256" using unsigned_less [of x] by simp
    moreover have "248 \<le> unat x" using 5 by (simp add: word_less_nat_alt)
    ultimately have n: "0 < unat (x - 0xF7)" "unat (x - 0xF7) \<le> 8"
      using u by linarith+
    have cr: "c = take cs (drop (unat (x - 0xF7)) r)" "rest = drop (unat (x - 0xF7) + cs) r"
      using c rest b k by simp_all
    have "cs \<le> length r - unat (x - 0xF7)" using le b k by simp
    from readKind_long_canonical [OF rs n this, of "0xC0", folded cr] have "b = puthead 0xC0 0xF7 cs @ c @ rest"
      using b len by simp
    then show ?thesis using k len by (simp add: enc_list_def)
  qed
qed

theorem Split_canonical_witness: "[0x82, 4, 0, 9] = enc_str [4, 0] @ [9 :: byte]"
proof -
  have e: "Split [0x82, 4, 0, 9] = Done (Inr (KString, [4, 0], [9]))" by code_simp
  show ?thesis using Split_canonical [OF e] by simp
qed

text \<open>
  C33. Splitting undoes encoding: the bytes that \<open>EncodeToBytes\<close> returns for a string, integer or
  list, followed by anything, split into the kind and payload of that value and exactly what
  followed.
\<close>

theorem Split_EncodeToBytes:
  assumes "encodable v" "self_delimiting v" "length (encoding v) < 2 ^ 64" "EncodeToBytes v = Inr bs"
  shows "Split (bs @ rest) = Done (Inr (kind_of v, payload v, rest))"
proof -
  obtain w' where w: "writer v encbuf_empty = Inr w'" "emits encbuf_empty w' (encoding v)"
    using writer_emits(1) [OF assms(1,3)] by blast
  have "toBytes w' = encoding v"
    using w(2) by (auto simp: emits_def encbuf_empty_def toBytes_def shift_head_def cong: map_cong)
  then have "bs = encoding v" using w(1) assms(4) by (simp add: EncodeToBytes_def)
  then show ?thesis using assms by (simp add: Split_encoding)
qed

theorem Split_EncodeToBytes_witness:
  "Split ([0xC3, 0x82, 4, 0] @ [9, 9]) = Done (Inr (KList, [0x82, 4, 0], [9, 9]))"
proof -
  have e: "EncodeToBytes (VList [VBytes [4, 0]]) = Inr [0xC3, 0x82, 4, 0]" by code_simp
  have c: "encoding (VList [VBytes [4, 0]]) = [0xC3, 0x82, 4, 0]" by code_simp
  have n: "length (encoding (VList [VBytes [4, 0]])) < 2 ^ 64" by (simp only: c) simp
  have p: "payload (VList [VBytes [4, 0]]) = [0x82, 4, 0]" by code_simp
  show ?thesis
    using Split_EncodeToBytes [of "VList [VBytes [4, 0]]", OF _ _ n e, of "[9, 9]"] by (simp only: p) simp
qed




end
