(* ===== verification/EVM_Precompiles.thy ===== *)
theory EVM_Precompiles
  imports EVM_Gas Rlp
begin

text \<open>
  The precompiled contracts (\<open>src/vm/solc/contracts.go\<close>), with the address derivation and the
  signature check of \<open>src/common/crypto/crypto.go\<close>. The hash functions and the elliptic curves they
  call are the parameter \<open>NativeCrypto\<close>; Keccak-256 is the one of the database.
\<close>

subsection \<open>Helpers of crypto.go\<close>

definition CreateAddress :: "(bytes \<Rightarrow> Hash) \<Rightarrow> Address \<Rightarrow> uint64 \<Rightarrow> Address" where
  \<comment> \<open>the error of the encoder is dropped, as in the source\<close>
  "CreateAddress keccak b nonce =
     (let data = (case EncodeToBytes (VList [VBytes (Address_Bytes b), VUint nonce]) of
                    Inl _ \<Rightarrow> [] | Inr d \<Rightarrow> d)
      in BytesToAddress (drop 12 (Hash_Bytes (keccak data))))"

definition secp256k1_N :: int where
  "secp256k1_N = 0xfffffffffffffffffffffffffffffffebaaedce6af48a03bbfd25e8cd0364141"

definition secp256k1_halfN :: int where
  "secp256k1_halfN = secp256k1_N div 2"

definition ValidateSignatureValues :: "byte \<Rightarrow> int \<Rightarrow> int \<Rightarrow> bool \<Rightarrow> bool" where
  "ValidateSignatureValues v r s homestead =
     (if r < 1 \<or> s < 1 then False
      else if homestead \<and> s > secp256k1_halfN then False
      else r < secp256k1_N \<and> s < secp256k1_N \<and> (v = 0 \<or> v = 1))"

subsection \<open>Prices\<close>

definition EcrecoverGas :: uint64 where "EcrecoverGas = 3000"
definition Sha256BaseGas :: uint64 where "Sha256BaseGas = 60"
definition Sha256PerWordGas :: uint64 where "Sha256PerWordGas = 12"
definition Ripemd160BaseGas :: uint64 where "Ripemd160BaseGas = 600"
definition Ripemd160PerWordGas :: uint64 where "Ripemd160PerWordGas = 120"
definition IdentityBaseGas :: uint64 where "IdentityBaseGas = 15"
definition IdentityPerWordGas :: uint64 where "IdentityPerWordGas = 3"
definition ModExpQuadCoeffDiv :: uint64 where "ModExpQuadCoeffDiv = 20"
definition Bn256AddGas :: uint64 where "Bn256AddGas = 500"
definition Bn256ScalarMulGas :: uint64 where "Bn256ScalarMulGas = 40000"
definition Bn256PairingBaseGas :: uint64 where "Bn256PairingBaseGas = 100000"
definition Bn256PairingPerPointGas :: uint64 where "Bn256PairingPerPointGas = 80000"

definition bn256_P :: int where
  "bn256_P = 21888242871839275222246405745257275088696311157297823662689037894645226208583"

subsection \<open>The contracts\<close>

datatype PrecompiledContract =
  ecrecover | sha256hash | ripemd160hash | dataCopy | bigModExp | bn256Add | bn256ScalarMul | bn256Pairing

definition PrecompiledContractsHomestead :: "Address \<Rightarrow> PrecompiledContract option" where
  "PrecompiledContractsHomestead =
     [BytesToAddress [1] \<mapsto> ecrecover, BytesToAddress [2] \<mapsto> sha256hash,
      BytesToAddress [3] \<mapsto> ripemd160hash, BytesToAddress [4] \<mapsto> dataCopy]"

definition PrecompiledContractsByzantium :: "Address \<Rightarrow> PrecompiledContract option" where
  "PrecompiledContractsByzantium =
     [BytesToAddress [1] \<mapsto> ecrecover, BytesToAddress [2] \<mapsto> sha256hash,
      BytesToAddress [3] \<mapsto> ripemd160hash, BytesToAddress [4] \<mapsto> dataCopy,
      BytesToAddress [5] \<mapsto> bigModExp, BytesToAddress [6] \<mapsto> bn256Add,
      BytesToAddress [7] \<mapsto> bn256ScalarMul, BytesToAddress [8] \<mapsto> bn256Pairing]"

definition perWord :: "bytes \<Rightarrow> uint64 \<Rightarrow> uint64 \<Rightarrow> uint64" where
  "perWord input price base = word_of_nat (length input + 31) div 32 * price + base"

definition mult_complexity :: "int \<Rightarrow> int" where
  "mult_complexity gas =
     (if gas \<le> 64 then gas * gas
      else if gas \<le> 1024 then (gas * gas) div 4 + (96 * gas - 3072)
      else (gas * gas) div 16 + (480 * gas - 199680))"

definition bigModExp_RequiredGas :: "bytes \<Rightarrow> uint64 outcome" where
  "bigModExp_RequiredGas input0 =
     obind (getData input0 0 32) (\<lambda>bl.
     obind (getData input0 32 32) (\<lambda>el.
     obind (getData input0 64 32) (\<lambda>ml.
       (let baseLen = SetBytes bl; expLen = SetBytes el; modLen = SetBytes ml;
            input = drop 96 input0
        in obind (if int (length input) \<le> baseLen then Done 0
                  else obind (getData input (bigUint64_value baseLen)
                                (if expLen > 32 then 32 else bigUint64_value expLen))
                         (\<lambda>d. Done (SetBytes d)))
             (\<lambda>expHead.
                (let bitlen = BitLen expHead;
                     msb = (if bitlen > 0 then bitlen - 1 else 0);
                     adjExpLen = (if expLen > 32 then 8 * (expLen - 32) else 0) + int msb;
                     gas = mult_complexity (BigMax modLen baseLen);
                     gas2 = gas * BigMax adjExpLen 1 div uint ModExpQuadCoeffDiv
                 in Done (if BitLen gas2 > 64 then MaxUint64 else bigUint64_value gas2)))))))"

fun RequiredGas :: "PrecompiledContract \<Rightarrow> bytes \<Rightarrow> uint64 outcome" where
  "RequiredGas ecrecover input = Done EcrecoverGas"
| "RequiredGas sha256hash input = Done (perWord input Sha256PerWordGas Sha256BaseGas)"
| "RequiredGas ripemd160hash input = Done (perWord input Ripemd160PerWordGas Ripemd160BaseGas)"
| "RequiredGas dataCopy input = Done (perWord input IdentityPerWordGas IdentityBaseGas)"
| "RequiredGas bigModExp input = bigModExp_RequiredGas input"
| "RequiredGas bn256Add input = Done Bn256AddGas"
| "RequiredGas bn256ScalarMul input = Done Bn256ScalarMulGas"
| "RequiredGas bn256Pairing input =
     Done (Bn256PairingBaseGas + word_of_nat (length input div 192) * Bn256PairingPerPointGas)"

definition ecrecover_Run :: "NativeCrypto \<Rightarrow> (bytes \<Rightarrow> Hash) \<Rightarrow> bytes \<Rightarrow> bytes" where
  "ecrecover_Run nv keccak input0 =
     (let input = RightPadBytes input0 128;
          r = SetBytes (take 32 (drop 64 input));
          s = SetBytes (take 32 (drop 96 input));
          v = input ! 63 - 27
      in if \<not> allZero (take 31 (drop 32 input)) \<or> \<not> ValidateSignatureValues v r s False then []
         else
           (case nv_Ecrecover nv (take 32 input) (take 64 (drop 64 input) @ [v]) of
              None \<Rightarrow> []
            | Some pubKey \<Rightarrow> LeftPadBytes (drop 12 (Hash_Bytes (keccak (drop 1 pubKey)))) 32))"

definition bigModExp_Run :: "bytes \<Rightarrow> bytes outcome" where
  "bigModExp_Run input0 =
     obind (getData input0 0 32) (\<lambda>bl.
     obind (getData input0 32 32) (\<lambda>el.
     obind (getData input0 64 32) (\<lambda>ml.
       (let baseLen = bigUint64_value (SetBytes bl); expLen = bigUint64_value (SetBytes el);
            modLen = bigUint64_value (SetBytes ml);
            input = drop 96 input0
        in if baseLen = 0 \<and> modLen = 0 then Done []
           else
             obind (getData input 0 baseLen) (\<lambda>b.
             obind (getData input baseLen expLen) (\<lambda>e.
             obind (getData input (baseLen + expLen) modLen) (\<lambda>m.
               (let base = SetBytes b; ex = SetBytes e; md = SetBytes m
                in Done (if BitLen md = 0 then LeftPadBytes [] (nat (sint modLen))
                         else LeftPadBytes (Bytes (base ^ nat ex mod md)) (nat (sint modLen)))))))))))"

definition newCurvePoint :: "NativeCrypto \<Rightarrow> bytes \<Rightarrow> vm_error + G1" where
  "newCurvePoint nv blob =
     (let (p, onCurve) = nv_G1Unmarshal nv blob
      in if \<not> onCurve then Inl errNotOnCurve
         else (case p of (gx, gy, _, _) \<Rightarrow>
                 if gx \<ge> bn256_P \<or> gy \<ge> bn256_P then Inl errInvalidCurvePoint else Inr p))"

definition newTwistPoint :: "NativeCrypto \<Rightarrow> bytes \<Rightarrow> vm_error + G2" where
  "newTwistPoint nv blob =
     (let (p, onCurve) = nv_G2Unmarshal nv blob
      in if \<not> onCurve then Inl errNotOnCurve
         else (case p of ((xr, xi), (yr, yi), _, _) \<Rightarrow>
                 if xr \<ge> bn256_P \<or> xi \<ge> bn256_P \<or> yr \<ge> bn256_P \<or> yi \<ge> bn256_P
                 then Inl errInvalidCurvePoint else Inr p))"

definition bn256Add_Run :: "NativeCrypto \<Rightarrow> bytes \<Rightarrow> (bytes \<times> vm_error option) outcome" where
  "bn256Add_Run nv input =
     obind (getData input 0 64) (\<lambda>b1.
       (case newCurvePoint nv b1 of
          Inl err \<Rightarrow> Done ([], Some err)
        | Inr x \<Rightarrow>
            obind (getData input 64 64) (\<lambda>b2.
              (case newCurvePoint nv b2 of
                 Inl err \<Rightarrow> Done ([], Some err)
               | Inr y \<Rightarrow> Done (nv_G1Marshal nv (nv_G1Add nv x y), None)))))"

definition bn256ScalarMul_Run :: "NativeCrypto \<Rightarrow> bytes \<Rightarrow> (bytes \<times> vm_error option) outcome" where
  "bn256ScalarMul_Run nv input =
     obind (getData input 0 64) (\<lambda>b1.
       (case newCurvePoint nv b1 of
          Inl err \<Rightarrow> Done ([], Some err)
        | Inr p \<Rightarrow>
            obind (getData input 64 32) (\<lambda>k.
              Done (nv_G1Marshal nv (nv_G1ScalarMult nv p (SetBytes k)), None))))"

fun pairing_points :: "NativeCrypto \<Rightarrow> nat \<Rightarrow> bytes \<Rightarrow> vm_error + G1 list \<times> G2 list" where
  \<comment> \<open>the loop over the \<open>n\<close> chunks of 192 bytes\<close>
  "pairing_points nv 0 input = Inr ([], [])"
| "pairing_points nv (Suc n) input =
     (case newCurvePoint nv (take 64 input) of
        Inl err \<Rightarrow> Inl err
      | Inr c \<Rightarrow>
          (case newTwistPoint nv (take 128 (drop 64 input)) of
             Inl err \<Rightarrow> Inl err
           | Inr t \<Rightarrow>
               (case pairing_points nv n (drop 192 input) of
                  Inl err \<Rightarrow> Inl err
                | Inr (cs, ts) \<Rightarrow> Inr (c # cs, t # ts))))"

definition true32Byte :: bytes where "true32Byte = replicate 31 0 @ [1]"
definition false32Byte :: bytes where "false32Byte = replicate 32 0"

definition bn256Pairing_Run :: "NativeCrypto \<Rightarrow> bytes \<Rightarrow> bytes \<times> vm_error option" where
  "bn256Pairing_Run nv input =
     (if length input mod 192 > 0 then ([], Some errBadPairingInput)
      else
        (case pairing_points nv (length input div 192) input of
           Inl err \<Rightarrow> ([], Some err)
         | Inr (cs, ts) \<Rightarrow> if nv_PairingCheck nv cs ts then (true32Byte, None) else (false32Byte, None)))"

fun Run_precompile ::
  "NativeCrypto \<Rightarrow> (bytes \<Rightarrow> Hash) \<Rightarrow> PrecompiledContract \<Rightarrow> bytes \<Rightarrow> (bytes \<times> vm_error option) outcome" where
  "Run_precompile nv keccak ecrecover input = Done (ecrecover_Run nv keccak input, None)"
| "Run_precompile nv keccak sha256hash input = Done (nv_Sha256 nv input, None)"
| "Run_precompile nv keccak ripemd160hash input = Done (LeftPadBytes (nv_Ripemd160 nv input) 32, None)"
| "Run_precompile nv keccak dataCopy input = Done (input, None)"
| "Run_precompile nv keccak bigModExp input = obind (bigModExp_Run input) (\<lambda>r. Done (r, None))"
| "Run_precompile nv keccak bn256Add input = bn256Add_Run nv input"
| "Run_precompile nv keccak bn256ScalarMul input = bn256ScalarMul_Run nv input"
| "Run_precompile nv keccak bn256Pairing input = Done (bn256Pairing_Run nv input)"

definition RunPrecompiledContract ::
  "NativeCrypto \<Rightarrow> (bytes \<Rightarrow> Hash) \<Rightarrow> PrecompiledContract \<Rightarrow> bytes \<Rightarrow> Contract \<Rightarrow>
     (Contract \<times> bytes \<times> vm_error option) outcome" where
  "RunPrecompiledContract nv keccak p input contract =
     obind (RequiredGas p input) (\<lambda>gas.
       (let (c1, enough) = UseGas gas contract
        in if enough then obind (Run_precompile nv keccak p input) (\<lambda>(ret, err). Done (c1, ret, err))
           else Done (c1, [], Some ErrOutOfGas)))"

subsection \<open>The precompiled contracts return\<close>

lemma getData_returns:
  assumes "length data \<le> 2 ^ 40" "unat sz < 2 ^ 63 \<or> start = 0"
  shows "\<exists>d. getData data start sz = Done d"
proof -
  have len: "unat (word_of_nat (length data) :: uint64) = length data"
    using assms(1) by (simp add: unsigned_of_nat take_bit_nat_eq_self)
  define st where "st = (if start > word_of_nat (length data) then word_of_nat (length data) else start)"
  have st: "unat st \<le> length data"
    by (auto simp: st_def len word_less_nat_alt)
  have "\<not> (if st + sz > word_of_nat (length data) then word_of_nat (length data) else st + sz) < st"
  proof (cases "start = 0")
    case True
    then show ?thesis by (simp add: st_def)
  next
    case False
    then have "unat (st + sz) = unat st + unat sz"
      using st assms by (subst unat_word_ariths) simp
    then show ?thesis using st by (auto simp: word_less_nat_alt len)
  qed
  moreover have "\<exists>d. getData data start sz =
      (if (if st + sz > word_of_nat (length data) then word_of_nat (length data) else st + sz) < st then Panic
       else Done d)"
    unfolding getData_def Let_def st_def by (rule exI) (rule refl)
  ultimately show ?thesis by (simp only: if_False)
qed

lemma mult_complexity_ge: "1 \<le> x \<Longrightarrow> x \<le> mult_complexity x"
proof -
  assume x: "1 \<le> x"
  have "0 \<le> (x * x) div 4" "0 \<le> (x * x) div 16" by (simp_all add: pos_imp_zdiv_nonneg_iff)
  then show ?thesis using x by (auto simp: mult_complexity_def)
qed

lemma mult_complexity_large: "2 ^ 63 \<le> x \<Longrightarrow> 2 ^ 122 \<le> mult_complexity x"
proof -
  assume x: "2 ^ 63 \<le> x"
  then have "2 ^ 63 * 2 ^ 63 \<le> x * x" by (intro mult_mono) auto
  then have "(2 ^ 63 * 2 ^ 63) div 16 \<le> (x * x) div 16" by (rule zdiv_mono1) simp
  then show ?thesis using x by (simp add: mult_complexity_def)
qed

lemma modexp_gas_bound:
  assumes x: "1 \<le> x" and g: "mult_complexity x * BigMax a 1 div 20 < 2 ^ 61"
  shows "x < 2 ^ 63" "a < 20 * 2 ^ 61"
proof -
  let ?m = "BigMax a 1"
  have m: "1 \<le> ?m" "a \<le> ?m" by (simp_all add: BigMax_def)
  have lt: "mult_complexity x * ?m < 20 * 2 ^ 61" using g by linarith
  have "mult_complexity x \<le> mult_complexity x * ?m"
    using m(1) mult_complexity_ge [OF x] x by (simp add: mult_le_cancel_left1)
  then show "x < 2 ^ 63" using lt mult_complexity_large [of x] by (cases "x < 2 ^ 63") auto
  have "1 * ?m \<le> mult_complexity x * ?m"
    using m(1) mult_complexity_ge [OF x] x by (intro mult_right_mono) auto
  then show "a < 20 * 2 ^ 61" using lt m(2) by linarith
qed

lemma bigModExp_RequiredGas_returns:
  assumes "length input \<le> 2 ^ 40"
  shows "\<exists>g. bigModExp_RequiredGas input = Done g"
proof -
  have d: "length (drop 96 input) \<le> 2 ^ 40" using assms by simp
  have g: "\<exists>x. getData b st 32 = Done x" if "length b \<le> 2 ^ 40" for b st
    using getData_returns [OF that] by simp
  obtain bl el ml where "getData input 0 32 = Done bl" "getData input 32 32 = Done el" "getData input 64 32 = Done ml"
    using g [OF assms] by metis
  moreover have "\<exists>x. getData (drop 96 input) st (if SetBytes el > 32 then 32 else bigUint64_value (SetBytes el)) = Done x" for st
    using g [OF d] getData_returns [OF d, of "bigUint64_value (SetBytes el)" st]
    by (auto simp: bigUint64_value_def SetBytes_def unsigned_of_nat take_bit_nat_eq_self)
  ultimately show ?thesis
    by (auto simp: bigModExp_RequiredGas_def Let_def)
qed

lemma bigModExp_gas_sizes:
  assumes data: "getData input 0 32 = Done bl" "getData input 32 32 = Done el" "getData input 64 32 = Done ml"
    and g: "bigModExp_RequiredGas input = Done g" "unat g < 2 ^ 61"
    and ne: "SetBytes bl \<noteq> 0 \<or> SetBytes ml \<noteq> 0"
  shows "SetBytes ml < 2 ^ 63" "SetBytes el < 2 ^ 63"
proof -
  let ?B = "SetBytes bl" and ?E = "SetBytes el" and ?M = "SetBytes ml"
  have nn: "0 \<le> ?B" "0 \<le> ?E" "0 \<le> ?M" by (simp_all add: SetBytes_def)
  let ?x = "BigMax ?M ?B"
  have x: "1 \<le> ?x" "?M \<le> ?x" using nn ne by (auto simp: BigMax_def)
  obtain msb :: nat where "g = (let gas2 = mult_complexity ?x * BigMax ((if ?E > 32 then 8 * (?E - 32) else 0) + int msb) 1
      div uint ModExpQuadCoeffDiv in if BitLen gas2 > 64 then MaxUint64 else bigUint64_value gas2)"
    using g(1) data by (auto simp: bigModExp_RequiredGas_def Let_def)
  moreover define a where "a = (if ?E > 32 then 8 * (?E - 32) else 0) + int msb"
  moreover define gas2 where "gas2 = mult_complexity ?x * BigMax a 1 div 20"
  ultimately have geq: "g = (if BitLen gas2 > 64 then MaxUint64 else bigUint64_value gas2)"
    by (simp add: Let_def ModExpQuadCoeffDiv_def)
  have nn2: "0 \<le> gas2"
    using mult_complexity_ge [OF x(1)] x(1) by (simp add: gas2_def BigMax_def pos_imp_zdiv_nonneg_iff)
  have le: "\<not> BitLen gas2 > 64" using geq g(2) by (auto split: if_splits)
  then have "gas2 < 2 ^ 64" using nn2 BitLen_le_iff [of gas2 64] by simp
  then have "unat (bigUint64_value gas2) = nat gas2"
    using nn2 by (simp add: bigUint64_value_def unsigned_of_int take_bit_int_eq_self)
  then have "gas2 < 2 ^ 61" using geq le g(2) nn2 by (simp add: nat_less_iff)
  then have b: "?x < 2 ^ 63" "a < 20 * 2 ^ 61" using modexp_gas_bound [OF x(1)] by (simp_all add: gas2_def)
  show "?M < 2 ^ 63" using b(1) x(2) by linarith
  show "?E < 2 ^ 63" using b(2) by (auto simp: a_def split: if_splits)
qed

lemma bigModExp_Run_returns:
  assumes len: "length input \<le> 2 ^ 40" and g: "bigModExp_RequiredGas input = Done g" "unat g < 2 ^ 61"
  shows "\<exists>r. bigModExp_Run input = Done r"
proof -
  have d: "length (drop 96 input) \<le> 2 ^ 40" using len by simp
  have "\<exists>x. getData input st 32 = Done x" for st using getData_returns [OF len, of 32 st] by simp
  then obtain bl el ml where data: "getData input 0 32 = Done bl" "getData input 32 32 = Done el" "getData input 64 32 = Done ml"
    by metis
  let ?b = "bigUint64_value (SetBytes bl)" and ?e = "bigUint64_value (SetBytes el)" and ?m = "bigUint64_value (SetBytes ml)"
  show ?thesis
  proof (cases "?b = 0 \<and> ?m = 0")
    case True
    then show ?thesis by (simp add: bigModExp_Run_def data)
  next
    case False
    then have "SetBytes bl \<noteq> 0 \<or> SetBytes ml \<noteq> 0" by (auto simp: bigUint64_value_def)
    then have "SetBytes ml < 2 ^ 63" "SetBytes el < 2 ^ 63" using bigModExp_gas_sizes [OF data g] by blast+
    then have "unat ?m < 2 ^ 63" "unat ?e < 2 ^ 63"
      by (simp_all add: SetBytes_def bigUint64_value_def unsigned_of_nat take_bit_nat_eq_self)
    then obtain x y z where "getData (drop 96 input) 0 ?b = Done x" "getData (drop 96 input) ?b ?e = Done y"
        "getData (drop 96 input) (?b + ?e) ?m = Done z"
      using getData_returns [OF d] by metis
    then show ?thesis using False by (simp add: bigModExp_Run_def data Let_def)
  qed
qed

lemma RequiredGas_returns: "length input \<le> 2 ^ 40 \<Longrightarrow> \<exists>g. RequiredGas p input = Done g"
  using bigModExp_RequiredGas_returns by (cases p) auto

lemma Run_precompile_returns:
  assumes len: "length input \<le> 2 ^ 40" and g: "RequiredGas p input = Done g" "unat g < 2 ^ 61"
  shows "\<exists>ret err. Run_precompile nv keccak p input = Done (ret, err)"
proof -
  have "\<exists>x. getData input st k = Done x" if "k = 64 \<or> k = 32" for st and k :: uint64
    using getData_returns [OF len, of k st] that by auto
  then obtain a b c where "getData input 0 64 = Done a" "getData input 64 64 = Done b" "getData input 64 32 = Done c"
    by metis
  then show ?thesis
    using bigModExp_Run_returns [OF len] g
    by (cases p) (auto simp: bn256Add_Run_def bn256ScalarMul_Run_def split: sum.splits)
qed

lemma RunPrecompiledContract_returns:
  assumes len: "length input \<le> 2 ^ 40" and gas: "unat (c_Gas c) < 2 ^ 61"
  shows "\<exists>c' ret err. RunPrecompiledContract nv keccak p input c = Done (c', ret, err) \<and>
    unat (c_Gas c') \<le> unat (c_Gas c)"
proof -
  obtain g where g: "RequiredGas p input = Done g" using RequiredGas_returns [OF len] by blast
  show ?thesis
  proof (cases "c_Gas c < g")
    case True
    then show ?thesis by (simp add: RunPrecompiledContract_def g UseGas_def)
  next
    case False
    then have le: "unat g \<le> unat (c_Gas c)" by (simp add: word_less_nat_alt)
    then obtain ret err where "Run_precompile nv keccak p input = Done (ret, err)"
      using Run_precompile_returns [OF len g] gas by force
    moreover have "unat (c_Gas c - g) \<le> unat (c_Gas c)" using le by (simp add: unat_sub word_le_nat_alt)
    ultimately show ?thesis using False by (simp add: RunPrecompiledContract_def g UseGas_def)
  qed
qed



end
