(* ===== verification/EVM_Analysis.thy ===== *)
theory EVM_Analysis
  imports EVM_Types
begin

unbundle bit_operations_syntax

text \<open>
  Jump destination analysis (\<open>src/vm/solc/analysis.go\<close>): the bit vector of code bytes that are
  arguments of PUSH instructions, its cache, and the proof that a destination is accepted exactly
  when it is the position of a JUMPDEST instruction. Positions are below the length of the code,
  so the \<open>uint64\<close> counter of the source does not wrap and is a natural number here.
\<close>

subsection \<open>Bit vectors\<close>

definition or_byte :: "nat \<Rightarrow> byte \<Rightarrow> bitvec \<Rightarrow> bitvec outcome" where
  \<comment> \<open>\<open>bits[i] |= m\<close>\<close>
  "or_byte i m bits = (if i < length bits then Done (bits[i := bits ! i OR m]) else Panic)"

definition bv_set :: "nat \<Rightarrow> bitvec \<Rightarrow> bitvec outcome" where
  "bv_set pos bits = or_byte (pos div 8) (drop_bit (pos mod 8) 0x80) bits"

definition bv_set8 :: "nat \<Rightarrow> bitvec \<Rightarrow> bitvec outcome" where
  "bv_set8 pos bits =
     obind (or_byte (pos div 8) (drop_bit (pos mod 8) 0xFF) bits)
       (or_byte (pos div 8 + 1) (NOT (drop_bit (pos mod 8) 0xFF)))"

definition codeSegment :: "bitvec \<Rightarrow> nat \<Rightarrow> bool outcome" where
  "codeSegment bits pos =
     (if pos div 8 < length bits then Done ((bits ! (pos div 8) AND drop_bit (pos mod 8) 0x80) = 0) else Panic)"

definition PUSH1 :: byte where "PUSH1 = 0x60"
definition PUSH32 :: byte where "PUSH32 = 0x7f"
definition JUMPDEST :: byte where "JUMPDEST = 0x5b"

fun mark_data :: "nat \<Rightarrow> nat \<Rightarrow> bitvec \<Rightarrow> bitvec outcome" where
  \<comment> \<open>the two inner loops: eight bits at a time, then the rest\<close>
  "mark_data numbits pc bits =
     (if numbits \<ge> 8 then obind (bv_set8 pc bits) (mark_data (numbits - 8) (pc + 8))
      else if numbits > 0 then obind (bv_set pc bits) (mark_data (numbits - 1) (pc + 1))
      else Done bits)"

declare mark_data.simps [simp del]

definition push_len :: "byte \<Rightarrow> nat" where
  \<comment> \<open>number of argument bytes of an instruction\<close>
  "push_len b = (if PUSH1 \<le> b \<and> b \<le> PUSH32 then unat (b - PUSH1 + 1) else 0)"

function codeBitmap_loop :: "bytes \<Rightarrow> nat \<Rightarrow> bitvec \<Rightarrow> bitvec outcome" where
  "codeBitmap_loop code pc bits =
     (if pc < length code
      then obind (mark_data (push_len (code ! pc)) (pc + 1) bits)
             (codeBitmap_loop code (pc + 1 + push_len (code ! pc)))
      else Done bits)"
  by pat_completeness auto
termination
  by (relation "measure (\<lambda>(code, pc, bits). length code - pc)") auto

declare codeBitmap_loop.simps [simp del]

definition codeBitmap :: "bytes \<Rightarrow> bitvec outcome" where
  "codeBitmap code = codeBitmap_loop code 0 (replicate (length code div 8 + 1 + 4) 0)"

definition has :: "(Hash \<rightharpoonup> bitvec) \<Rightarrow> Hash \<Rightarrow> bytes \<Rightarrow> int \<Rightarrow> ((Hash \<rightharpoonup> bitvec) \<times> bool) outcome" where
  "has d codehash code dest =
     (let udest = bigUint64_value dest
      in if BitLen dest \<ge> 63 \<or> unat udest \<ge> length code then Done (d, False)
         else
           (let check = (\<lambda>d' m. obind (codeSegment m (unat udest))
                          (\<lambda>seg. Done (d', code ! unat udest = JUMPDEST \<and> seg)))
            in case d codehash of
                 Some m \<Rightarrow> check d m
               | None \<Rightarrow> obind (codeBitmap code) (\<lambda>m. check (d(codehash \<mapsto> m)) m)))"

subsection \<open>Bits of a vector\<close>

definition bit_at :: "bitvec \<Rightarrow> nat \<Rightarrow> bool" where
  "bit_at bits p \<longleftrightarrow> p div 8 < length bits \<and> bit (bits ! (p div 8)) (7 - p mod 8)"

lemma lt8_cases:
  fixes k :: nat
  assumes "k < 8"
  obtains "k = 0" | "k = 1" | "k = 2" | "k = 3" | "k = 4" | "k = 5" | "k = 6" | "k = 7"
  using assms by linarith

lemma mask_bit:
  assumes "k < 8"
  shows "drop_bit k (0x80 :: byte) = 2 ^ (7 - k)"
  using assms by (elim lt8_cases [of k]) (simp_all add: drop_bit_eq_div)

lemma bit_mask_one: "k < 8 \<Longrightarrow> q < 8 \<Longrightarrow> bit (drop_bit k (0x80 :: byte)) (7 - q) \<longleftrightarrow> k = q"
  by (auto simp: mask_bit bit_exp_iff)

lemma bit_mask_tail: "k < 8 \<Longrightarrow> q < 8 \<Longrightarrow> bit (drop_bit k (0xFF :: byte)) (7 - q) \<longleftrightarrow> k \<le> q"
proof -
  assume k: "k < 8" and q: "q < 8"
  have m: "(0xFF :: byte) = mask 8" by (simp add: mask_eq_exp_minus_1)
  have "bit (mask 8 :: byte) j \<longleftrightarrow> j < 8" for j by (auto simp: bit_mask_iff)
  then have "bit (drop_bit k (0xFF :: byte)) (7 - q) \<longleftrightarrow> k + (7 - q) < 8"
    by (simp only: m bit_drop_bit_eq comp_def)
  then show ?thesis using k q by auto
qed

lemma codeSegment_bit:
  "pos div 8 < length bits \<Longrightarrow> codeSegment bits pos = Done (\<not> bit_at bits pos)"
  by (simp add: codeSegment_def bit_at_def mask_bit and_exp_eq_0_iff_not_bit)

lemma or_byte_spec:
  assumes "i < length bits"
  shows "\<exists>bits'. or_byte i m bits = Done bits' \<and> length bits' = length bits \<and>
           (\<forall>p. bit_at bits' p \<longleftrightarrow> bit_at bits p \<or> (p div 8 = i \<and> bit m (7 - p mod 8)))"
  using assms by (auto simp: or_byte_def bit_at_def nth_list_update bit_or_iff)

lemma bv_set_spec:
  assumes "pos div 8 < length bits"
  shows "\<exists>bits'. bv_set pos bits = Done bits' \<and> length bits' = length bits \<and>
           (\<forall>p. bit_at bits' p \<longleftrightarrow> bit_at bits p \<or> p = pos)"
proof -
  have "p div 8 = pos div 8 \<and> bit (drop_bit (pos mod 8) (0x80 :: byte)) (7 - p mod 8) \<longleftrightarrow> p = pos" for p
    using bit_mask_one [of "pos mod 8" "p mod 8"] by (auto, metis mod_div_decomp)
  then show ?thesis
    using or_byte_spec [OF assms, of "drop_bit (pos mod 8) 0x80"] by (auto simp: bv_set_def)
qed

lemma span8:
  fixes p q :: nat
  shows "p div 8 = q div 8 \<and> q mod 8 \<le> p mod 8 \<or> p div 8 = q div 8 + 1 \<and> p mod 8 < q mod 8 \<longleftrightarrow>
    q \<le> p \<and> p < q + 8"
proof -
  define a b c d where "a = p div 8" "b = p mod 8" "c = q div 8" "d = q mod 8"
  have "p = 8 * a + b" "q = 8 * c + d" "b < 8" "d < 8" by (simp_all add: a_b_c_d_def)
  then show ?thesis unfolding a_b_c_d_def [symmetric] by arith
qed

lemma bv_set8_spec:
  assumes "pos div 8 + 1 < length bits"
  shows "\<exists>bits'. bv_set8 pos bits = Done bits' \<and> length bits' = length bits \<and>
           (\<forall>p. bit_at bits' p \<longleftrightarrow> bit_at bits p \<or> (pos \<le> p \<and> p < pos + 8))"
proof -
  let ?m = "drop_bit (pos mod 8) (0xFF :: byte)"
  obtain b1 where b1: "or_byte (pos div 8) ?m bits = Done b1" "length b1 = length bits"
    "\<And>p. bit_at b1 p \<longleftrightarrow> bit_at bits p \<or> (p div 8 = pos div 8 \<and> bit ?m (7 - p mod 8))"
    using or_byte_spec [of "pos div 8" bits ?m] assms by auto
  obtain b2 where b2: "or_byte (pos div 8 + 1) (NOT ?m) b1 = Done b2" "length b2 = length b1"
    "\<And>p. bit_at b2 p \<longleftrightarrow> bit_at b1 p \<or> (p div 8 = pos div 8 + 1 \<and> bit (NOT ?m) (7 - p mod 8))"
    using or_byte_spec [of "pos div 8 + 1" b1 "NOT ?m"] assms b1(2) by auto
  have tail: "bit ?m (7 - p mod 8) \<longleftrightarrow> pos mod 8 \<le> p mod 8" for p :: nat
    using bit_mask_tail by simp
  have head: "bit (NOT ?m) (7 - p mod 8) \<longleftrightarrow> p mod 8 < pos mod 8" for p :: nat
    using tail [of p] by (auto simp: bit_not_iff)
  have "bit_at b2 p \<longleftrightarrow> bit_at bits p \<or> (pos \<le> p \<and> p < pos + 8)" for p
    unfolding b2(3) b1(3) tail head disj_assoc span8 ..
  then show ?thesis using b1 b2 by (simp add: bv_set8_def)
qed

lemma mark_data_spec:
  assumes "(pc + n) div 8 < length bits"
  shows "\<exists>bits'. mark_data n pc bits = Done bits' \<and> length bits' = length bits \<and>
           (\<forall>p. bit_at bits' p \<longleftrightarrow> bit_at bits p \<or> (pc \<le> p \<and> p < pc + n))"
  using assms
proof (induction n arbitrary: pc bits rule: less_induct)
  case (less n)
  consider "n \<ge> 8" | "n < 8" "n > 0" | "n = 0" by linarith
  then show ?case
  proof cases
    case 1
    then have "(pc + 8) div 8 \<le> (pc + n) div 8" by (intro div_le_mono) simp
    then have "pc div 8 + 1 < length bits" using less.prems by simp
    from bv_set8_spec [OF this] obtain b1 where b1: "bv_set8 pc bits = Done b1" "length b1 = length bits"
      "\<forall>p. bit_at b1 p \<longleftrightarrow> bit_at bits p \<or> (pc \<le> p \<and> p < pc + 8)" by blast
    have "(pc + 8 + (n - 8)) div 8 < length b1" using 1 less.prems b1(2) by simp
    from less.IH [OF _ this] 1 obtain b2 where b2: "mark_data (n - 8) (pc + 8) b1 = Done b2" "length b2 = length b1"
      "\<forall>p. bit_at b2 p \<longleftrightarrow> bit_at b1 p \<or> (pc + 8 \<le> p \<and> p < pc + 8 + (n - 8))" by auto
    have "mark_data n pc bits = Done b2" using 1 b1(1) b2(1) by (simp add: mark_data.simps [of n])
    moreover have "bit_at b2 p \<longleftrightarrow> bit_at bits p \<or> (pc \<le> p \<and> p < pc + n)" for p
      using 1 spec [OF b1(3), of p] spec [OF b2(3), of p] by linarith
    ultimately show ?thesis using b1(2) b2(2) by simp
  next
    case 2
    have "pc div 8 < length bits" using less.prems by (meson div_le_mono le_add1 order.strict_trans1)
    from bv_set_spec [OF this] obtain b1 where b1: "bv_set pc bits = Done b1" "length b1 = length bits"
      "\<forall>p. bit_at b1 p \<longleftrightarrow> bit_at bits p \<or> p = pc" by blast
    have "(pc + 1 + (n - 1)) div 8 < length b1" using 2 less.prems b1(2) by simp
    from less.IH [OF _ this] 2 obtain b2 where b2: "mark_data (n - 1) (pc + 1) b1 = Done b2" "length b2 = length b1"
      "\<forall>p. bit_at b2 p \<longleftrightarrow> bit_at b1 p \<or> (pc + 1 \<le> p \<and> p < pc + 1 + (n - 1))" by auto
    have "mark_data n pc bits = Done b2" using 2 b1(1) b2(1) by (simp add: mark_data.simps [of n])
    moreover have "bit_at b2 p \<longleftrightarrow> bit_at bits p \<or> (pc \<le> p \<and> p < pc + n)" for p
      using 2 spec [OF b1(3), of p] spec [OF b2(3), of p] by linarith
    ultimately show ?thesis using b1(2) b2(2) by simp
  next
    case 3
    then show ?thesis by (auto simp: mark_data.simps)
  qed
qed

subsection \<open>Instruction boundaries\<close>

definition next_pc :: "bytes \<Rightarrow> nat \<Rightarrow> nat" where
  "next_pc code p = p + 1 + (if p < length code then push_len (code ! p) else 0)"

definition instr_start :: "bytes \<Rightarrow> nat \<Rightarrow> bool" where
  \<comment> \<open>positions reached from the first byte by stepping over whole instructions\<close>
  "instr_start code p \<longleftrightarrow> (\<exists>k. p = (next_pc code ^^ k) 0)"

lemma iterates_strict_mono: "strict_mono (\<lambda>k. (next_pc code ^^ k) 0)"
  by (simp add: strict_mono_Suc_iff next_pc_def)

lemma instr_start_0 [simp]: "instr_start code 0"
  unfolding instr_start_def by (rule exI [of _ 0]) simp

lemma instr_start_next: "instr_start code p \<Longrightarrow> instr_start code (next_pc code p)"
  unfolding instr_start_def by (metis comp_apply funpow.simps(2))

lemma no_start_between:
  assumes "instr_start code p" "p < q" "q < next_pc code p"
  shows "\<not> instr_start code q"
proof
  assume "instr_start code q"
  then obtain j k where j: "q = (next_pc code ^^ j) 0" and k: "p = (next_pc code ^^ k) 0"
    using assms(1) by (auto simp: instr_start_def)
  have "next_pc code p = (next_pc code ^^ Suc k) 0" by (simp add: k)
  then have "j < Suc k" "k < j"
    using assms(2,3) strict_mono_less [OF iterates_strict_mono [of code], of j "Suc k"]
      strict_mono_less [OF iterates_strict_mono [of code], of k j] j k by metis+
  then show False by simp
qed

lemma push_len_le: "push_len b \<le> 32"
proof (cases "PUSH1 \<le> b \<and> b \<le> PUSH32")
  case True
  then have "unat b \<le> 127" "96 \<le> unat b" by (simp_all add: PUSH1_def PUSH32_def word_le_nat_alt)
  moreover have "unat (b - PUSH1) = unat b - 96"
    using True by (simp add: unat_sub PUSH1_def)
  ultimately have "unat (b - PUSH1 + 1) = unat b - 96 + 1"
    by (subst unat_plus_simple [THEN iffD1]) (simp_all add: word_le_nat_alt unat_word_ariths)
  then show ?thesis using True \<open>unat b \<le> 127\<close> by (simp add: push_len_def)
qed (auto simp: push_len_def)

definition marked_upto :: "bytes \<Rightarrow> nat \<Rightarrow> bitvec \<Rightarrow> bool" where
  "marked_upto code pc bits \<longleftrightarrow>
     length bits = length code div 8 + 5 \<and> (\<forall>p. bit_at bits p \<longleftrightarrow> p < pc \<and> \<not> instr_start code p)"

lemma codeBitmap_loop_spec:
  assumes "instr_start code pc" "marked_upto code pc bits"
  shows "\<exists>bits' pc'. codeBitmap_loop code pc bits = Done bits' \<and> length code \<le> pc' \<and> marked_upto code pc' bits'"
  using assms
proof (induction "length code - pc" arbitrary: pc bits rule: less_induct)
  case less
  show ?case
  proof (cases "pc < length code")
    case False
    then show ?thesis
      using less.prems by (intro exI [of _ bits] exI [of _ pc]) (simp add: codeBitmap_loop.simps [of code pc])
  next
    case True
    let ?n = "push_len (code ! pc)"
    have np: "next_pc code pc = pc + 1 + ?n" using True by (simp add: next_pc_def)
    have "pc + 1 + ?n \<le> length code + 32" using True push_len_le [of "code ! pc"] by simp
    then have "(pc + 1 + ?n) div 8 \<le> (length code + 32) div 8" by (rule div_le_mono)
    then have "(pc + 1 + ?n) div 8 < length bits" using less.prems(2) by (simp add: marked_upto_def)
    from mark_data_spec [OF this] obtain b1 where b1: "mark_data ?n (pc + 1) bits = Done b1" "length b1 = length bits"
      "\<forall>p. bit_at b1 p \<longleftrightarrow> bit_at bits p \<or> (pc + 1 \<le> p \<and> p < pc + 1 + ?n)" by blast
    have "bit_at b1 p \<longleftrightarrow> p < pc + 1 + ?n \<and> \<not> instr_start code p" for p
    proof (cases "pc < p \<and> p < pc + 1 + ?n")
      case True
      then have "\<not> instr_start code p" using no_start_between [OF less.prems(1), of p] np by simp
      then show ?thesis using spec [OF b1(3), of p] True by simp
    next
      case False
      have "bit_at bits p \<longleftrightarrow> p < pc \<and> \<not> instr_start code p"
        using less.prems(2) by (simp add: marked_upto_def)
      then show ?thesis
        using spec [OF b1(3), of p] False less.prems(1) by (cases "p = pc") auto
    qed
    then have m: "marked_upto code (pc + 1 + ?n) b1" using less.prems(2) b1(2) by (simp add: marked_upto_def)
    have i: "instr_start code (pc + 1 + ?n)" using instr_start_next [OF less.prems(1)] np by simp
    have l: "length code - (pc + 1 + ?n) < length code - pc" using True by simp
    have "codeBitmap_loop code pc bits = codeBitmap_loop code (pc + 1 + ?n) b1"
      using True b1(1) by (simp add: codeBitmap_loop.simps [of code pc])
    then show ?thesis using less.hyps [OF l i m] by simp
  qed
qed

definition is_bitmap :: "bytes \<Rightarrow> bitvec \<Rightarrow> bool" where
  "is_bitmap code bits \<longleftrightarrow>
     length bits = length code div 8 + 5 \<and> (\<forall>p < length code. bit_at bits p \<longleftrightarrow> \<not> instr_start code p)"

lemma codeBitmap_spec: "\<exists>bits. codeBitmap code = Done bits \<and> is_bitmap code bits"
proof -
  have "marked_upto code 0 (replicate (length code div 8 + 1 + 4) 0)"
    by (auto simp: marked_upto_def bit_at_def)
  from codeBitmap_loop_spec [OF instr_start_0 this] show ?thesis
    by (auto simp: codeBitmap_def is_bitmap_def marked_upto_def)
qed

lemma is_bitmap_codeSegment:
  "is_bitmap code bits \<Longrightarrow> p < length code \<Longrightarrow> codeSegment bits p = Done (instr_start code p)"
proof -
  assume b: "is_bitmap code bits" and p: "p < length code"
  have "p div 8 \<le> length code div 8" using p by (intro div_le_mono) simp
  then have "p div 8 < length bits" using b by (simp add: is_bitmap_def)
  then show ?thesis using b p by (simp add: codeSegment_bit is_bitmap_def)
qed

text \<open>
  C20. Jump destination analysis is exact: \<open>codeBitmap\<close> never writes outside its vector, and a byte
  of the code is classified as an instruction exactly when stepping over whole instructions from the
  start of the code (PUSH arguments included) reaches it.
\<close>

theorem codeBitmap_exact:
  assumes "p < length code"
  shows "obind (codeBitmap code) (\<lambda>bits. codeSegment bits p) = Done (instr_start code p)"
  using codeBitmap_spec [of code] is_bitmap_codeSegment [OF _ assms] by auto

theorem codeBitmap_exact_witness:
  "obind (codeBitmap [0x60, 0x5b, 0x5b]) (\<lambda>bits. codeSegment bits 2) = Done True \<and>
   instr_start [0x60, 0x5b, 0x5b] 2"
proof -
  have "(next_pc [0x60, 0x5b, 0x5b] ^^ 1) 0 = 2"
    by (simp add: next_pc_def push_len_def PUSH1_def PUSH32_def)
  then have "instr_start [0x60, 0x5b, 0x5b] 2" unfolding instr_start_def by metis
  then show ?thesis using codeBitmap_exact [of 2 "[0x60, 0x5b, 0x5b]"] by simp
qed

end
