(* ===== verification/EVM_Instructions.thy ===== *)
theory EVM_Instructions
  imports EVM_Analysis EVM_Gas
begin

text \<open>
  The instructions that do not call other contracts (\<open>src/vm/solc/instructions.go\<close>). Each takes a
  frame and returns the changed frame, the returned bytes and an error. Popping from a stack that is
  too short is the panic of the slice index.
\<close>

definition ok0 :: "Frame \<Rightarrow> (Frame \<times> bytes \<times> vm_error option) outcome" where
  \<comment> \<open>\<open>return nil, nil\<close>\<close>
  "ok0 f = Done (f, [], None)"

definition with_stack :: "Stack \<Rightarrow> Frame \<Rightarrow> Frame" where
  "with_stack st f = f\<lparr>f_stack := st\<rparr>"

definition keccak_of :: "Frame \<Rightarrow> bytes \<Rightarrow> Hash" where
  "keccak_of f = db_Keccak256 (sdb_db (f_sdb f))"

subsection \<open>Arithmetic\<close>

definition opAdd :: execution where
  "opAdd f = (case f_stack f of x # y # st \<Rightarrow> ok0 (with_stack (U256 (x + y) # st) f) | _ \<Rightarrow> Panic)"

definition opSub :: execution where
  "opSub f = (case f_stack f of x # y # st \<Rightarrow> ok0 (with_stack (U256 (x - y) # st) f) | _ \<Rightarrow> Panic)"

definition opMul :: execution where
  "opMul f = (case f_stack f of x # y # st \<Rightarrow> ok0 (with_stack (U256 (x * y) # st) f) | _ \<Rightarrow> Panic)"

definition opDiv :: execution where
  \<comment> \<open>\<open>big.Int.Div\<close> on non-negative operands\<close>
  "opDiv f =
     (case f_stack f of
        x # y # st \<Rightarrow> ok0 (with_stack ((if y \<noteq> 0 then U256 (x div y) else 0) # st) f)
      | _ \<Rightarrow> Panic)"

definition sdiv_value :: "int \<Rightarrow> int \<Rightarrow> int" where
  "sdiv_value a b =
     (let x = S256 a; y = S256 b
      in if y = 0 \<or> x = 0 then 0
         else if sgn x \<noteq> sgn y then U256 (- (\<bar>x\<bar> div \<bar>y\<bar>))
         else U256 (\<bar>x\<bar> div \<bar>y\<bar>))"

definition opSdiv :: execution where
  "opSdiv f = (case f_stack f of x # y # st \<Rightarrow> ok0 (with_stack (sdiv_value x y # st) f) | _ \<Rightarrow> Panic)"

definition opMod :: execution where
  "opMod f =
     (case f_stack f of
        x # y # st \<Rightarrow> ok0 (with_stack ((if y = 0 then 0 else U256 (x mod y)) # st) f)
      | _ \<Rightarrow> Panic)"

definition smod_value :: "int \<Rightarrow> int \<Rightarrow> int" where
  "smod_value a b =
     (let x = S256 a; y = S256 b
      in if y = 0 then 0
         else if x < 0 then U256 (- (\<bar>x\<bar> mod \<bar>y\<bar>))
         else U256 (\<bar>x\<bar> mod \<bar>y\<bar>))"

definition opSmod :: execution where
  "opSmod f = (case f_stack f of x # y # st \<Rightarrow> ok0 (with_stack (smod_value x y # st) f) | _ \<Rightarrow> Panic)"

definition opExp :: execution where
  "opExp f =
     (case f_stack f of base # exponent # st \<Rightarrow> ok0 (with_stack (Exp base exponent # st) f) | _ \<Rightarrow> Panic)"

definition signExtend_value :: "int \<Rightarrow> int \<Rightarrow> int" where
  "signExtend_value back num =
     (let b = unat (bigUint64_value back * 8 + 7);
          mask = push_bit b 1 - 1
      in U256 (if bit num b then num OR NOT mask else num AND mask))"

definition opSignExtend :: execution where
  "opSignExtend f =
     (case f_stack f of
        back # rest \<Rightarrow>
          if back < 31
          then (case rest of num # st \<Rightarrow> ok0 (with_stack (signExtend_value back num # st) f) | _ \<Rightarrow> Panic)
          else ok0 (with_stack rest f)
      | _ \<Rightarrow> Panic)"

definition opAddmod :: execution where
  "opAddmod f =
     (case f_stack f of
        x # y # z # st \<Rightarrow> ok0 (with_stack ((if z > 0 then U256 ((x + y) mod z) else 0) # st) f)
      | _ \<Rightarrow> Panic)"

definition opMulmod :: execution where
  "opMulmod f =
     (case f_stack f of
        x # y # z # st \<Rightarrow> ok0 (with_stack ((if z > 0 then U256 ((x * y) mod z) else 0) # st) f)
      | _ \<Rightarrow> Panic)"

subsection \<open>Comparison and bits\<close>

definition opNot :: execution where
  "opNot f = (case f_stack f of x # st \<Rightarrow> ok0 (with_stack (U256 (NOT x) # st) f) | _ \<Rightarrow> Panic)"

definition opLt :: execution where
  "opLt f = (case f_stack f of x # y # st \<Rightarrow> ok0 (with_stack ((if x < y then 1 else 0) # st) f) | _ \<Rightarrow> Panic)"

definition opGt :: execution where
  "opGt f = (case f_stack f of x # y # st \<Rightarrow> ok0 (with_stack ((if x > y then 1 else 0) # st) f) | _ \<Rightarrow> Panic)"

definition slt_value :: "int \<Rightarrow> int \<Rightarrow> int" where
  "slt_value x y =
     (if x \<ge> tt255 \<and> y < tt255 then 1
      else if x < tt255 \<and> y \<ge> tt255 then 0
      else if x < y then 1 else 0)"

definition opSlt :: execution where
  "opSlt f = (case f_stack f of x # y # st \<Rightarrow> ok0 (with_stack (slt_value x y # st) f) | _ \<Rightarrow> Panic)"

definition sgt_value :: "int \<Rightarrow> int \<Rightarrow> int" where
  "sgt_value x y =
     (if x \<ge> tt255 \<and> y < tt255 then 0
      else if x < tt255 \<and> y \<ge> tt255 then 1
      else if x > y then 1 else 0)"

definition opSgt :: execution where
  "opSgt f = (case f_stack f of x # y # st \<Rightarrow> ok0 (with_stack (sgt_value x y # st) f) | _ \<Rightarrow> Panic)"

definition opEq :: execution where
  "opEq f = (case f_stack f of x # y # st \<Rightarrow> ok0 (with_stack ((if x = y then 1 else 0) # st) f) | _ \<Rightarrow> Panic)"

definition opIszero :: execution where
  "opIszero f = (case f_stack f of x # st \<Rightarrow> ok0 (with_stack ((if x > 0 then 0 else 1) # st) f) | _ \<Rightarrow> Panic)"

definition opAnd :: execution where
  "opAnd f = (case f_stack f of x # y # st \<Rightarrow> ok0 (with_stack ((x AND y) # st) f) | _ \<Rightarrow> Panic)"

definition opOr :: execution where
  "opOr f = (case f_stack f of x # y # st \<Rightarrow> ok0 (with_stack ((x OR y) # st) f) | _ \<Rightarrow> Panic)"

definition opXor :: execution where
  "opXor f = (case f_stack f of x # y # st \<Rightarrow> ok0 (with_stack ((x XOR y) # st) f) | _ \<Rightarrow> Panic)"

definition opByte :: execution where
  "opByte f =
     (case f_stack f of
        th # val # st \<Rightarrow>
          ok0 (with_stack ((if th < 32 then uint (Byte val 32 (nat (bigInt64_value th))) else 0) # st) f)
      | _ \<Rightarrow> Panic)"

text \<open>
  The shifts are not entered in any instruction table of the source. They compare the shift with
  \<open>common.Big256\<close>, whose value is 255.
\<close>

definition Big256 :: int where "Big256 = 0xff"

definition opSHL :: execution where
  "opSHL f =
     (case f_stack f of
        s # v # st \<Rightarrow>
          (let shift = U256 s; val = U256 v
           in ok0 (with_stack ((if shift \<ge> Big256 then 0
                else U256 (push_bit (unat (bigUint64_value shift)) val)) # st) f))
      | _ \<Rightarrow> Panic)"

definition opSHR :: execution where
  "opSHR f =
     (case f_stack f of
        s # v # st \<Rightarrow>
          (let shift = U256 s; val = U256 v
           in ok0 (with_stack ((if shift \<ge> Big256 then 0
                else U256 (drop_bit (unat (bigUint64_value shift)) val)) # st) f))
      | _ \<Rightarrow> Panic)"

definition opSAR :: execution where
  "opSAR f =
     (case f_stack f of
        s # v # st \<Rightarrow>
          (let shift = U256 s; val = S256 v
           in ok0 (with_stack (U256 (if shift \<ge> Big256 then (if val > 0 then 0 else - 1)
                else drop_bit (unat (bigUint64_value shift)) val) # st) f))
      | _ \<Rightarrow> Panic)"

subsection \<open>Hashing and the environment\<close>

definition opSha3 :: execution where
  "opSha3 f =
     (case f_stack f of
        offset # sz # st \<Rightarrow>
          obind (Memory_Get (bigInt64_value offset) (bigInt64_value sz) (f_mem f))
            (\<lambda>data.
               (let hash = keccak_of f data;
                    f1 = (if cfg_EnablePreimageRecording (evm_vmConfig (f_evm f))
                          then set_sdb (AddPreimage hash data (f_sdb f)) f else f)
                in ok0 (with_stack (uint hash # st) f1)))
      | _ \<Rightarrow> Panic)"

definition push_value :: "int \<Rightarrow> execution" where
  "push_value v f = ok0 (with_stack (v # f_stack f) f)"

definition opAddress :: execution where
  "opAddress f = push_value (Address_Big (c_self (f_contract f))) f"

definition opBalance :: execution where
  "opBalance f =
     (case f_stack f of
        slot # st \<Rightarrow>
          (let (s1, b) = GetBalance (BigToAddress slot) (f_sdb f)
           in ok0 (with_stack (b # st) (set_sdb s1 f)))
      | _ \<Rightarrow> Panic)"

definition opOrigin :: execution where
  "opOrigin f = push_value (Address_Big (ctx_Origin (evm_Context (f_evm f)))) f"

definition opCaller :: execution where
  "opCaller f = push_value (Address_Big (c_CallerAddress (f_contract f))) f"

definition opCallValue :: execution where
  "opCallValue f = push_value (c_value (f_contract f)) f"

definition opCallDataLoad :: execution where
  "opCallDataLoad f =
     (case f_stack f of
        off # st \<Rightarrow> ok0 (with_stack (SetBytes (getDataBig (c_Input (f_contract f)) off 32) # st) f)
      | _ \<Rightarrow> Panic)"

definition opCallDataSize :: execution where
  "opCallDataSize f = push_value (int (length (c_Input (f_contract f)))) f"

definition store_mem :: "int \<Rightarrow> int \<Rightarrow> bytes \<Rightarrow> Stack \<Rightarrow> execution" where
  \<comment> \<open>\<open>memory.Set(memOffset.Uint64(), length.Uint64(), data)\<close>\<close>
  "store_mem memOffset len data st f =
     obind (Memory_Set (bigUint64_value memOffset) (bigUint64_value len) data (f_mem f))
       (\<lambda>m. ok0 (with_stack st (f\<lparr>f_mem := m\<rparr>)))"

definition opCallDataCopy :: execution where
  "opCallDataCopy f =
     (case f_stack f of
        memOffset # dataOffset # len # st \<Rightarrow>
          store_mem memOffset len (getDataBig (c_Input (f_contract f)) dataOffset len) st f
      | _ \<Rightarrow> Panic)"

definition opReturnDataSize :: execution where
  "opReturnDataSize f = push_value (int (length (evm_returnData (f_evm f)))) f"

definition opReturnDataCopy :: execution where
  "opReturnDataCopy f =
     (case f_stack f of
        memOffset # dataOffset # len # st \<Rightarrow>
          (let end' = dataOffset + len; rd = evm_returnData (f_evm f)
           in if BitLen end' > 64 \<or> length rd < unat (bigUint64_value end')
              then Done (with_stack st f, [], Some errReturnDataOutOfBounds)
              else if bigUint64_value dataOffset > bigUint64_value end' then Panic
              else store_mem memOffset len
                     (take (unat (bigUint64_value end') - unat (bigUint64_value dataOffset))
                        (drop (unat (bigUint64_value dataOffset)) rd)) st f)
      | _ \<Rightarrow> Panic)"

definition opExtCodeSize :: execution where
  "opExtCodeSize f =
     (case f_stack f of
        slot # st \<Rightarrow>
          (let (s1, n) = GetCodeSize (BigToAddress slot) (f_sdb f)
           in ok0 (with_stack (int n # st) (set_sdb s1 f)))
      | _ \<Rightarrow> Panic)"

definition opCodeSize :: execution where
  "opCodeSize f = push_value (int (length (c_Code (f_contract f)))) f"

definition opCodeCopy :: execution where
  "opCodeCopy f =
     (case f_stack f of
        memOffset # codeOffset # len # st \<Rightarrow>
          store_mem memOffset len (getDataBig (c_Code (f_contract f)) codeOffset len) st f
      | _ \<Rightarrow> Panic)"

definition code_bytes :: "bytes option \<Rightarrow> bytes" where
  "code_bytes c = (case c of None \<Rightarrow> [] | Some b \<Rightarrow> b)"

definition opExtCodeCopy :: execution where
  "opExtCodeCopy f =
     (case f_stack f of
        a # memOffset # codeOffset # len # st \<Rightarrow>
          (let (s1, code) = GetCode (BigToAddress a) (f_sdb f)
           in store_mem memOffset len (getDataBig (code_bytes code) codeOffset len) st (set_sdb s1 f))
      | _ \<Rightarrow> Panic)"

definition opGasprice :: execution where
  "opGasprice f = push_value (ctx_GasPrice (evm_Context (f_evm f))) f"

definition opBlockhash :: execution where
  "opBlockhash f =
     (case f_stack f of
        num # st \<Rightarrow>
          (let bn = ctx_BlockNumber (evm_Context (f_evm f)); n = bn - 257
           in ok0 (with_stack ((if num > n \<and> num < bn
                then Hash_Big (ctx_GetHash (evm_Context (f_evm f)) (bigUint64_value num)) else 0) # st) f))
      | _ \<Rightarrow> Panic)"

definition opCoinbase :: execution where
  "opCoinbase f = push_value (Address_Big (ctx_Coinbase (evm_Context (f_evm f)))) f"

definition opTimestamp :: execution where
  "opTimestamp f = push_value (U256 (ctx_Time (evm_Context (f_evm f)))) f"

definition opNumber :: execution where
  "opNumber f = push_value (U256 (ctx_BlockNumber (evm_Context (f_evm f)))) f"

definition opDifficulty :: execution where
  "opDifficulty f = push_value (U256 (ctx_Difficulty (evm_Context (f_evm f)))) f"

definition opGasLimit :: execution where
  "opGasLimit f = push_value (U256 (uint (ctx_GasLimit (evm_Context (f_evm f))))) f"

subsection \<open>Stack, memory, storage and flow\<close>

definition opPop :: execution where
  "opPop f = (case f_stack f of x # st \<Rightarrow> ok0 (with_stack st f) | _ \<Rightarrow> Panic)"

definition opMload :: execution where
  "opMload f =
     (case f_stack f of
        offset # st \<Rightarrow>
          obind (Memory_Get (bigInt64_value offset) 32 (f_mem f))
            (\<lambda>data. ok0 (with_stack (SetBytes data # st) f))
      | _ \<Rightarrow> Panic)"

definition opMstore :: execution where
  "opMstore f =
     (case f_stack f of
        mStart # val # st \<Rightarrow>
          obind (Memory_Set (bigUint64_value mStart) 32 (PaddedBigBytes val 32) (f_mem f))
            (\<lambda>m. ok0 (with_stack st (f\<lparr>f_mem := m\<rparr>)))
      | _ \<Rightarrow> Panic)"

definition opMstore8 :: execution where
  "opMstore8 f =
     (case f_stack f of
        o' # v # st \<Rightarrow>
          (let off = bigInt64_value o'
           in if off < 0 \<or> off \<ge> int (Memory_Len (f_mem f)) then Panic
              else ok0 (with_stack st (f\<lparr>f_mem := (f_mem f)
                     \<lparr>mem_store := (mem_store (f_mem f))[nat off := word_of_int (bigInt64_value v)]\<rparr>\<rparr>)))
      | _ \<Rightarrow> Panic)"

definition opSload :: execution where
  "opSload f =
     (case f_stack f of
        loc # st \<Rightarrow>
          (let (s1, v) = GetState (c_self (f_contract f)) (BigToHash loc) (f_sdb f)
           in ok0 (with_stack (Hash_Big v # st) (set_sdb s1 f)))
      | _ \<Rightarrow> Panic)"

definition opSstore :: execution where
  "opSstore f =
     (case f_stack f of
        loc # val # st \<Rightarrow>
          ok0 (with_stack st
            (set_sdb (SetState (c_self (f_contract f)) (BigToHash loc) (BigToHash val) (f_sdb f)) f))
      | _ \<Rightarrow> Panic)"

definition jump_to :: "int \<Rightarrow> Stack \<Rightarrow> execution" where
  \<comment> \<open>the destination check and assignment shared by \<open>opJump\<close> and \<open>opJumpi\<close>\<close>
  "jump_to pos st f =
     obind (has (evm_jumpdests (f_evm f)) (c_CodeHash (f_contract f)) (c_Code (f_contract f)) pos)
       (\<lambda>(d, valid).
          (let f1 = with_stack st (f\<lparr>f_evm := (f_evm f)\<lparr>evm_jumpdests := d\<rparr>\<rparr>)
           in if \<not> valid
              then Done (f1, [], Some (errInvalidJump (GetOp (f_contract f) (bigUint64_value pos)) pos))
              else ok0 (f1\<lparr>f_pc := bigUint64_value pos\<rparr>)))"

definition opJump :: execution where
  "opJump f = (case f_stack f of pos # st \<Rightarrow> jump_to pos st f | _ \<Rightarrow> Panic)"

definition opJumpi :: execution where
  "opJumpi f =
     (case f_stack f of
        pos # cond # st \<Rightarrow>
          if cond \<noteq> 0 then jump_to pos st f else ok0 (with_stack st (f\<lparr>f_pc := f_pc f + 1\<rparr>))
      | _ \<Rightarrow> Panic)"

definition opJumpdest :: execution where
  "opJumpdest f = ok0 f"

definition opPc :: execution where
  "opPc f = push_value (uint (f_pc f)) f"

definition opMsize :: execution where
  "opMsize f = push_value (int (Memory_Len (f_mem f))) f"

definition opGas :: execution where
  "opGas f = push_value (uint (c_Gas (f_contract f))) f"

definition return_mem :: execution where
  "return_mem f =
     (case f_stack f of
        offset # sz # st \<Rightarrow>
          obind (Memory_GetPtr (bigInt64_value offset) (bigInt64_value sz) (f_mem f))
            (\<lambda>ret. Done (with_stack st f, ret, None))
      | _ \<Rightarrow> Panic)"

definition opReturn :: execution where
  "opReturn f = return_mem f"

definition opRevert :: execution where
  "opRevert f = return_mem f"

definition opStop :: execution where
  "opStop f = ok0 f"

definition opSuicide :: execution where
  "opSuicide f =
     (case f_stack f of
        a # st \<Rightarrow>
          (let self = c_self (f_contract f);
               (s1, b) = GetBalance self (f_sdb f);
               s2 = AddBalance (BigToAddress a) b s1;
               (s3, _) = Suicide self s2
           in ok0 (with_stack st (set_sdb s3 f)))
      | _ \<Rightarrow> Panic)"

subsection \<open>Parameterised instructions\<close>

definition makeLog :: "nat \<Rightarrow> execution" where
  "makeLog n f =
     (case f_stack f of
        mStart # mSize # rest \<Rightarrow>
          if length rest < n then Panic
          else
            obind (Memory_Get (bigInt64_value mStart) (bigInt64_value mSize) (f_mem f))
              (\<lambda>d.
                 (let log = \<lparr>log_Address = c_self (f_contract f), log_Topics = map BigToHash (take n rest),
                             log_Data = d, log_BlockNumber = bigUint64_value (ctx_BlockNumber (evm_Context (f_evm f))),
                             log_TxHash = 0, log_TxIndex = 0, log_BlockHash = 0, log_Index = 0\<rparr>
                  in ok0 (with_stack (drop n rest) (set_sdb (AddLog log (f_sdb f)) f))))
      | _ \<Rightarrow> Panic)"

definition makePush :: "uint64 \<Rightarrow> nat \<Rightarrow> execution" where
  "makePush sz pushByteSize f =
     (let code = c_Code (f_contract f);
          codeLen = int (length code);
          start = sint (f_pc f + 1);
          startMin = (if start < codeLen then start else codeLen);
          endMin = (if startMin + int pushByteSize < codeLen then startMin + int pushByteSize else codeLen)
      in if startMin < 0 then Panic
         else
           ok0 (with_stack
             (SetBytes (RightPadBytes (take (nat endMin - nat startMin) (drop (nat startMin) code)) pushByteSize)
                # f_stack f)
             (f\<lparr>f_pc := f_pc f + sz\<rparr>)))"

definition makeDup :: "nat \<Rightarrow> execution" where
  "makeDup n f = obind (dup_st n (f_stack f)) (\<lambda>st. ok0 (with_stack st f))"

definition makeSwap :: "nat \<Rightarrow> execution" where
  "makeSwap n f = obind (swap_st (n + 1) (f_stack f)) (\<lambda>st. ok0 (with_stack st f))"

end
