(* ===== verification/EVM_Calls.thy ===== *)
theory EVM_Calls
  imports EVM_Precompiles EVM_Instructions
begin

text \<open>
  Message calls and contract creation: \<open>Call\<close>, \<open>CallCode\<close>, \<open>DelegateCall\<close>, \<open>StaticCall\<close> and
  \<open>Create\<close> of \<open>src/vm/solc/evm.go\<close> and the five instructions that invoke them. The byte code
  interpreter and these functions call each other; here they take the interpreter's \<open>Run\<close> as the
  argument \<open>runner\<close>, and the interpreter ties the knot.
\<close>

type_synonym runner = "EVM \<Rightarrow> Contract \<Rightarrow> bytes \<Rightarrow> (EVM \<times> Contract \<times> bytes \<times> vm_error option) outcome"

definition precompiles :: "EVM \<Rightarrow> Address \<Rightarrow> PrecompiledContract option" where
  "precompiles evm addr =
     (if evm_IsByzantium evm then PrecompiledContractsByzantium addr else PrecompiledContractsHomestead addr)"

definition evm_keccak :: "EVM \<Rightarrow> bytes \<Rightarrow> Hash" where
  "evm_keccak evm = db_Keccak256 (sdb_db (evm_StateDB evm))"

definition run :: "runner \<Rightarrow> runner" where
  "run runner evm contract input =
     (case (case c_CodeAddr contract of None \<Rightarrow> None | Some a \<Rightarrow> precompiles evm a) of
        Some p \<Rightarrow>
          obind (RunPrecompiledContract (evm_native evm) (evm_keccak evm) p input contract)
            (\<lambda>(c1, ret, err). Done (evm, c1, ret, err))
      | None \<Rightarrow> runner evm contract input)"

definition settle :: "int \<Rightarrow> EVM \<times> Contract \<times> bytes \<times> vm_error option \<Rightarrow>
     (EVM \<times> bytes \<times> uint64 \<times> vm_error option) outcome" where
  \<comment> \<open>the common end of the four calls: on an error revert, and unless the contract asked for it
     take the remaining gas\<close>
  "settle snapshot r =
     (case r of (evm, contract, ret, err) \<Rightarrow>
        if err = None then Done (evm, ret, c_Gas contract, None)
        else
          obind (RevertToSnapshot snapshot (evm_StateDB evm))
            (\<lambda>s. (let c1 = (if err \<noteq> Some errExecutionReverted then fst (UseGas (c_Gas contract) contract)
                            else contract)
                  in Done (evm\<lparr>evm_StateDB := s\<rparr>, ret, c_Gas c1, err))))"

definition shared_jumpdests :: "ContractRef \<Rightarrow> EVM \<Rightarrow> EVM" where
  \<comment> \<open>\<open>NewContract\<close> takes over the analysis cache of a calling contract and starts a new one otherwise\<close>
  "shared_jumpdests caller evm =
     (case caller of
        ContractCaller _ \<Rightarrow> evm
      | AccountRef _ \<Rightarrow> evm\<lparr>evm_jumpdests := Map.empty\<rparr>)"

definition load_code :: "Address \<Rightarrow> EVM \<Rightarrow> Contract \<Rightarrow> EVM \<times> Contract" where
  \<comment> \<open>\<open>contract.SetCallCode(&addr, evm.StateDB.GetCodeHash(addr), evm.StateDB.GetCode(addr))\<close>\<close>
  "load_code addr evm contract =
     (let (s1, codeHash) = GetCodeHash addr (evm_StateDB evm);
          (s2, code) = GetCode addr s1
      in (evm\<lparr>evm_StateDB := s2\<rparr>, SetCallCode addr codeHash (code_bytes code) contract))"

definition Call ::
  "runner \<Rightarrow> ContractRef \<Rightarrow> Address \<Rightarrow> bytes \<Rightarrow> uint64 \<Rightarrow> int \<Rightarrow> EVM \<Rightarrow>
     (EVM \<times> bytes \<times> uint64 \<times> vm_error option) outcome" where
  "Call runner caller addr input gas value evm =
     (if cfg_NoRecursion (evm_vmConfig evm) \<and> evm_depth evm > 0 then Done (evm, [], gas, None)
      else if evm_depth evm > CallCreateDepth then Done (evm, [], gas, Some ErrDepth)
      else
        (let (s0, can) = CanTransfer (evm_StateDB evm) (ref_Address caller) value
         in if \<not> can then Done (evm\<lparr>evm_StateDB := s0\<rparr>, [], gas, Some ErrInsufficientBalance)
            else
              (let (s1, snapshot) = Snapshot s0;
                   (s2, exists) = Exist addr s1
               in if \<not> exists \<and> precompiles evm addr = None \<and> value = 0
                  then Done (evm\<lparr>evm_StateDB := s2\<rparr>, [], gas, None)
                  else
                    (let s3 = (if exists then s2 else CreateAccount addr s2);
                         s4 = Transfer (ref_Address caller) addr value s3;
                         (evm1, contract) = load_code addr (shared_jumpdests caller (evm\<lparr>evm_StateDB := s4\<rparr>))
                           (NewContract caller addr value gas)
                     in obind (run runner evm1 contract input) (settle snapshot)))))"

definition CallCode ::
  "runner \<Rightarrow> ContractRef \<Rightarrow> Address \<Rightarrow> bytes \<Rightarrow> uint64 \<Rightarrow> int \<Rightarrow> EVM \<Rightarrow>
     (EVM \<times> bytes \<times> uint64 \<times> vm_error option) outcome" where
  "CallCode runner caller addr input gas value evm =
     (if cfg_NoRecursion (evm_vmConfig evm) \<and> evm_depth evm > 0 then Done (evm, [], gas, None)
      else if evm_depth evm > CallCreateDepth then Done (evm, [], gas, Some ErrDepth)
      else
        (let (s0, can) = CanTransfer (evm_StateDB evm) (ref_Address caller) value
         in if \<not> can then Done (evm\<lparr>evm_StateDB := s0\<rparr>, [], gas, Some ErrInsufficientBalance)
            else
              (let (s1, snapshot) = Snapshot s0;
                   (evm1, contract) = load_code addr (shared_jumpdests caller (evm\<lparr>evm_StateDB := s1\<rparr>))
                     (NewContract caller (ref_Address caller) value gas)
               in obind (run runner evm1 contract input) (settle snapshot))))"

definition DelegateCall ::
  "runner \<Rightarrow> ContractRef \<Rightarrow> Address \<Rightarrow> bytes \<Rightarrow> uint64 \<Rightarrow> EVM \<Rightarrow>
     (EVM \<times> bytes \<times> uint64 \<times> vm_error option) outcome" where
  \<comment> \<open>the nil value of \<open>NewContract\<close> is overwritten by \<open>AsDelegate\<close>\<close>
  "DelegateCall runner caller addr input gas evm =
     (if cfg_NoRecursion (evm_vmConfig evm) \<and> evm_depth evm > 0 then Done (evm, [], gas, None)
      else if evm_depth evm > CallCreateDepth then Done (evm, [], gas, Some ErrDepth)
      else
        (let (s1, snapshot) = Snapshot (evm_StateDB evm)
         in obind (AsDelegate caller (NewContract caller (ref_Address caller) 0 gas))
              (\<lambda>c0. (let (evm1, contract) = load_code addr (shared_jumpdests caller (evm\<lparr>evm_StateDB := s1\<rparr>)) c0
                     in obind (run runner evm1 contract input) (settle snapshot)))))"

definition StaticCall ::
  "runner \<Rightarrow> ContractRef \<Rightarrow> Address \<Rightarrow> bytes \<Rightarrow> uint64 \<Rightarrow> EVM \<Rightarrow>
     (EVM \<times> bytes \<times> uint64 \<times> vm_error option) outcome" where
  "StaticCall runner caller addr input gas evm =
     (if cfg_NoRecursion (evm_vmConfig evm) \<and> evm_depth evm > 0 then Done (evm, [], gas, None)
      else if evm_depth evm > CallCreateDepth then Done (evm, [], gas, Some ErrDepth)
      else
        (let evm0 = evm\<lparr>evm_readOnly := True\<rparr>;
             (s1, snapshot) = Snapshot (evm_StateDB evm0);
             (evm1, contract) = load_code addr (shared_jumpdests caller (evm0\<lparr>evm_StateDB := s1\<rparr>))
               (NewContract caller addr 0 gas)
         in obind (obind (run runner evm1 contract input) (settle snapshot))
              (\<lambda>(evm2, r). Done (evm2\<lparr>evm_readOnly := evm_readOnly evm\<rparr>, r))))"

definition store_code :: "Address \<Rightarrow> EVM \<times> Contract \<times> bytes \<times> vm_error option \<Rightarrow>
     EVM \<times> Contract \<times> bytes \<times> vm_error option" where
  \<comment> \<open>charge for and store the code that the constructor returned; an empty result is a nil slice\<close>
  "store_code addr r =
     (case r of (evm, contract, ret, err) \<Rightarrow>
        if err = None \<and> length ret \<le> MaxCodeSize
        then (let (c1, enough) = UseGas (word_of_nat (length ret) * CreateDataGas) contract
              in if enough
                 then (evm\<lparr>evm_StateDB := SetCode addr (if ret = [] then None else Some ret) (evm_StateDB evm)\<rparr>,
                       c1, ret, None)
                 else (evm, c1, ret, Some ErrCodeStoreOutOfGas))
        else (evm, contract, ret, err))"

definition settle_create :: "int \<Rightarrow> Address \<Rightarrow> EVM \<times> Contract \<times> bytes \<times> vm_error option \<Rightarrow>
     (EVM \<times> bytes \<times> Address \<times> uint64 \<times> vm_error option) outcome" where
  "settle_create snapshot addr r =
     (case r of (evm, contract, ret, err) \<Rightarrow>
        (let exceeded = length ret > MaxCodeSize;
             err' = (if exceeded \<and> err = None then Some errMaxCodeSizeExceeded else err)
         in if exceeded \<or> (err \<noteq> None \<and> err \<noteq> Some ErrCodeStoreOutOfGas)
            then
              obind (RevertToSnapshot snapshot (evm_StateDB evm))
                (\<lambda>s. (let c1 = (if err \<noteq> Some errExecutionReverted then fst (UseGas (c_Gas contract) contract)
                                else contract)
                      in Done (evm\<lparr>evm_StateDB := s\<rparr>, ret, addr, c_Gas c1, err')))
            else Done (evm, ret, addr, c_Gas contract, err')))"

definition Create ::
  "runner \<Rightarrow> ContractRef \<Rightarrow> bytes \<Rightarrow> uint64 \<Rightarrow> int \<Rightarrow> EVM \<Rightarrow>
     (EVM \<times> bytes \<times> Address \<times> uint64 \<times> vm_error option) outcome" where
  "Create runner caller code gas value evm =
     (if evm_depth evm > CallCreateDepth then Done (evm, [], 0, gas, Some ErrDepth)
      else
        (let (s0, can) = CanTransfer (evm_StateDB evm) (ref_Address caller) value
         in if \<not> can then Done (evm\<lparr>evm_StateDB := s0\<rparr>, [], 0, gas, Some ErrInsufficientBalance)
            else
              (let (s1, nonce) = GetNonce (ref_Address caller) s0;
                   s2 = SetNonce (ref_Address caller) (nonce + 1) s1;
                   contractAddr = CreateAddress (evm_keccak evm) (ref_Address caller) nonce;
                   (s3, contractHash) = GetCodeHash contractAddr s2;
                   (s4, n) = GetNonce contractAddr s3
               in if n \<noteq> 0 \<or> (contractHash \<noteq> 0 \<and> contractHash \<noteq> emptyCodeHash (sdb_db s4))
                  then Done (evm\<lparr>evm_StateDB := s4\<rparr>, [], 0, 0, Some ErrContractAddressCollision)
                  else
                    (let (s5, snapshot) = Snapshot s4;
                         s6 = Transfer (ref_Address caller) contractAddr value
                                (SetNonce contractAddr 1 (CreateAccount contractAddr s5));
                         evm1 = shared_jumpdests caller (evm\<lparr>evm_StateDB := s6\<rparr>);
                         contract = SetCallCode contractAddr (evm_keccak evm code) code
                           (NewContract caller contractAddr value gas)
                     in if cfg_NoRecursion (evm_vmConfig evm) \<and> evm_depth evm > 0
                        then Done (evm1, [], contractAddr, gas, None)
                        else
                          obind (run runner evm1 contract [])
                            (\<lambda>r. settle_create snapshot contractAddr (store_code contractAddr r))))))"

subsection \<open>The calling instructions: instructions.go\<close>

definition with_gas :: "uint64 \<Rightarrow> Frame \<Rightarrow> Frame" where
  "with_gas g f = f\<lparr>f_contract := (f_contract f)\<lparr>c_Gas := g\<rparr>\<rparr>"

definition opCreate :: "runner \<Rightarrow> execution" where
  "opCreate runner f =
     (case f_stack f of
        value # offset # sz # st \<Rightarrow>
          obind (Memory_Get (bigInt64_value offset) (bigInt64_value sz) (f_mem f))
            (\<lambda>input.
               (let gas0 = c_Gas (f_contract f);
                    gas = gas0 - gas0 div 64;
                    c1 = fst (UseGas gas (f_contract f))
                in obind (Create runner (ContractCaller c1) input gas value (f_evm f))
                     (\<lambda>(evm, res, addr, returnGas, suberr).
                        Done (with_gas (c_Gas c1 + returnGas)
                                (with_stack ((if suberr \<noteq> None then 0 else Address_Big addr) # st) (f\<lparr>f_evm := evm\<rparr>)),
                              if suberr = Some errExecutionReverted then res else [], None))))
      | _ \<Rightarrow> Panic)"

definition after_call :: "int \<Rightarrow> int \<Rightarrow> Stack \<Rightarrow> Frame \<Rightarrow> EVM \<times> bytes \<times> uint64 \<times> vm_error option \<Rightarrow>
     (Frame \<times> bytes \<times> vm_error option) outcome" where
  \<comment> \<open>the common end of the four call instructions\<close>
  "after_call retOffset retSize st f r =
     (case r of (evm, ret, returnGas, err) \<Rightarrow>
        obind (if err = None \<or> err = Some errExecutionReverted
               then Memory_Set (bigUint64_value retOffset) (bigUint64_value retSize) ret (f_mem f)
               else Done (f_mem f))
          (\<lambda>m. Done (with_gas (c_Gas (f_contract f) + returnGas)
                       (with_stack ((if err \<noteq> None then 0 else 1) # st) (f\<lparr>f_evm := evm, f_mem := m\<rparr>)),
                     ret, None)))"

definition opCall :: "runner \<Rightarrow> execution" where
  "opCall runner f =
     (case f_stack f of
        _ # addr # value # inOffset # inSize # retOffset # retSize # st \<Rightarrow>
          obind (Memory_Get (bigInt64_value inOffset) (bigInt64_value inSize) (f_mem f))
            (\<lambda>args.
               (let v = U256 value;
                    gas = evm_callGasTemp (f_evm f) + (if v \<noteq> 0 then CallStipend else 0)
                in obind (Call runner (ContractCaller (f_contract f)) (BigToAddress addr) args gas v (f_evm f))
                     (after_call retOffset retSize st f)))
      | _ \<Rightarrow> Panic)"

definition opCallCode :: "runner \<Rightarrow> execution" where
  "opCallCode runner f =
     (case f_stack f of
        _ # addr # value # inOffset # inSize # retOffset # retSize # st \<Rightarrow>
          obind (Memory_Get (bigInt64_value inOffset) (bigInt64_value inSize) (f_mem f))
            (\<lambda>args.
               (let v = U256 value;
                    gas = evm_callGasTemp (f_evm f) + (if v \<noteq> 0 then CallStipend else 0)
                in obind (CallCode runner (ContractCaller (f_contract f)) (BigToAddress addr) args gas v (f_evm f))
                     (after_call retOffset retSize st f)))
      | _ \<Rightarrow> Panic)"

definition opDelegateCall :: "runner \<Rightarrow> execution" where
  "opDelegateCall runner f =
     (case f_stack f of
        _ # addr # inOffset # inSize # retOffset # retSize # st \<Rightarrow>
          obind (Memory_Get (bigInt64_value inOffset) (bigInt64_value inSize) (f_mem f))
            (\<lambda>args.
               obind (DelegateCall runner (ContractCaller (f_contract f)) (BigToAddress addr) args
                        (evm_callGasTemp (f_evm f)) (f_evm f))
                 (after_call retOffset retSize st f))
      | _ \<Rightarrow> Panic)"

definition opStaticCall :: "runner \<Rightarrow> execution" where
  "opStaticCall runner f =
     (case f_stack f of
        _ # addr # inOffset # inSize # retOffset # retSize # st \<Rightarrow>
          obind (Memory_Get (bigInt64_value inOffset) (bigInt64_value inSize) (f_mem f))
            (\<lambda>args.
               obind (StaticCall runner (ContractCaller (f_contract f)) (BigToAddress addr) args
                        (evm_callGasTemp (f_evm f)) (f_evm f))
                 (after_call retOffset retSize st f))
      | _ \<Rightarrow> Panic)"

end
