(* ===== verification/EVM_Interpreter.thy ===== *)
theory EVM_Interpreter
  imports EVM_Calls
begin

text \<open>
  The byte code interpreter: the instruction tables of \<open>src/vm/solc/jump_table.go\<close> and \<open>Run\<close> of
  \<open>src/vm/solc/interpreter.go\<close>. An entry that is present in a table is one with \<open>valid: true\<close>.

  The main loop takes fuel: one unit per instruction, and a nested call runs on what is left. That a
  run with more fuel than gas never uses it up is proved in \<open>EVM_Safety\<close>. The flag \<open>abort\<close> is read at
  every turn of the loop and is constant during a run here; \<open>Cancel\<close> sets it between runs.
\<close>

record operation =
  op_execute :: "runner \<Rightarrow> execution"
  op_gasCost :: gasFunc
  op_validateStack :: "Stack \<Rightarrow> vm_error option"
  op_memorySize :: "(Stack \<Rightarrow> int outcome) option"
  op_halts :: bool
  op_jumps :: bool
  op_writes :: bool
  op_reverts :: bool
  op_returns :: bool

definition plain :: "execution \<Rightarrow> runner \<Rightarrow> execution" where
  "plain ex = (\<lambda>runner. ex)"

definition operation_of :: "(runner \<Rightarrow> execution) \<Rightarrow> gasFunc \<Rightarrow> (Stack \<Rightarrow> vm_error option) \<Rightarrow> operation" where
  "operation_of ex gas validate =
     \<lparr>op_execute = ex, op_gasCost = gas, op_validateStack = validate, op_memorySize = None,
      op_halts = False, op_jumps = False, op_writes = False, op_reverts = False, op_returns = False\<rparr>"

type_synonym jump_table = "(byte \<times> operation) list"

subsection \<open>Instruction tables: jump_table.go\<close>

definition table_arithmetic :: jump_table where
  "table_arithmetic =
     [(0x00, (operation_of (plain opStop) (constGasFunc 0) (makeStackFunc 0 0))\<lparr>op_halts := True\<rparr>),
      (0x01, operation_of (plain opAdd) (constGasFunc GasFastestStep) (makeStackFunc 2 1)),
      (0x02, operation_of (plain opMul) (constGasFunc GasFastStep) (makeStackFunc 2 1)),
      (0x03, operation_of (plain opSub) (constGasFunc GasFastestStep) (makeStackFunc 2 1)),
      (0x04, operation_of (plain opDiv) (constGasFunc GasFastStep) (makeStackFunc 2 1)),
      (0x05, operation_of (plain opSdiv) (constGasFunc GasFastStep) (makeStackFunc 2 1)),
      (0x06, operation_of (plain opMod) (constGasFunc GasFastStep) (makeStackFunc 2 1)),
      (0x07, operation_of (plain opSmod) (constGasFunc GasFastStep) (makeStackFunc 2 1)),
      (0x08, operation_of (plain opAddmod) (constGasFunc GasMidStep) (makeStackFunc 3 1)),
      (0x09, operation_of (plain opMulmod) (constGasFunc GasMidStep) (makeStackFunc 3 1)),
      (0x0a, operation_of (plain opExp) gasExp (makeStackFunc 2 1)),
      (0x0b, operation_of (plain opSignExtend) (constGasFunc GasFastStep) (makeStackFunc 2 1))]"

definition table_comparison :: jump_table where
  "table_comparison =
     [(0x10, operation_of (plain opLt) (constGasFunc GasFastestStep) (makeStackFunc 2 1)),
      (0x11, operation_of (plain opGt) (constGasFunc GasFastestStep) (makeStackFunc 2 1)),
      (0x12, operation_of (plain opSlt) (constGasFunc GasFastestStep) (makeStackFunc 2 1)),
      (0x13, operation_of (plain opSgt) (constGasFunc GasFastestStep) (makeStackFunc 2 1)),
      (0x14, operation_of (plain opEq) (constGasFunc GasFastestStep) (makeStackFunc 2 1)),
      (0x15, operation_of (plain opIszero) (constGasFunc GasFastestStep) (makeStackFunc 1 1)),
      (0x16, operation_of (plain opAnd) (constGasFunc GasFastestStep) (makeStackFunc 2 1)),
      (0x18, operation_of (plain opXor) (constGasFunc GasFastestStep) (makeStackFunc 2 1)),
      (0x17, operation_of (plain opOr) (constGasFunc GasFastestStep) (makeStackFunc 2 1)),
      (0x19, operation_of (plain opNot) (constGasFunc GasFastestStep) (makeStackFunc 1 1)),
      (0x1a, operation_of (plain opByte) (constGasFunc GasFastestStep) (makeStackFunc 2 1)),
      (0x20, (operation_of (plain opSha3) gasSha3 (makeStackFunc 2 1))\<lparr>op_memorySize := Some memorySha3\<rparr>)]"

definition table_environment :: jump_table where
  "table_environment =
     [(0x30, operation_of (plain opAddress) (constGasFunc GasQuickStep) (makeStackFunc 0 1)),
      (0x31, operation_of (plain opBalance) gasBalance (makeStackFunc 1 1)),
      (0x32, operation_of (plain opOrigin) (constGasFunc GasQuickStep) (makeStackFunc 0 1)),
      (0x33, operation_of (plain opCaller) (constGasFunc GasQuickStep) (makeStackFunc 0 1)),
      (0x34, operation_of (plain opCallValue) (constGasFunc GasQuickStep) (makeStackFunc 0 1)),
      (0x35, operation_of (plain opCallDataLoad) (constGasFunc GasFastestStep) (makeStackFunc 1 1)),
      (0x36, operation_of (plain opCallDataSize) (constGasFunc GasQuickStep) (makeStackFunc 0 1)),
      (0x37, (operation_of (plain opCallDataCopy) gasCallDataCopy (makeStackFunc 3 0))\<lparr>op_memorySize := Some memoryCallDataCopy\<rparr>),
      (0x38, operation_of (plain opCodeSize) (constGasFunc GasQuickStep) (makeStackFunc 0 1)),
      (0x39, (operation_of (plain opCodeCopy) gasCodeCopy (makeStackFunc 3 0))\<lparr>op_memorySize := Some memoryCodeCopy\<rparr>),
      (0x3a, operation_of (plain opGasprice) (constGasFunc GasQuickStep) (makeStackFunc 0 1)),
      (0x3b, operation_of (plain opExtCodeSize) gasExtCodeSize (makeStackFunc 1 1)),
      (0x3c, (operation_of (plain opExtCodeCopy) gasExtCodeCopy (makeStackFunc 4 0))\<lparr>op_memorySize := Some memoryExtCodeCopy\<rparr>),
      (0x40, operation_of (plain opBlockhash) (constGasFunc GasExtStep) (makeStackFunc 1 1)),
      (0x41, operation_of (plain opCoinbase) (constGasFunc GasQuickStep) (makeStackFunc 0 1)),
      (0x42, operation_of (plain opTimestamp) (constGasFunc GasQuickStep) (makeStackFunc 0 1)),
      (0x43, operation_of (plain opNumber) (constGasFunc GasQuickStep) (makeStackFunc 0 1)),
      (0x44, operation_of (plain opDifficulty) (constGasFunc GasQuickStep) (makeStackFunc 0 1)),
      (0x45, operation_of (plain opGasLimit) (constGasFunc GasQuickStep) (makeStackFunc 0 1))]"

definition table_storage_flow :: jump_table where
  "table_storage_flow =
     [(0x50, operation_of (plain opPop) (constGasFunc GasQuickStep) (makeStackFunc 1 0)),
      (0x51, (operation_of (plain opMload) gasMLoad (makeStackFunc 1 1))\<lparr>op_memorySize := Some memoryMLoad\<rparr>),
      (0x52, (operation_of (plain opMstore) gasMStore (makeStackFunc 2 0))\<lparr>op_memorySize := Some memoryMStore\<rparr>),
      (0x53, (operation_of (plain opMstore8) gasMStore8 (makeStackFunc 2 0))\<lparr>op_memorySize := Some memoryMStore8\<rparr>),
      (0x54, operation_of (plain opSload) gasSLoad (makeStackFunc 1 1)),
      (0x55, (operation_of (plain opSstore) gasSStore (makeStackFunc 2 0))\<lparr>op_writes := True\<rparr>),
      (0x56, (operation_of (plain opJump) (constGasFunc GasMidStep) (makeStackFunc 1 0))\<lparr>op_jumps := True\<rparr>),
      (0x57, (operation_of (plain opJumpi) (constGasFunc GasSlowStep) (makeStackFunc 2 0))\<lparr>op_jumps := True\<rparr>),
      (0x58, operation_of (plain opPc) (constGasFunc GasQuickStep) (makeStackFunc 0 1)),
      (0x59, operation_of (plain opMsize) (constGasFunc GasQuickStep) (makeStackFunc 0 1)),
      (0x5a, operation_of (plain opGas) (constGasFunc GasQuickStep) (makeStackFunc 0 1)),
      (0x5b, operation_of (plain opJumpdest) (constGasFunc JumpdestGas) (makeStackFunc 0 0))]"

definition table_push :: jump_table where
  \<comment> \<open>the thirty-two entries PUSH1 to PUSH32\<close>
  "table_push =
     map (\<lambda>n. (0x5f + word_of_nat n, operation_of (plain (makePush (word_of_nat n) n)) gasPush (makeStackFunc 0 1))) [1..<33]"

definition table_dup :: jump_table where
  \<comment> \<open>the sixteen entries DUP1 to DUP16\<close>
  "table_dup =
     map (\<lambda>n. (0x7f + word_of_nat n, operation_of (plain (makeDup n)) gasDup (makeDupStackFunc n))) [1..<17]"

definition table_swap :: jump_table where
  \<comment> \<open>the sixteen entries SWAP1 to SWAP16\<close>
  "table_swap =
     map (\<lambda>n. (0x8f + word_of_nat n, operation_of (plain (makeSwap n)) gasSwap (makeSwapStackFunc (n + 1)))) [1..<17]"

definition table_log :: jump_table where
  "table_log =
     [(0xa0, (operation_of (plain (makeLog 0)) (makeGasLog 0) (makeStackFunc 2 0))\<lparr>op_memorySize := Some memoryLog, op_writes := True\<rparr>),
      (0xa1, (operation_of (plain (makeLog 1)) (makeGasLog 1) (makeStackFunc 3 0))\<lparr>op_memorySize := Some memoryLog, op_writes := True\<rparr>),
      (0xa2, (operation_of (plain (makeLog 2)) (makeGasLog 2) (makeStackFunc 4 0))\<lparr>op_memorySize := Some memoryLog, op_writes := True\<rparr>),
      (0xa3, (operation_of (plain (makeLog 3)) (makeGasLog 3) (makeStackFunc 5 0))\<lparr>op_memorySize := Some memoryLog, op_writes := True\<rparr>),
      (0xa4, (operation_of (plain (makeLog 4)) (makeGasLog 4) (makeStackFunc 6 0))\<lparr>op_memorySize := Some memoryLog, op_writes := True\<rparr>)]"

definition table_system :: jump_table where
  "table_system =
     [(0xf0, (operation_of opCreate gasCreate (makeStackFunc 3 1))\<lparr>op_memorySize := Some memoryCreate, op_writes := True, op_returns := True\<rparr>),
      (0xf1, (operation_of opCall gasCall (makeStackFunc 7 1))\<lparr>op_memorySize := Some memoryCall, op_returns := True\<rparr>),
      (0xf2, (operation_of opCallCode gasCallCode (makeStackFunc 7 1))\<lparr>op_memorySize := Some memoryCall, op_returns := True\<rparr>),
      (0xf3, (operation_of (plain opReturn) gasReturn (makeStackFunc 2 0))\<lparr>op_memorySize := Some memoryReturn, op_halts := True\<rparr>),
      (0xff, (operation_of (plain opSuicide) gasSuicide (makeStackFunc 1 0))\<lparr>op_halts := True, op_writes := True\<rparr>)]"

definition NewFrontierInstructionSet :: jump_table where
  "NewFrontierInstructionSet =
     table_arithmetic @ table_comparison @ table_environment @ table_storage_flow @ table_push @
     table_dup @ table_swap @ table_log @ table_system"

definition NewHomesteadInstructionSet :: jump_table where
  "NewHomesteadInstructionSet =
     (0xf4, (operation_of opDelegateCall gasDelegateCall (makeStackFunc 6 1))
        \<lparr>op_memorySize := Some memoryDelegateCall, op_returns := True\<rparr>) # NewFrontierInstructionSet"

definition NewByzantiumInstructionSet :: jump_table where
  "NewByzantiumInstructionSet =
     [(0xfa, (operation_of opStaticCall gasStaticCall (makeStackFunc 6 1))
         \<lparr>op_memorySize := Some memoryStaticCall, op_returns := True\<rparr>),
      (0x3d, operation_of (plain opReturnDataSize) (constGasFunc GasQuickStep) (makeStackFunc 0 1)),
      (0x3e, (operation_of (plain opReturnDataCopy) gasReturnDataCopy (makeStackFunc 3 0))
         \<lparr>op_memorySize := Some memoryReturnDataCopy\<rparr>),
      (0xfd, (operation_of (plain opRevert) gasRevert (makeStackFunc 2 0))
         \<lparr>op_memorySize := Some memoryRevert, op_reverts := True, op_returns := True\<rparr>)] @
     NewHomesteadInstructionSet"

definition instructionSet :: "EVM \<Rightarrow> byte \<Rightarrow> operation option" where
  "instructionSet evm =
     map_of (if evm_IsByzantium evm then NewByzantiumInstructionSet else NewFrontierInstructionSet)"

subsection \<open>One turn of the loop: interpreter.go\<close>

definition CALL :: byte where "CALL = 0xf1"

definition enforceRestrictions :: "EVM \<Rightarrow> byte \<Rightarrow> operation \<Rightarrow> Stack \<Rightarrow> vm_error option" where
  "enforceRestrictions evm op oper st =
     (if evm_IsByzantium evm \<and> evm_readOnly evm \<and> (op_writes oper \<or> (op = CALL \<and> BitLen (st ! 2) > 0))
      then Some errWriteProtection else None)"

definition requiredMemory :: "operation \<Rightarrow> Stack \<Rightarrow> (vm_error + uint64) outcome" where
  "requiredMemory oper st =
     (case op_memorySize oper of
        None \<Rightarrow> Done (Inr 0)
      | Some memorySize \<Rightarrow>
          obind (memorySize st)
            (\<lambda>n. (let (memSize, overflow) = bigUint64 n
                  in if overflow then Done (Inl errGasUintOverflow)
                     else
                       (let (sz, overflow') = SafeMul (toWordSize memSize) 32
                        in Done (if overflow' then Inl errGasUintOverflow else Inr sz)))))"

definition consumeGas :: "operation \<Rightarrow> Frame \<Rightarrow> uint64 \<Rightarrow> (Frame \<times> bool) outcome" where
  "consumeGas oper f memorySize =
     (if cfg_DisableGasMetering (evm_vmConfig (f_evm f)) then Done (f, True)
      else
        obind (op_gasCost oper f memorySize)
          (\<lambda>(f1, r). case r of
             Inl _ \<Rightarrow> Done (f1, False)
           | Inr cost \<Rightarrow>
               (let (c, enough) = UseGas cost (f_contract f1) in Done (f1\<lparr>f_contract := c\<rparr>, enough))))"

type_synonym run_result = "EVM \<times> Contract \<times> bytes \<times> vm_error option"

definition leave :: "Frame \<Rightarrow> bytes \<Rightarrow> vm_error option \<Rightarrow> (Frame + run_result) outcome" where
  \<comment> \<open>\<open>return ret, err\<close>\<close>
  "leave f ret err = Done (Inr (f_evm f, f_contract f, ret, err))"

definition advance :: "operation \<Rightarrow> Frame \<times> bytes \<times> vm_error option \<Rightarrow> (Frame + run_result) outcome" where
  \<comment> \<open>after the instruction: keep the return data, then return, revert, halt or go on\<close>
  "advance oper r =
     (case r of (f, res, err) \<Rightarrow>
        (let f1 = (if op_returns oper then f\<lparr>f_evm := (f_evm f)\<lparr>evm_returnData := res\<rparr>\<rparr> else f)
         in if err \<noteq> None then leave f1 [] err
            else if op_reverts oper then leave f1 res (Some errExecutionReverted)
            else if op_halts oper then leave f1 res None
            else Done (Inl (if op_jumps oper then f1 else f1\<lparr>f_pc := f_pc f1 + 1\<rparr>))))"

definition perform :: "runner \<Rightarrow> operation \<Rightarrow> Frame \<Rightarrow> (Frame + run_result) outcome" where
  \<comment> \<open>memory size, gas, memory expansion and execution of a valid, permitted operation\<close>
  "perform runner oper f =
     obind (requiredMemory oper (f_stack f))
       (\<lambda>ms. case ms of
          Inl err \<Rightarrow> leave f [] (Some err)
        | Inr memorySize \<Rightarrow>
            obind (consumeGas oper f memorySize)
              (\<lambda>(f1, enough).
                 if \<not> enough then leave f1 [] (Some ErrOutOfGas)
                 else
                   obind (op_execute oper runner
                            (if memorySize > 0 then f1\<lparr>f_mem := Memory_Resize memorySize (f_mem f1)\<rparr> else f1))
                     (advance oper)))"

definition step :: "runner \<Rightarrow> Frame \<Rightarrow> (Frame + run_result) outcome" where
  "step runner f =
     (if evm_abort (f_evm f) then leave f [] None
      else
        (let op = GetOp (f_contract f) (f_pc f)
         in case instructionSet (f_evm f) op of
              None \<Rightarrow> leave f [] (Some (errInvalidOpCode op))
            | Some oper \<Rightarrow>
                (case op_validateStack oper (f_stack f) of
                   Some err \<Rightarrow> leave f [] (Some err)
                 | None \<Rightarrow>
                     (case enforceRestrictions (f_evm f) op oper (f_stack f) of
                        Some err \<Rightarrow> leave f [] (Some err)
                      | None \<Rightarrow> perform runner oper f))))"

subsection \<open>The loop and Run\<close>

definition initialFrame :: "EVM \<Rightarrow> Contract \<Rightarrow> bytes \<Rightarrow> Frame" where
  "initialFrame evm contract input =
     \<lparr>f_pc = 0, f_contract = contract\<lparr>c_Input := input\<rparr>, f_mem = NewMemory, f_stack = [], f_evm = evm\<rparr>"

definition Run_with :: "(Frame \<Rightarrow> run_result outcome) \<Rightarrow> runner" where
  "Run_with loop evm contract input =
     (let evm1 = evm\<lparr>evm_depth := evm_depth evm + 1, evm_returnData := []\<rparr>
      in obind (if c_Code contract = [] then Done (evm1, contract, [], None)
                else loop (initialFrame evm1 contract input))
           (\<lambda>(evm2, r). Done (evm2\<lparr>evm_depth := evm_depth evm2 - 1\<rparr>, r)))"

primrec loop :: "nat \<Rightarrow> Frame \<Rightarrow> run_result outcome" where
  "loop 0 f = OutOfFuel"
| "loop (Suc fuel) f =
     obind (step (Run_with (loop fuel)) f)
       (\<lambda>r. case r of Inl f' \<Rightarrow> loop fuel f' | Inr result \<Rightarrow> Done result)"

definition Run :: "nat \<Rightarrow> runner" where
  "Run fuel = Run_with (loop fuel)"

end
