(* ===== verification/EVM_Relations.thy ===== *)
theory EVM_Relations
  imports EVM_Interpreter
begin

text \<open>
  What the virtual machine may do to the state database, as an interface. The locale
  \<open>execution_relation\<close> is a relation between states, indexed by the read-only flag, that is closed
  under every change the machine makes: what holds of each change holds of whole executions. The
  proofs about the interpreter are done once, for any such relation; the locale is interpreted on
  two relations of the model, write protection and conservation of money.

  \<open>trans\<close> adds to the relation that the state was extended (so that an enclosing snapshot can still
  be reverted) and that the lengths of contract codes stay consistent with their hashes.
\<close>

subsection \<open>Code lengths and balances\<close>

text \<open>
  The cache of jump destinations is indexed by code hash. The machine reads a bitmap computed for
  another code if two codes have the same hash, and panics if that bitmap is too short. \<open>L\<close> gives
  the length of the code that belongs to a hash; that such a function exists says that the hash
  separates codes of different lengths. \<open>accounts_ok\<close> also says that no balance is negative.
\<close>

definition account_ok :: "(Hash \<Rightarrow> nat) \<Rightarrow> account_view \<Rightarrow> bool" where
  "account_ok L v \<longleftrightarrow>
     0 \<le> v_balance v \<and>
     (\<forall>c. v_code v = Some c \<and> c \<noteq> [] \<longrightarrow> length c = L (v_codeHash v) \<and> length c \<le> 2 ^ 40)"

definition accounts_ok :: "(Hash \<Rightarrow> nat) \<Rightarrow> StateDB \<Rightarrow> bool" where
  "accounts_ok L s \<longleftrightarrow>
     (\<forall>c. length c \<le> 2 ^ 40 \<longrightarrow> L (db_Keccak256 (sdb_db s) c) = length c) \<and>
     (\<forall>a v. view s a = Some v \<longrightarrow> account_ok L v)"

definition trans :: "(bool \<Rightarrow> StateDB \<Rightarrow> StateDB \<Rightarrow> bool) \<Rightarrow> (Hash \<Rightarrow> nat) \<Rightarrow> bool \<Rightarrow> StateDB \<Rightarrow> StateDB \<Rightarrow> bool" where
  "trans R L ro s s' \<longleftrightarrow> extends s s' \<and> R ro s s' \<and> (accounts_ok L s \<longrightarrow> accounts_ok L s')"

lemma account_ok_upd [simp]:
  "account_ok L v \<Longrightarrow> 0 \<le> b \<Longrightarrow> account_ok L (v\<lparr>v_balance := b\<rparr>)" "account_ok L (v\<lparr>v_nonce := n\<rparr>) = account_ok L v"
  "account_ok L (v\<lparr>v_storage := m\<rparr>) = account_ok L v" "account_ok L (v\<lparr>v_suicided := d\<rparr>) = account_ok L v"
  "account_ok L (fresh_view db a)"
  by (auto simp: account_ok_def)

lemma sized_acct: "accounts_ok L s \<Longrightarrow> account_ok L (acct s a)"
  by (auto simp: accounts_ok_def acct_def split: option.splits)

lemma accounts_ok_upd:
  "accounts_ok L s \<Longrightarrow> sdb_db s' = sdb_db s \<Longrightarrow> view s' = (view s)(a \<mapsto> v) \<Longrightarrow> account_ok L v \<Longrightarrow> accounts_ok L s'"
  by (auto simp: accounts_ok_def)

lemma accounts_ok_balance: "accounts_ok L s \<Longrightarrow> 0 \<le> balance s a"
  by (auto simp: accounts_ok_def account_ok_def balance_view split: option.splits)

lemma accounts_ok_obs: "observation s' = observation s \<Longrightarrow> accounts_ok L s \<Longrightarrow> accounts_ok L s'"
  by (simp add: observation_def accounts_ok_def)

subsection \<open>Reading does not change what can be observed\<close>

lemma extends_db: "extends s s' \<Longrightarrow> sdb_db s' = sdb_db s"
  by (simp add: extends_def)

lemma op_extends:
  assumes "wf_db s"
  shows "extends s (CreateAccount a s)" "extends s (AddBalance a n s)" "extends s (SubBalance a n s)"
    "extends s (SetNonce a m s)" "extends s (SetCode a c s)" "extends s (SetState a k v s)"
    "extends s (fst (Suicide a s))" "extends s (AddLog l s)" "extends s (AddPreimage h p s)"
    "extends s (AddRefund g s)" "extends s (fst (getStateObject a s))" "extends s (fst (GetCode a s))"
    "extends s (fst (GetCodeSize a s))" "extends s (fst (GetState a k s))"
  using extends_op [OF assms, of "OpCreateAccount a"] extends_op [OF assms, of "OpAddBalance a n"]
    extends_op [OF assms, of "OpSubBalance a n"] extends_op [OF assms, of "OpSetNonce a m"]
    extends_op [OF assms, of "OpSetCode a c"] extends_op [OF assms, of "OpSetState a k v"]
    extends_op [OF assms, of "OpSuicide a"] extends_op [OF assms, of "OpAddLog l"]
    extends_op [OF assms, of "OpAddPreimage h p"] extends_op [OF assms, of "OpAddRefund g"]
    extends_op [OF assms, of "OpLookup a"] extends_op [OF assms, of "OpGetCode a"]
    extends_op [OF assms, of "OpGetCodeSize a"] extends_op [OF assms, of "OpGetState a k"]
  by simp_all

lemma reader_states:
  "fst (GetBalance a s) = fst (getStateObject a s)" "fst (GetNonce a s) = fst (getStateObject a s)"
  "fst (GetCodeHash a s) = fst (getStateObject a s)" "fst (HasSuicided a s) = fst (getStateObject a s)"
  "fst (Exist a s) = fst (getStateObject a s)" "fst (Empty a s) = fst (getStateObject a s)"
  "fst (CanTransfer s a n) = fst (getStateObject a s)"
  by (simp_all add: GetBalance_def GetNonce_def GetCodeHash_def HasSuicided_def Exist_def Empty_def
      CanTransfer_def Let_def case_prod_beta)

lemma observation_lookup: "observation (fst (getStateObject a s)) = observation s"
  by (simp add: observation_def)

lemma observation_silent_upd:
  assumes "snd (getStateObject a s) = Some so" "\<not> so_deleted so'" "obj_view (sdb_db s) so' = obj_view (sdb_db s) so"
  shows "observation (updObj a (\<lambda>_. so') (fst (getStateObject a s))) = observation s"
proof -
  have "sdb_stateObjects (fst (getStateObject a s)) a = Some so" using assms by (simp add: getStateObject_objects)
  then have "view (updObj a (\<lambda>_. so') (fst (getStateObject a s))) = (view s)(a \<mapsto> obj_view (sdb_db s) so)"
    using assms by (subst view_updObj) simp_all
  also have "\<dots> = view s" using view_lookup(2) [OF assms(1)] by auto
  finally show ?thesis by (simp add: observation_def)
qed

lemma observation_GetCode: "observation (fst (GetCode a s)) = observation s"
proof (cases "snd (getStateObject a s)")
  case (Some so)
  then have "fst (GetCode a s) = updObj a (\<lambda>_. fst (Code_obj (sdb_db s) so)) (fst (getStateObject a s))"
    using getStateObject_frame(1) [of a s]
    by (cases "getStateObject a s") (simp add: GetCode_def Let_def case_prod_beta del: getStateObject_frame)
  then show ?thesis using Some getStateObject_live [OF Some] by (simp add: observation_silent_upd)
next
  case None
  then have "fst (GetCode a s) = fst (getStateObject a s)"
    by (cases "getStateObject a s") (simp add: GetCode_def)
  then show ?thesis by (simp add: observation_lookup)
qed

lemma observation_GetState: "observation (fst (GetState a k s)) = observation s"
proof (cases "snd (getStateObject a s)")
  case (Some so)
  then have "fst (GetState a k s) = updObj a (\<lambda>_. fst (GetState_obj (sdb_db s) so k)) (fst (getStateObject a s))"
    using getStateObject_frame(1) [of a s]
    by (cases "getStateObject a s") (simp add: GetState_def Let_def case_prod_beta del: getStateObject_frame)
  then show ?thesis using Some getStateObject_live [OF Some] by (simp add: observation_silent_upd)
next
  case None
  then have "fst (GetState a k s) = fst (getStateObject a s)"
    by (cases "getStateObject a s") (simp add: GetState_def)
  then show ?thesis by (simp add: observation_lookup)
qed

lemma observation_setError: "observation (setError e s) = observation s"
  by (auto simp: observation_def setError_def intro!: view_frame split: option.splits)

lemma observation_GetCodeSize: "observation (fst (GetCodeSize a s)) = observation s"
proof -
  have "fst (GetCodeSize a s) = fst (getStateObject a s) \<or>
      (\<exists>e. fst (GetCodeSize a s) = setError e (fst (getStateObject a s)))"
    by (cases "getStateObject a s")
      (auto simp: GetCodeSize_def split: option.splits sum.splits)
  then show ?thesis using observation_lookup [of a s] observation_setError by metis
qed

lemma observation_Snapshot: "observation (fst (Snapshot s)) = observation s"
  by (simp add: observation_def) (simp add: Snapshot_def Let_def)

lemmas observation_readers [simp] = observation_lookup observation_GetCode observation_GetState
  observation_GetCodeSize observation_Snapshot

subsection \<open>Writing keeps accounts well-formed\<close>

lemma accounts_ok_writers:
  assumes "wf_db s" "accounts_ok L s"
  shows "accounts_ok L (CreateAccount a s)" "accounts_ok L (SetNonce a m s)" "accounts_ok L (SetState a k v s)"
    "0 \<le> balance s a + n \<Longrightarrow> accounts_ok L (AddBalance a n s)"
    "n \<le> balance s a \<Longrightarrow> accounts_ok L (SubBalance a n s)" "accounts_ok L (AddLog l s)"
    "accounts_ok L (AddRefund g s)" "accounts_ok L (AddPreimage h p s)" "accounts_ok L (fst (Suicide a s))"
    "c = None \<or> length (the c) \<le> 2 ^ 40 \<Longrightarrow> accounts_ok L (SetCode a c s)"
proof -
  have wf: "wf_state s" using assms(1) by (simp add: wf_db_def)
  note db = op_extends [OF assms(1), THEN extends_db] and up = accounts_ok_upd [OF assms(2)]
  note sz = sized_acct [OF assms(2)]
  show "accounts_ok L (CreateAccount a s)" 
    using accounts_ok_balance [OF assms(2), of a] by (intro up [OF db(1) view_CreateAccount]) (simp add: balance_view)
  show "accounts_ok L (SetNonce a m s)" by (rule up [OF db(4) view_SetNonce [OF wf]]) (simp add: sz)
  show "accounts_ok L (SetState a k v s)" by (rule up [OF db(6) view_SetState [OF wf]]) (simp add: sz)
  show "0 \<le> balance s a + n \<Longrightarrow> accounts_ok L (AddBalance a n s)"
    by (rule up [OF db(2) view_AddBalance [OF wf]]) (simp_all add: sz acct_balance)
  show "n \<le> balance s a \<Longrightarrow> accounts_ok L (SubBalance a n s)"
    by (rule up [OF db(3) view_SubBalance [OF wf]]) (simp_all add: sz acct_balance)
  show "accounts_ok L (AddLog l s)" "accounts_ok L (AddRefund g s)" "accounts_ok L (AddPreimage h p s)"
    using assms(2) db(8-10) by (simp_all add: accounts_ok_def)
  show "accounts_ok L (fst (Suicide a s))"
    using assms(2) db(7) [of a] by (auto simp: accounts_ok_def split: option.splits)
  assume c: "c = None \<or> length (the c) \<le> 2 ^ 40"
  then have "account_ok L ((acct s a)\<lparr>v_codeHash := h, v_code := code_of (sdb_db s) a c h\<rparr>)"
    if "h = db_Keccak256 (sdb_db s) (case c of None \<Rightarrow> [] | Some b \<Rightarrow> b)" for h
    using that assms(2) sz [of a] by (auto simp: account_ok_def accounts_ok_def code_of_nonempty split: option.splits)
  then show "accounts_ok L (SetCode a c s)"
    using up [OF db(5), of a] view_SetCode [OF wf, of a c] by (simp add: Let_def)
qed

lemma extends_Transfer: "wf_db s \<Longrightarrow> extends s (Transfer a b n s)"
  unfolding Transfer_def using op_extends(2,3) extends_trans extends_wf by blast

lemma extends_suicide: "wf_db s \<Longrightarrow> extends s (fst (Suicide a (AddBalance b n s)))"
  using op_extends(2,7) extends_trans extends_wf by blast

lemma accounts_ok_Transfer:
  assumes "wf_db s" "accounts_ok L s" "0 \<le> n" "n \<le> balance s a"
  shows "accounts_ok L (Transfer a b n s)"
proof -
  have 1: "accounts_ok L (SubBalance a n s)" "wf_db (SubBalance a n s)"
    using assms accounts_ok_writers(5) op_extends(3) extends_wf by blast+
  then show ?thesis
    unfolding Transfer_def using assms(3) accounts_ok_balance [OF 1(1), of b]
    by (intro accounts_ok_writers(4)) auto
qed

lemma accounts_ok_suicide:
  assumes "wf_db s" "accounts_ok L s"
  shows "accounts_ok L (fst (Suicide a (AddBalance b (balance s a) s)))"
  using assms op_extends(2) [OF assms(1)] accounts_ok_balance [OF assms(2)]
  by (intro accounts_ok_writers(4,9)) (auto dest: extends_wf)

subsection \<open>The interface\<close>

locale execution_relation =
  fixes R :: "bool \<Rightarrow> StateDB \<Rightarrow> StateDB \<Rightarrow> bool"
  assumes R_trans: "R ro s s' \<Longrightarrow> R ro s' s'' \<Longrightarrow> R ro s s''"
    and R_protect: "R True s s' \<Longrightarrow> R ro s s'"
    and R_obs: "observation s' = observation s \<Longrightarrow> R ro s s'"
    and R_create_absent: "wf_db s \<Longrightarrow> view s a = None \<Longrightarrow> R ro s (CreateAccount a s)"
    and R_create: "wf_db s \<Longrightarrow> R False s (CreateAccount a s)"
    and R_nonce: "wf_db s \<Longrightarrow> R False s (SetNonce a m s)"
    and R_code: "wf_db s \<Longrightarrow> R False s (SetCode a c s)"
    and R_state: "wf_db s \<Longrightarrow> R False s (SetState a k v s)"
    and R_log: "wf_db s \<Longrightarrow> R False s (AddLog l s)"
    and R_refund: "wf_db s \<Longrightarrow> R False s (AddRefund g s)"
    and R_preimage: "wf_db s \<Longrightarrow> R ro s (AddPreimage h p s)"
    and R_transfer: "wf_db s \<Longrightarrow> 0 \<le> n \<Longrightarrow> n \<le> balance s a \<Longrightarrow> (ro \<Longrightarrow> n = 0) \<Longrightarrow>
          R ro s (Transfer a b n s)"
    and R_suicide: "wf_db s \<Longrightarrow> R False s (fst (Suicide a (AddBalance b (balance s a) s)))"
begin

lemma T_extends: "trans R L ro s s' \<Longrightarrow> extends s s'"
  by (simp add: trans_def)

lemma T_wf: "trans R L ro s s' \<Longrightarrow> wf_db s'"
  using extends_wf by (auto simp: trans_def)

lemma T_accounts: "trans R L ro s s' \<Longrightarrow> accounts_ok L s \<Longrightarrow> accounts_ok L s'"
  by (simp add: trans_def)

lemma T_trans: "wf_db s \<Longrightarrow> trans R L ro s s' \<Longrightarrow> trans R L ro s' s'' \<Longrightarrow> trans R L ro s s''"
  unfolding trans_def using R_trans extends_trans by blast

lemma T_obs: "extends s s' \<Longrightarrow> observation s' = observation s \<Longrightarrow> trans R L ro s s'"
  unfolding trans_def using R_obs accounts_ok_obs by blast

lemma T_refl: "wf_db s \<Longrightarrow> trans R L ro s s"
  by (simp add: T_obs extends_refl)

lemma T_lookup: "wf_db s \<Longrightarrow> trans R L ro s (fst (getStateObject a s))"
  and T_GetCode: "wf_db s \<Longrightarrow> trans R L ro s (fst (GetCode a s))"
  and T_GetCodeSize: "wf_db s \<Longrightarrow> trans R L ro s (fst (GetCodeSize a s))"
  and T_GetState: "wf_db s \<Longrightarrow> trans R L ro s (fst (GetState a k s))"
  and T_Snapshot: "wf_db s \<Longrightarrow> trans R L ro s (fst (Snapshot s))"
  by (simp_all add: T_obs op_extends extends_Snapshot)

lemma T_readers:
  assumes "wf_db s"
  shows "trans R L ro s (fst (GetBalance a s))" "trans R L ro s (fst (GetNonce a s))"
    "trans R L ro s (fst (GetCodeHash a s))" "trans R L ro s (fst (HasSuicided a s))"
    "trans R L ro s (fst (Exist a s))" "trans R L ro s (fst (Empty a s))"
    "trans R L ro s (fst (CanTransfer s a n))"
  using T_lookup [OF assms] by (simp_all add: reader_states)

lemma T_writers:
  assumes "wf_db s"
  shows "trans R L False s (CreateAccount a s)" "trans R L False s (SetNonce a n s)"
    "trans R L False s (SetState a k v s)" "trans R L False s (AddLog l s)"
    "trans R L False s (AddRefund g s)" "trans R L ro s (AddPreimage h p s)"
    "accounts_ok L s \<Longrightarrow> c = None \<or> length (the c) \<le> 2 ^ 40 \<Longrightarrow> trans R L False s (SetCode a c s)"
  using assms R_create [OF assms] R_nonce [OF assms] R_state [OF assms] R_log [OF assms] R_refund [OF assms]
    R_preimage [OF assms] R_code [OF assms] accounts_ok_writers [of s L]
  by (auto simp: trans_def op_extends)

lemma T_create_absent: "wf_db s \<Longrightarrow> view s a = None \<Longrightarrow> trans R L ro s (CreateAccount a s)"
  using R_create_absent accounts_ok_writers(1) by (simp add: trans_def op_extends wf_db_def)

lemma T_transfer:
  assumes "wf_db s" "0 \<le> n" "n \<le> balance s a" "ro \<Longrightarrow> n = 0"
  shows "trans R L ro s (Transfer a b n s)"
  using R_transfer [OF assms] extends_Transfer [OF assms(1)] accounts_ok_Transfer [OF assms(1) _ assms(2,3)]
  by (simp add: trans_def)

lemma T_suicide:
  assumes "wf_db s"
  shows "trans R L False s (fst (Suicide a (AddBalance b (balance s a) s)))"
  using R_suicide [OF assms] extends_suicide [OF assms] accounts_ok_suicide [OF assms]
  by (simp add: trans_def)

end

subsection \<open>Write protection\<close>

definition read_only :: "bool \<Rightarrow> StateDB \<Rightarrow> StateDB \<Rightarrow> bool" where
  "read_only ro s s' \<longleftrightarrow>
     (ro \<longrightarrow> acct s' = acct s \<and> sdb_refund s' = sdb_refund s \<and> sdb_logs s' = sdb_logs s)"

lemma acct_upd:
  "sdb_db s' = sdb_db s \<Longrightarrow> view s' = (view s)(a \<mapsto> v) \<Longrightarrow> acct s' = (acct s)(a := v)"
  by (auto simp: acct_def fun_eq_iff cong: option.case_cong)

lemma acct_same: "sdb_db s' = sdb_db s \<Longrightarrow> view s' = view s \<Longrightarrow> acct s' = acct s"
  by (auto simp: acct_def fun_eq_iff cong: option.case_cong)

lemma acct_obs: "observation s' = observation s \<Longrightarrow> acct s' = acct s"
  by (rule acct_same) (simp_all add: observation_def)

lemma acct_Transfer_0:
  assumes "wf_db s"
  shows "acct (Transfer a b 0 s) = acct s"
proof -
  have wf: "wf_state s" using assms by (simp add: wf_db_def)
  have "wf_db (SubBalance a 0 s)" using op_extends(3) [OF assms] extends_wf by blast
  then have wf': "wf_state (SubBalance a 0 s)" by (simp add: wf_db_def)
  have 1: "acct (SubBalance a 0 s) = acct s"
    using acct_upd [OF extends_db [OF op_extends(3) [OF assms]] view_SubBalance [OF wf], of a 0] by simp
  have "acct (AddBalance b 0 (SubBalance a 0 s)) = acct (SubBalance a 0 s)"
    using acct_upd [OF extends_db [OF op_extends(2)] view_AddBalance [OF wf'], of b 0] \<open>wf_db (SubBalance a 0 s)\<close>
    by simp
  then show ?thesis using 1 by (simp add: Transfer_def)
qed

lemma GetOrNew_refund [simp]: "sdb_refund (fst (GetOrNewStateObject a s)) = sdb_refund s"
  by (auto simp: GetOrNew_cases createObject_def Let_def case_prod_beta split: option.splits)

lemma refund_frame [simp]:
  "sdb_refund (AddBalance a n s) = sdb_refund s" "sdb_refund (SubBalance a n s) = sdb_refund s"
  "sdb_refund (CreateAccount a s) = sdb_refund s" "sdb_refund (AddPreimage h p s) = sdb_refund s"
  by (auto simp: AddBalance_def SubBalance_def SetBalance_so_def touch_def CreateAccount_def createObject_def
      AddPreimage_def Let_def case_prod_beta split: option.splits)

interpretation protected: execution_relation read_only
proof
  show "read_only ro s s' \<Longrightarrow> read_only ro s' s'' \<Longrightarrow> read_only ro s s''" for ro s s' s''
    by (simp add: read_only_def)
  show "observation s' = observation s \<Longrightarrow> read_only ro s s'" for ro s s'
    using acct_obs [of s' s] by (simp add: read_only_def observation_def)
  show "read_only ro s (CreateAccount a s)" if "wf_db s" "view s a = None" for ro s a
    using that acct_upd [OF extends_db [OF op_extends(1) [OF that(1)]] view_CreateAccount, of a]
    by (auto simp: read_only_def acct_def fun_eq_iff)
  show "read_only ro s (AddPreimage h p s)" if "wf_db s" for ro s h p
    using extends_db [OF op_extends(9) [OF that]] acct_same [of "AddPreimage h p s" s] by (simp add: read_only_def)
  show "read_only ro s (Transfer a b n s)" if "wf_db s" "ro \<Longrightarrow> n = 0" for ro s a b n
    using that acct_Transfer_0 [of s a b] by (auto simp: read_only_def Transfer_def)
qed (simp_all add: read_only_def)

subsection \<open>Conservation of money\<close>

definition no_minting :: "bool \<Rightarrow> StateDB \<Rightarrow> StateDB \<Rightarrow> bool" where
  "no_minting ro s s' \<longleftrightarrow>
     ((\<forall>a. 0 \<le> balance s a) \<longrightarrow>
        (\<forall>a. 0 \<le> balance s' a) \<and>
        (\<exists>B. finite B \<and> (\<forall>C. finite C \<and> B \<subseteq> C \<longrightarrow> sum (balance s') C \<le> sum (balance s) C)))"

lemma no_minting_same: "balance s' = balance s \<Longrightarrow> no_minting ro s s'"
  by (auto simp: no_minting_def intro!: exI [of _ "{}"])

lemma no_minting_trans: "no_minting ro s s' \<Longrightarrow> no_minting ro s' s'' \<Longrightarrow> no_minting ro s s''"
  unfolding no_minting_def
proof (intro impI conjI)
  assume 1: "(\<forall>a. 0 \<le> balance s a) \<longrightarrow> (\<forall>a. 0 \<le> balance s' a) \<and>
      (\<exists>B. finite B \<and> (\<forall>C. finite C \<and> B \<subseteq> C \<longrightarrow> sum (balance s') C \<le> sum (balance s) C))"
    and 2: "(\<forall>a. 0 \<le> balance s' a) \<longrightarrow> (\<forall>a. 0 \<le> balance s'' a) \<and>
      (\<exists>B. finite B \<and> (\<forall>C. finite C \<and> B \<subseteq> C \<longrightarrow> sum (balance s'') C \<le> sum (balance s') C))"
    and 0: "\<forall>a. 0 \<le> balance s a"
  then show "\<forall>a. 0 \<le> balance s'' a" by blast
  obtain B where B: "finite B" "\<forall>C. finite C \<and> B \<subseteq> C \<longrightarrow> sum (balance s') C \<le> sum (balance s) C"
    using 0 1 by blast
  obtain B' where B': "finite B'" "\<forall>C. finite C \<and> B' \<subseteq> C \<longrightarrow> sum (balance s'') C \<le> sum (balance s') C"
    using 0 1 2 by blast
  have "sum (balance s'') C \<le> sum (balance s) C" if "finite C" "B \<union> B' \<subseteq> C" for C
    using that B(2) [rule_format, of C] B'(2) [rule_format, of C] by simp
  then show "\<exists>B. finite B \<and> (\<forall>C. finite C \<and> B \<subseteq> C \<longrightarrow> sum (balance s'') C \<le> sum (balance s) C)"
    using B(1) B'(1) by (intro exI [of _ "B \<union> B'"]) simp
qed

lemma balance_upd: "view s' = (view s)(a \<mapsto> v) \<Longrightarrow> v_balance v = balance s a \<Longrightarrow> balance s' = balance s"
  by (auto simp: balance_view fun_eq_iff)

lemma no_minting_Transfer:
  assumes wf: "wf_db s" and n: "0 \<le> n" "n \<le> balance s a"
  shows "no_minting ro s (Transfer a b n s)"
proof -
  have wf: "wf_state s" using assms by (simp add: wf_db_def)
  have "balance (Transfer a b n s) =
      (if a = b then balance s else (balance s)(a := balance s a - n, b := balance s b + n))"
    using state_ledger.bal_move [OF wf] by (simp add: Transfer_def)
  moreover have "sum (balance (Transfer a b n s)) C = sum (balance s) C" if "finite C" "{a, b} \<subseteq> C" for C
    using state_ledger.sum_bal_move [OF wf, of C a b n] that by (simp add: Transfer_def)
  ultimately show ?thesis
    using n unfolding no_minting_def by (intro impI conjI exI [of _ "{a, b}"]) auto
qed

lemma no_minting_suicide:
  assumes "wf_db s"
  shows "no_minting ro s (fst (Suicide a (AddBalance b (balance s a) s)))"
proof -
  have wf: "wf_state s" using assms by (simp add: wf_db_def)
  let ?s1 = "AddBalance b (balance s a) s"
  let ?s2 = "fst (Suicide a ?s1)"
  have b1: "balance ?s1 = (balance s)(b := balance s b + balance s a)"
    by (rule state_ledger.bal_credit [OF wf])
  have b2: "balance ?s2 = (balance ?s1)(a := 0)"
    by (auto simp: balance_view fun_eq_iff split: option.splits)
  have "sum (balance ?s2) C \<le> sum (balance s) C" if "0 \<le> balance s a" "finite C" "{a, b} \<subseteq> C" for C
  proof -
    have "sum (balance ?s2) (C - {a}) = sum (balance ?s1) (C - {a})"
      by (rule sum.cong) (simp_all add: b2)
    then have "sum (balance ?s2) C + balance ?s1 a = sum (balance ?s1) C"
      using that by (simp add: sum.remove [of C a] b2)
    moreover have "sum (balance ?s1) C = sum (balance s) C + balance s a"
      using state_ledger.sum_bal_credit [OF wf that(2), of b "balance s a"] that(3) by simp
    moreover have "balance s a \<le> balance ?s1 a" using that(1) by (auto simp: b1)
    ultimately show ?thesis by linarith
  qed
  then show ?thesis
    unfolding no_minting_def by (intro impI conjI exI [of _ "{a, b}"]) (auto simp: b1 b2)
qed

interpretation money: execution_relation no_minting
proof
  show "no_minting ro s s' \<Longrightarrow> no_minting ro s' s'' \<Longrightarrow> no_minting ro s s''" for ro s s' s''
    by (rule no_minting_trans)
  show "no_minting True s s' \<Longrightarrow> no_minting ro s s'" for ro s s'
    by (simp add: no_minting_def)
  show "observation s' = observation s \<Longrightarrow> no_minting ro s s'" for ro s s'
    by (rule no_minting_same) (simp add: observation_def balance_view fun_eq_iff)
  show "no_minting False s (CreateAccount a s)" "no_minting ro s (CreateAccount a s)" for ro s a
    by (auto intro!: no_minting_same balance_upd [OF view_CreateAccount] simp: balance_view)
  show "no_minting False s (SetNonce a m s)" "no_minting False s (SetCode a c s)"
    "no_minting False s (SetState a k v s)" if "wf_db s" for s a m c k v
    using that
    by (auto intro!: no_minting_same balance_upd [OF view_SetNonce] balance_upd [OF view_SetState]
        balance_upd [OF view_SetCode [unfolded Let_def]] simp: wf_db_def acct_balance)
  show "no_minting ro s (AddPreimage h p s)" "no_minting False s (AddLog l s)"
    "no_minting False s (AddRefund g s)" for ro s h p l g
    by (auto intro!: no_minting_same simp: balance_view fun_eq_iff)
qed (simp_all add: no_minting_Transfer no_minting_suicide)

end
