(* ===== verification/EVM_Steps.thy ===== *)
theory EVM_Steps
  imports EVM_Relations
begin

text \<open>
  One instruction at a time: every entry of the instruction tables that does not call another
  contract computes its memory size, its cost and its result without a panic, on every frame that
  satisfies the invariant \<open>frame_ok\<close>, and changes the state database only as \<open>execution_relation\<close>
  allows.
\<close>

subsection \<open>Invariants\<close>

definition nonneg :: "Stack \<Rightarrow> bool" where
  "nonneg st \<longleftrightarrow> (\<forall>x \<in> set st. 0 \<le> x)"

definition jumpdests_ok :: "(Hash \<Rightarrow> nat) \<Rightarrow> (Hash \<rightharpoonup> bitvec) \<Rightarrow> bool" where
  "jumpdests_ok L j \<longleftrightarrow> (\<forall>h m. j h = Some m \<longrightarrow> length m = L h div 8 + 5)"

definition evm_ok :: "(Hash \<Rightarrow> nat) \<Rightarrow> EVM \<Rightarrow> bool" where
  "evm_ok L evm \<longleftrightarrow>
     wf_db (evm_StateDB evm) \<and> accounts_ok L (evm_StateDB evm) \<and> jumpdests_ok L (evm_jumpdests evm) \<and>
     0 \<le> ctx_GasPrice (evm_Context evm) \<and> evm_gasTable evm = GasTableEIP158 \<and>
     \<not> cfg_DisableGasMetering (evm_vmConfig evm)"

definition guarded :: "EVM \<Rightarrow> bool" where
  "guarded evm \<longleftrightarrow> evm_IsByzantium evm \<and> evm_readOnly evm"

definition evm_rel :: "(bool \<Rightarrow> StateDB \<Rightarrow> StateDB \<Rightarrow> bool) \<Rightarrow> (Hash \<Rightarrow> nat) \<Rightarrow> EVM \<Rightarrow> EVM \<Rightarrow> bool" where
  "evm_rel R L evm evm' \<longleftrightarrow>
     trans R L (guarded evm) (evm_StateDB evm) (evm_StateDB evm') \<and>
     evm_Context evm' = evm_Context evm \<and> evm_depth evm' = evm_depth evm \<and>
     evm_IsByzantium evm' = evm_IsByzantium evm \<and> evm_vmConfig evm' = evm_vmConfig evm \<and>
     evm_abort evm' = evm_abort evm \<and> evm_gasTable evm' = evm_gasTable evm \<and>
     evm_readOnly evm' = evm_readOnly evm \<and> evm_native evm' = evm_native evm"

definition contract_ok :: "(Hash \<Rightarrow> nat) \<Rightarrow> Contract \<Rightarrow> bool" where
  "contract_ok L c \<longleftrightarrow>
     (c_Code c \<noteq> [] \<longrightarrow> L (c_CodeHash c) = length (c_Code c) \<and> length (c_Code c) \<le> 2 ^ 40) \<and>
     unat (c_Gas c) < 2 ^ 61 \<and> 0 \<le> c_value c"

definition frame_ok :: "(Hash \<Rightarrow> nat) \<Rightarrow> Frame \<Rightarrow> bool" where
  "frame_ok L f \<longleftrightarrow>
     evm_ok L (f_evm f) \<and> contract_ok L (f_contract f) \<and> nonneg (f_stack f) \<and> Memory_Len (f_mem f) \<le> 2 ^ 40"

definition frame_rel :: "(bool \<Rightarrow> StateDB \<Rightarrow> StateDB \<Rightarrow> bool) \<Rightarrow> (Hash \<Rightarrow> nat) \<Rightarrow> Frame \<Rightarrow> Frame \<Rightarrow> bool" where
  "frame_rel R L f f' \<longleftrightarrow>
     evm_rel R L (f_evm f) (f_evm f') \<and>
     f_contract f' = (f_contract f)\<lparr>c_Gas := c_Gas (f_contract f')\<rparr>"

subsection \<open>What an instruction owes\<close>

definition mem_ok :: "(Stack \<Rightarrow> int outcome) \<Rightarrow> nat \<Rightarrow> bool" where
  "mem_ok ms p \<longleftrightarrow> (\<forall>st. p \<le> length st \<and> nonneg st \<longrightarrow> (\<exists>n \<ge> 0. ms st = Done n))"

definition gas_ok ::
  "(bool \<Rightarrow> StateDB \<Rightarrow> StateDB \<Rightarrow> bool) \<Rightarrow> (Hash \<Rightarrow> nat) \<Rightarrow> gasFunc \<Rightarrow> nat \<Rightarrow> nat \<Rightarrow> bool \<Rightarrow> bool \<Rightarrow> bool" where
  \<comment> \<open>the cost is at least \<open>least\<close>; with \<open>m\<close> a success bounds the memory size; with \<open>w\<close> the machine is not
     write protected\<close>
  "gas_ok R L g p least m w \<longleftrightarrow>
     (\<forall>f ms. frame_ok L f \<and> p \<le> length (f_stack f) \<and> (w \<longrightarrow> \<not> guarded (f_evm f)) \<longrightarrow>
        (\<exists>f' r. g f ms = Done (f', r) \<and> frame_ok L f' \<and> frame_rel R L f f' \<and>
           f_contract f' = f_contract f \<and> f_stack f' = f_stack f \<and> f_pc f' = f_pc f \<and>
           mem_store (f_mem f') = mem_store (f_mem f) \<and>
           (\<forall>c. r = Inr c \<longrightarrow> least \<le> unat c \<and> (m \<longrightarrow> unat ms \<le> 0xffffffffe0))))"

definition result_ok ::
  "(bool \<Rightarrow> StateDB \<Rightarrow> StateDB \<Rightarrow> bool) \<Rightarrow> (Hash \<Rightarrow> nat) \<Rightarrow> nat \<Rightarrow> nat \<Rightarrow> Frame \<Rightarrow>
     (Frame \<times> bytes \<times> vm_error option) outcome \<Rightarrow> bool" where
  "result_ok R L p q f r \<longleftrightarrow>
     (\<exists>f' res err. r = Done (f', res, err) \<and> frame_ok L f' \<and> frame_rel R L f f' \<and>
        c_Gas (f_contract f') = c_Gas (f_contract f) \<and>
        (err = None \<longrightarrow> length (f_stack f') + p = length (f_stack f) + q))"

definition mem_covered :: "(Stack \<Rightarrow> int outcome) option \<Rightarrow> Frame \<Rightarrow> bool" where
  "mem_covered msf f \<longleftrightarrow>
     (\<forall>ms. msf = Some ms \<longrightarrow> (\<exists>n \<ge> 0. ms (f_stack f) = Done n \<and> n \<le> int (Memory_Len (f_mem f))))"

definition in_code :: "byte \<Rightarrow> Frame \<Rightarrow> bool" where
  \<comment> \<open>beyond the code the machine reads the operation 0\<close>
  "in_code b f \<longleftrightarrow> (b \<noteq> 0 \<longrightarrow> unat (f_pc f) < length (c_Code (f_contract f)))"

definition exec_ok ::
  "(bool \<Rightarrow> StateDB \<Rightarrow> StateDB \<Rightarrow> bool) \<Rightarrow> (Hash \<Rightarrow> nat) \<Rightarrow> byte \<Rightarrow> execution \<Rightarrow> nat \<Rightarrow> nat \<Rightarrow>
     (Stack \<Rightarrow> int outcome) option \<Rightarrow> bool \<Rightarrow> bool" where
  "exec_ok R L b ex p q msf w \<longleftrightarrow>
     (\<forall>f. frame_ok L f \<and> p \<le> length (f_stack f) \<and> (w \<longrightarrow> \<not> guarded (f_evm f)) \<and> mem_covered msf f \<and>
          in_code b f \<longrightarrow>
        result_ok R L p q f (ex f))"

subsection \<open>Basic facts\<close>

lemma nonneg_simps [simp]:
  "nonneg []" "nonneg (x # st) \<longleftrightarrow> 0 \<le> x \<and> nonneg st" "nonneg (xs @ st) \<longleftrightarrow> nonneg xs \<and> nonneg st"
  by (auto simp: nonneg_def)

lemma nonneg_drop [simp]: "nonneg st \<Longrightarrow> nonneg (drop n st)" "nonneg st \<Longrightarrow> nonneg (take n st)"
  by (auto simp: nonneg_def dest: in_set_dropD in_set_takeD)

lemma frame_okD:
  assumes "frame_ok L f"
  shows "evm_ok L (f_evm f)" "contract_ok L (f_contract f)" "nonneg (f_stack f)" "Memory_Len (f_mem f) \<le> 2 ^ 40"
    "wf_db (f_sdb f)" "accounts_ok L (f_sdb f)" "jumpdests_ok L (evm_jumpdests (f_evm f))"
    "0 \<le> ctx_GasPrice (evm_Context (f_evm f))" "evm_gasTable (f_evm f) = GasTableEIP158"
    "\<not> cfg_DisableGasMetering (evm_vmConfig (f_evm f))" "0 \<le> c_value (f_contract f)"
  using assms by (simp_all add: frame_ok_def evm_ok_def contract_ok_def)

lemma stack_forms:
  "Suc n \<le> length st \<longleftrightarrow> (\<exists>x st'. st = x # st' \<and> n \<le> length st')"
  by (rule Suc_le_length_iff)

subsection \<open>Memory accesses within bounds\<close>

lemma int64_small: "0 \<le> x \<Longrightarrow> x \<le> 2 ^ 40 \<Longrightarrow> bigInt64_value x = x"
  unfolding bigInt64_value_def by (simp add: signed_of_int signed_take_bit_int_eq_self)

lemma uint64_small: "0 \<le> x \<Longrightarrow> x < 2 ^ 64 \<Longrightarrow> unat (bigUint64_value x) = nat x"
  unfolding bigUint64_value_def by (simp add: unsigned_of_int take_bit_int_eq_self)

lemma Memory_Get_bounded:
  assumes "0 \<le> off" "0 \<le> sz" "calcMemSize off sz \<le> int (Memory_Len m)" "Memory_Len m \<le> 2 ^ 40"
  shows "\<exists>d. Memory_Get (bigInt64_value off) (bigInt64_value sz) m = Done d \<and> length d \<le> 2 ^ 40"
proof (cases "sz = 0")
  case True
  then show ?thesis by (simp add: Memory_Get_def bigInt64_value_def)
next
  case False
  then have "off + sz \<le> int (Memory_Len m)" using assms(3) by (simp add: calcMemSize_def)
  then have "bigInt64_value off = off" "bigInt64_value sz = sz" "off + sz \<le> int (Memory_Len m)"
    using assms by (auto intro!: int64_small)
  then show ?thesis
    using assms False by (auto simp: Memory_Get_def Memory_Len_def)
qed

lemma Memory_GetPtr_bounded:
  assumes "0 \<le> off" "0 \<le> sz" "calcMemSize off sz \<le> int (Memory_Len m)" "Memory_Len m \<le> 2 ^ 40"
  shows "\<exists>d. Memory_GetPtr (bigInt64_value off) (bigInt64_value sz) m = Done d"
  using Memory_Get_bounded [OF assms] by (auto simp: Memory_Get_def Memory_GetPtr_def split: if_splits)

lemma Memory_Set_bounded:
  assumes "0 \<le> off" "0 \<le> sz" "calcMemSize off sz \<le> int (Memory_Len m)" "Memory_Len m \<le> 2 ^ 40"
  shows "\<exists>m'. Memory_Set (bigUint64_value off) (bigUint64_value sz) data m = Done m' \<and> Memory_Len m' = Memory_Len m"
proof (cases "sz = 0")
  case True
  then show ?thesis by (simp add: Memory_Set_def bigUint64_value_def)
next
  case False
  then have le: "off + sz \<le> int (Memory_Len m)" using assms(3) by (simp add: calcMemSize_def)
  then have u: "unat (bigUint64_value off) = nat off" "unat (bigUint64_value sz) = nat sz"
    using assms by (auto intro!: uint64_small)
  have s: "unat (bigUint64_value off + bigUint64_value sz) = nat off + nat sz"
    using le assms u by (subst unat_word_ariths) (simp add: u)
  have "\<not> bigUint64_value off + bigUint64_value sz < bigUint64_value off" "0 < bigUint64_value sz"
    using False assms by (simp_all add: word_less_nat_alt s u)
  moreover have "nat sz \<le> Memory_Len m" "nat off + nat sz \<le> Memory_Len m" using le assms by auto
  ultimately show ?thesis
    by (auto simp: Memory_Set_def u s overwrite_def Memory_Len_def min_def)
qed

lemma has_returns:
  assumes c: "contract_ok L c" and j: "jumpdests_ok L j"
  shows "\<exists>j' v. has j (c_CodeHash c) (c_Code c) pos = Done (j', v) \<and> jumpdests_ok L j'"
proof -
  let ?p = "unat (bigUint64_value pos)"
  obtain bits where bits: "codeBitmap (c_Code c) = Done bits" "length bits = length (c_Code c) div 8 + 5"
    using codeBitmap_spec [of "c_Code c"] by (auto simp: is_bitmap_def)
  have "\<exists>seg. codeSegment m ?p = Done seg"
    if "?p < length (c_Code c)" "length m = L (c_CodeHash c) div 8 + 5" for m
  proof -
    have "length m = length (c_Code c) div 8 + 5" using that c by (auto simp: contract_ok_def)
    moreover have "?p div 8 \<le> length (c_Code c) div 8" using that(1) by (intro div_le_mono) simp
    ultimately show ?thesis by (simp add: codeSegment_def)
  qed
  moreover have "c_Code c \<noteq> [] \<Longrightarrow> L (c_CodeHash c) = length (c_Code c)" using c by (simp add: contract_ok_def)
  ultimately show ?thesis
    using j bits by (fastforce simp: has_def Let_def jumpdests_ok_def split: option.splits)
qed

lemma sint_unat_small:
  fixes w :: uint64
  assumes "unat w < 2 ^ 63"
  shows "sint w = int (unat w)"
proof -
  have "uint w < 2 ^ 63" using assms by (metis uint_nat of_nat_less_iff of_nat_numeral of_nat_power)
  moreover have "- (2 ^ 63) \<le> uint w" by (rule order_trans [OF _ uint_ge_0]) simp
  ultimately have "signed_take_bit 63 (uint w) = uint w" by (intro signed_take_bit_int_eq_self)
  moreover have "sint w = signed_take_bit 63 (uint w)" by (simp add: sint_uint)
  ultimately show ?thesis by simp
qed

subsection \<open>Memory sizes and costs\<close>

lemma calcMemSize_nonneg [simp]: "0 \<le> off \<Longrightarrow> 0 \<le> sz \<Longrightarrow> 0 \<le> calcMemSize off sz"
  by (simp add: calcMemSize_def)

lemma mem_ok_table:
  "mem_ok memorySha3 2" "mem_ok memoryReturn 2" "mem_ok memoryRevert 2" "mem_ok memoryLog (n + 2)"
  "mem_ok memoryCallDataCopy 3" "mem_ok memoryReturnDataCopy 3" "mem_ok memoryCodeCopy 3" "mem_ok memoryExtCodeCopy 4"
  "mem_ok memoryMLoad 1" "mem_ok memoryMStore 2" "mem_ok memoryMStore8 2" "mem_ok memoryCreate 3"
  "mem_ok memoryCall 7" "mem_ok memoryDelegateCall 6" "mem_ok memoryStaticCall 6"
  by (auto simp: mem_ok_def numeral_eq_Suc stack_forms BigMax_def)

lemma charge_Inr: "charge x r = Inr c \<Longrightarrow> \<exists>g. r = Inr g \<and> unat c = unat g + unat x"
proof -
  assume a: "charge x r = Inr c"
  then obtain g where g: "r = Inr g" by (cases r) (auto simp: charge_def)
  then have "\<not> snd (SafeAdd g x)" "c = fst (SafeAdd g x)"
    using a by (auto simp: charge_def Let_def case_prod_beta split: if_splits)
  then show ?thesis using g SafeAdd_value [of g x] by simp
qed

lemma chargeWords_Inr: "chargeWords x sz r = Inr c \<Longrightarrow> \<exists>g. r = Inr g \<and> unat g \<le> unat c"
  by (auto simp: chargeWords_def Let_def split: sum.splits prod.splits if_splits dest!: charge_Inr)

lemma memoryFee_spec:
  obtains m r where "memoryFee f ms = (f\<lparr>f_mem := m\<rparr>, r)" "mem_store m = mem_store (f_mem f)"
    "\<And>c. r = Inr c \<Longrightarrow> unat ms \<le> 0xffffffffe0"
proof -
  obtain m r where mr: "memoryGasCost (f_mem f) ms = (m, r)" by (cases "memoryGasCost (f_mem f) ms")
  have "mem_store m = mem_store (f_mem f)" "r = Inr c \<Longrightarrow> unat ms \<le> 0xffffffffe0" for c
    using mr by (auto simp: memoryGasCost_def Let_def word_less_nat_alt split: if_splits)
  then show ?thesis using that [of m r] mr by (simp add: memoryFee_def)
qed

context execution_relation
begin

lemma evm_rel_refl: "wf_db (evm_StateDB evm) \<Longrightarrow> evm_rel R L evm evm"
  by (simp add: evm_rel_def T_refl)

lemma evm_rel_trans:
  assumes "wf_db (evm_StateDB evm)" "evm_rel R L evm evm'" "evm_rel R L evm' evm''"
  shows "evm_rel R L evm evm''"
proof -
  have "guarded evm' = guarded evm" using assms(2) by (simp add: evm_rel_def guarded_def)
  then show ?thesis
    using assms T_trans [OF assms(1), of L "guarded evm" "evm_StateDB evm'" "evm_StateDB evm''"]
    by (simp add: evm_rel_def)
qed

lemma frame_rel_trans:
  assumes "frame_ok L f" "frame_rel R L f f'" "frame_rel R L f' f''"
  shows "frame_rel R L f f''"
proof -
  have "f_contract f'' = (f_contract f)\<lparr>c_Gas := c_Gas (f_contract f'')\<rparr>"
    using assms(2,3) unfolding frame_rel_def
    by (cases "f_contract f"; cases "f_contract f'"; cases "f_contract f''") simp
  then show ?thesis
    using assms(2,3) evm_rel_trans [OF frame_okD(5) [OF assms(1)], of L "f_evm f'" "f_evm f''"]
    by (simp only: frame_rel_def)
qed

lemma result_okI:
  assumes "frame_ok L f"
    and "f' = f\<lparr>f_pc := pc', f_stack := st', f_mem := m',
           f_evm := (f_evm f)\<lparr>evm_StateDB := s', evm_jumpdests := j'\<rparr>\<rparr>"
    and "nonneg st'" "Memory_Len m' \<le> 2 ^ 40" "trans R L (guarded (f_evm f)) (f_sdb f) s'" "jumpdests_ok L j'"
    and "err = None \<Longrightarrow> length st' + p = length (f_stack f) + q"
  shows "result_ok R L p q f (Done (f', res, err))"
  using assms T_wf [OF assms(5)] T_accounts [OF assms(5)]
  by (simp add: result_ok_def frame_ok_def frame_rel_def evm_ok_def evm_rel_def)

subsection \<open>Instructions on the stack\<close>

lemma exec_ok_pure:
  assumes "\<And>f. frame_ok L f \<Longrightarrow> p \<le> length (f_stack f) \<Longrightarrow>
     \<exists>st. ex f = ok0 (with_stack st f) \<and> nonneg st \<and> length st + p = length (f_stack f) + q"
  shows "exec_ok R L b ex p q msf w"
  unfolding exec_ok_def
proof (intro allI impI, elim conjE)
  fix f assume f: "frame_ok L f" "p \<le> length (f_stack f)"
  then obtain st where st: "ex f = ok0 (with_stack st f)" "nonneg st" "length st + p = length (f_stack f) + q"
    using assms by blast
  then show "result_ok R L p q f (ex f)"
    unfolding st(1) ok0_def
    by (intro result_okI [OF f(1), where st' = st and pc' = "f_pc f" and m' = "f_mem f" and s' = "f_sdb f"
          and j' = "evm_jumpdests (f_evm f)"])
      (use frame_okD [OF f(1)] in \<open>simp_all add: with_stack_def T_refl\<close>)
qed

lemma SetBytes_nonneg [simp]: "0 \<le> SetBytes b"
  by (simp add: SetBytes_def)

lemma Big_nonneg [simp]: "0 \<le> Hash_Big h" "0 \<le> Address_Big a" "0 \<le> Exp x y"
  by (simp_all add: Hash_Big_def Address_Big_def Exp_eq)

lemma signed_values_nonneg [simp]:
  "0 \<le> sdiv_value x y" "0 \<le> smod_value x y" "0 \<le> signExtend_value x y" "0 \<le> slt_value x y" "0 \<le> sgt_value x y"
  by (simp_all add: sdiv_value_def smod_value_def signExtend_value_def slt_value_def sgt_value_def Let_def)

lemma exec_binary:
  "exec_ok R L b opAdd 2 1 msf w" "exec_ok R L b opSub 2 1 msf w" "exec_ok R L b opMul 2 1 msf w"
  "exec_ok R L b opDiv 2 1 msf w" "exec_ok R L b opSdiv 2 1 msf w" "exec_ok R L b opMod 2 1 msf w"
  "exec_ok R L b opSmod 2 1 msf w" "exec_ok R L b opExp 2 1 msf w" "exec_ok R L b opSignExtend 2 1 msf w"
  "exec_ok R L b opLt 2 1 msf w" "exec_ok R L b opGt 2 1 msf w" "exec_ok R L b opSlt 2 1 msf w"
  "exec_ok R L b opSgt 2 1 msf w" "exec_ok R L b opEq 2 1 msf w" "exec_ok R L b opAnd 2 1 msf w"
  "exec_ok R L b opOr 2 1 msf w" "exec_ok R L b opXor 2 1 msf w" "exec_ok R L b opByte 2 1 msf w"
  by (rule exec_ok_pure; drule frame_okD(3);
      force simp: numeral_2_eq_2 stack_forms opAdd_def opSub_def opMul_def opDiv_def opSdiv_def opMod_def opSmod_def
        opExp_def opSignExtend_def opLt_def opGt_def opSlt_def opSgt_def opEq_def opAnd_def opOr_def opXor_def
        opByte_def)+

lemma exec_unary:
  "exec_ok R L b opNot 1 1 msf w" "exec_ok R L b opIszero 1 1 msf w" "exec_ok R L b opCallDataLoad 1 1 msf w"
  "exec_ok R L b opBlockhash 1 1 msf w" "exec_ok R L b opPop 1 0 msf w"
  "exec_ok R L b opAddmod 3 1 msf w" "exec_ok R L b opMulmod 3 1 msf w"
  by (rule exec_ok_pure; drule frame_okD(3);
      force simp: One_nat_def numeral_3_eq_3 stack_forms opNot_def opIszero_def opCallDataLoad_def opBlockhash_def
        opPop_def opAddmod_def opMulmod_def Let_def)+

lemma exec_nullary:
  "exec_ok R L b opAddress 0 1 msf w" "exec_ok R L b opOrigin 0 1 msf w" "exec_ok R L b opCaller 0 1 msf w"
  "exec_ok R L b opCallValue 0 1 msf w" "exec_ok R L b opCallDataSize 0 1 msf w" "exec_ok R L b opCodeSize 0 1 msf w"
  "exec_ok R L b opReturnDataSize 0 1 msf w" "exec_ok R L b opGasprice 0 1 msf w" "exec_ok R L b opCoinbase 0 1 msf w"
  "exec_ok R L b opTimestamp 0 1 msf w" "exec_ok R L b opNumber 0 1 msf w" "exec_ok R L b opDifficulty 0 1 msf w"
  "exec_ok R L b opGasLimit 0 1 msf w" "exec_ok R L b opPc 0 1 msf w" "exec_ok R L b opMsize 0 1 msf w"
  "exec_ok R L b opGas 0 1 msf w"
  by (rule exec_ok_pure; frule frame_okD(3); frule frame_okD(8); drule frame_okD(11);
      force simp: push_value_def opAddress_def opOrigin_def opCaller_def opCallValue_def opCallDataSize_def
        opCodeSize_def opReturnDataSize_def opGasprice_def opCoinbase_def opTimestamp_def opNumber_def
        opDifficulty_def opGasLimit_def opPc_def opMsize_def opGas_def)+

subsection \<open>Instructions that read or write the state\<close>

lemma exec_ok_state:
  assumes "\<And>f. frame_ok L f \<Longrightarrow> p \<le> length (f_stack f) \<Longrightarrow> (w \<Longrightarrow> \<not> guarded (f_evm f)) \<Longrightarrow> mem_covered msf f \<Longrightarrow>
     \<exists>st s'. ex f = ok0 (with_stack st (set_sdb s' f)) \<and> nonneg st \<and> length st + p = length (f_stack f) + q \<and>
       trans R L (guarded (f_evm f)) (f_sdb f) s'"
  shows "exec_ok R L b ex p q msf w"
  unfolding exec_ok_def
proof (intro allI impI, elim conjE)
  fix f assume f: "frame_ok L f" "p \<le> length (f_stack f)" "w \<longrightarrow> \<not> guarded (f_evm f)" "mem_covered msf f"
  then obtain st s' where st: "ex f = ok0 (with_stack st (set_sdb s' f))" "nonneg st"
      "length st + p = length (f_stack f) + q" "trans R L (guarded (f_evm f)) (f_sdb f) s'"
    using assms by blast
  then show "result_ok R L p q f (ex f)"
    unfolding st(1) ok0_def
    by (intro result_okI [OF f(1), where st' = st and pc' = "f_pc f" and m' = "f_mem f" and s' = s'
          and j' = "evm_jumpdests (f_evm f)"])
      (use frame_okD [OF f(1)] in \<open>simp_all add: with_stack_def set_sdb_def\<close>)
qed

lemma exec_readers:
  "exec_ok R L b opBalance 1 1 msf w" "exec_ok R L b opExtCodeSize 1 1 msf w" "exec_ok R L b opSload 1 1 msf w"
proof -
  have b: "0 \<le> snd (GetBalance a s)" if "accounts_ok L s" for a s
    using accounts_ok_balance [OF that, of a] by (simp add: balance_def)
  show "exec_ok R L b opBalance 1 1 msf w" "exec_ok R L b opExtCodeSize 1 1 msf w" "exec_ok R L b opSload 1 1 msf w"
    by (rule exec_ok_state; frule frame_okD(3); frule frame_okD(5); drule frame_okD(6);
        force simp: One_nat_def stack_forms opBalance_def opExtCodeSize_def opSload_def case_prod_beta b
          intro: T_readers T_GetCodeSize T_GetState)+
qed

lemma exec_Sstore: "exec_ok R L b opSstore 2 0 msf True"
  by (rule exec_ok_state; frule frame_okD(3); drule frame_okD(5);
      force simp: numeral_2_eq_2 stack_forms opSstore_def intro: T_writers)

lemma exec_Suicide: "exec_ok R L b opSuicide 1 0 msf True"
proof (rule exec_ok_state)
  fix f assume f: "frame_ok L f" "1 \<le> length (f_stack f)" "True \<Longrightarrow> \<not> guarded (f_evm f)"
  then obtain a st where st: "f_stack f = a # st" by (auto simp: stack_forms)
  let ?self = "c_self (f_contract f)"
  let ?s1 = "fst (GetBalance ?self (f_sdb f))"
  have t1: "trans R L False (f_sdb f) ?s1" using T_readers(1) frame_okD(5) [OF f(1)] by blast
  have b: "snd (GetBalance ?self (f_sdb f)) = balance ?s1 ?self"
    by (simp add: balance_view reader_values(1) reader_states)
  have "trans R L False (f_sdb f) (fst (Suicide ?self (AddBalance (BigToAddress a) (balance ?s1 ?self) ?s1)))"
    using T_trans [OF frame_okD(5) [OF f(1)] t1 T_suicide] T_wf [OF t1] by blast
  moreover have "opSuicide f = ok0 (with_stack st
      (set_sdb (fst (Suicide ?self (AddBalance (BigToAddress a) (balance ?s1 ?self) ?s1))) f))"
    by (simp add: opSuicide_def st case_prod_beta b Let_def)
  ultimately show "\<exists>st s'. opSuicide f = ok0 (with_stack st (set_sdb s' f)) \<and> nonneg st \<and>
      length st + 1 = length (f_stack f) + 0 \<and> trans R L (guarded (f_evm f)) (f_sdb f) s'"
    using f(3) st frame_okD(3) [OF f(1)] by auto
qed

lemma exec_Sha3: "exec_ok R L b opSha3 2 1 (Some memorySha3) w"
proof (rule exec_ok_state)
  fix f assume f: "frame_ok L f" "2 \<le> length (f_stack f)" "mem_covered (Some memorySha3) f"
  then obtain off sz st where st: "f_stack f = off # sz # st" by (auto simp: numeral_2_eq_2 stack_forms)
  have nn: "0 \<le> off" "0 \<le> sz" "nonneg st" using frame_okD(3) [OF f(1)] st by auto
  obtain d where d: "Memory_Get (bigInt64_value off) (bigInt64_value sz) (f_mem f) = Done d"
    using Memory_Get_bounded [OF nn(1,2)] f(3) frame_okD(4) [OF f(1)] by (auto simp: mem_covered_def st)
  let ?s = "if cfg_EnablePreimageRecording (evm_vmConfig (f_evm f)) then AddPreimage (keccak_of f d) d (f_sdb f) else f_sdb f"
  have "opSha3 f = ok0 (with_stack (uint (keccak_of f d) # st) (set_sdb ?s f))"
    by (simp add: opSha3_def st d set_sdb_def Let_def)
  moreover have "trans R L (guarded (f_evm f)) (f_sdb f) ?s"
    using frame_okD(5) [OF f(1)] T_writers(6) T_refl by simp
  ultimately show "\<exists>st s'. opSha3 f = ok0 (with_stack st (set_sdb s' f)) \<and> nonneg st \<and>
      length st + 2 = length (f_stack f) + 1 \<and> trans R L (guarded (f_evm f)) (f_sdb f) s'"
    using nn st by (intro exI [of _ "uint (keccak_of f d) # st"] exI [of _ ?s]) simp
qed

lemma exec_Log: "exec_ok R L b (makeLog n) (n + 2) 0 (Some memoryLog) True"
proof (rule exec_ok_state)
  fix f assume f: "frame_ok L f" "n + 2 \<le> length (f_stack f)" "mem_covered (Some memoryLog) f"
    "True \<Longrightarrow> \<not> guarded (f_evm f)"
  then obtain off sz st where st: "f_stack f = off # sz # st" "n \<le> length st" by (auto simp: stack_forms)
  have nn: "0 \<le> off" "0 \<le> sz" "nonneg st" using frame_okD(3) [OF f(1)] st by auto
  obtain d where d: "Memory_Get (bigInt64_value off) (bigInt64_value sz) (f_mem f) = Done d"
    using Memory_Get_bounded [OF nn(1,2)] f(3) frame_okD(4) [OF f(1)] by (auto simp: mem_covered_def st)
  then obtain l where "makeLog n f = ok0 (with_stack (drop n st) (set_sdb (AddLog l (f_sdb f)) f))"
    using st(2) by (simp add: makeLog_def st(1))
  then show "\<exists>st s'. makeLog n f = ok0 (with_stack st (set_sdb s' f)) \<and> nonneg st \<and>
      length st + (n + 2) = length (f_stack f) + 0 \<and> trans R L (guarded (f_evm f)) (f_sdb f) s'"
    using nn st f(4) T_writers(4) [OF frame_okD(5) [OF f(1)]]
    by (intro exI [of _ "drop n st"] exI [of _ "AddLog l (f_sdb f)"]) simp
qed

subsection \<open>Instructions on memory\<close>

lemma result_frame:
  assumes f: "frame_ok L f" and st: "nonneg st" and m: "Memory_Len m \<le> 2 ^ 40"
    and s: "trans R L (guarded (f_evm f)) (f_sdb f) s'"
    and len: "err = None \<Longrightarrow> length st + p = length (f_stack f) + q"
  shows "result_ok R L p q f (Done (with_stack st ((set_sdb s' f)\<lparr>f_mem := m\<rparr>), res, err))"
  using assms frame_okD(7) [OF f]
  by (intro result_okI [OF f, where st' = st and pc' = "f_pc f" and m' = m and s' = s'
        and j' = "evm_jumpdests (f_evm f)"]) (simp_all add: with_stack_def set_sdb_def)

lemma set_sdb_same [simp]: "set_sdb (f_sdb f) f = f"
  by (simp add: set_sdb_def)

lemma result_frame_same:
  assumes f: "frame_ok L f" and "nonneg st" "Memory_Len m \<le> 2 ^ 40"
    and "err = None \<Longrightarrow> length st + p = length (f_stack f) + q"
  shows "result_ok R L p q f (Done (with_stack st (f\<lparr>f_mem := m\<rparr>), res, err))"
  using result_frame [OF assms(1-3) T_refl [OF frame_okD(5) [OF f]]] assms(4) by simp

lemma result_store:
  assumes f: "frame_ok L f" and "0 \<le> off" "0 \<le> sz" "calcMemSize off sz \<le> int (Memory_Len (f_mem f))"
    and st: "nonneg st" "length st + p = length (f_stack f) + q"
    and s: "trans R L (guarded (f_evm f)) (f_sdb f) s'"
  shows "result_ok R L p q f (store_mem off sz data st (set_sdb s' f))"
proof -
  obtain m where m: "Memory_Set (bigUint64_value off) (bigUint64_value sz) data (f_mem f) = Done m"
      "Memory_Len m = Memory_Len (f_mem f)"
    using Memory_Set_bounded [OF assms(2-4) frame_okD(4) [OF f]] by blast
  then have "store_mem off sz data st (set_sdb s' f) = Done (with_stack st ((set_sdb s' f)\<lparr>f_mem := m\<rparr>), [], None)"
    by (simp add: store_mem_def ok0_def set_sdb_def)
  then show ?thesis
    using result_frame [OF f st(1) _ s, of m None p q "[]"] m(2) frame_okD(4) [OF f] st(2) by simp
qed

lemma result_store_same:
  assumes f: "frame_ok L f" and "0 \<le> off" "0 \<le> sz" "calcMemSize off sz \<le> int (Memory_Len (f_mem f))"
    and "nonneg st" "length st + p = length (f_stack f) + q"
  shows "result_ok R L p q f (store_mem off sz data st f)"
  using result_store [OF assms T_refl [OF frame_okD(5) [OF f]], of data] by simp

lemma exec_copies:
  "exec_ok R L b opCallDataCopy 3 0 (Some memoryCallDataCopy) w" "exec_ok R L b opCodeCopy 3 0 (Some memoryCodeCopy) w"
  unfolding exec_ok_def
  by (intro allI impI, elim conjE, frule frame_okD(3),
      force simp: numeral_3_eq_3 stack_forms opCallDataCopy_def opCodeCopy_def mem_covered_def
        intro!: result_store_same)+

lemma exec_ExtCodeCopy: "exec_ok R L b opExtCodeCopy 4 0 (Some memoryExtCodeCopy) w"
  unfolding exec_ok_def
proof (intro allI impI, elim conjE)
  fix f assume f: "frame_ok L f" "4 \<le> length (f_stack f)" "mem_covered (Some memoryExtCodeCopy) f"
  then obtain a off co sz st where st: "f_stack f = a # off # co # sz # st"
    by (auto simp: numeral_eq_Suc stack_forms)
  then show "result_ok R L 4 0 f (opExtCodeCopy f)"
    using f frame_okD(3) [OF f(1)]
    by (auto simp: opExtCodeCopy_def case_prod_beta mem_covered_def
        intro!: result_store T_GetCode frame_okD(5) [OF f(1)])
qed

lemma exec_ReturnDataCopy: "exec_ok R L b opReturnDataCopy 3 0 (Some memoryReturnDataCopy) w"
  unfolding exec_ok_def
proof (intro allI impI, elim conjE)
  fix f assume f: "frame_ok L f" "3 \<le> length (f_stack f)" "mem_covered (Some memoryReturnDataCopy) f"
  then obtain off dof sz st where st: "f_stack f = off # dof # sz # st"
    by (auto simp: numeral_3_eq_3 stack_forms)
  have nn: "0 \<le> off" "0 \<le> dof" "0 \<le> sz" "nonneg st" using frame_okD(3) [OF f(1)] st by auto
  show "result_ok R L 3 0 f (opReturnDataCopy f)"
  proof (cases "BitLen (dof + sz) > 64 \<or> length (evm_returnData (f_evm f)) < unat (bigUint64_value (dof + sz))")
    case True
    then show ?thesis
      using result_frame_same [OF f(1) nn(4), of "f_mem f" "Some errReturnDataOutOfBounds"] frame_okD(4) [OF f(1)]
      by (simp add: opReturnDataCopy_def st Let_def)
  next
    case False
    then have "dof + sz < 2 ^ 64" using BitLen_le_iff [of "dof + sz" 64] nn by simp
    then have "\<not> bigUint64_value dof > bigUint64_value (dof + sz)"
      using nn by (simp add: word_less_nat_alt uint64_small)
    moreover have "calcMemSize off sz \<le> int (Memory_Len (f_mem f))" using f(3) by (auto simp: mem_covered_def st)
    ultimately show ?thesis
      using False nn result_store_same [OF f(1) nn(1,3) _ nn(4), of 3 0]
      by (simp add: opReturnDataCopy_def st Let_def)
  qed
qed

lemma exec_Mload: "exec_ok R L b opMload 1 1 (Some memoryMLoad) w"
  unfolding exec_ok_def
proof (intro allI impI, elim conjE)
  fix f assume f: "frame_ok L f" "1 \<le> length (f_stack f)" "mem_covered (Some memoryMLoad) f"
  then obtain off st where st: "f_stack f = off # st" by (auto simp: stack_forms)
  have nn: "0 \<le> off" "nonneg st" using frame_okD(3) [OF f(1)] st by auto
  obtain d where "Memory_Get (bigInt64_value off) (bigInt64_value 32) (f_mem f) = Done d"
    using Memory_Get_bounded [OF nn(1), of 32 "f_mem f"] f(3) frame_okD(4) [OF f(1)] by (auto simp: mem_covered_def st)
  moreover have "bigInt64_value 32 = 32" by (rule int64_small) simp_all
  ultimately show "result_ok R L 1 1 f (opMload f)"
    using result_frame_same [OF f(1), of "SetBytes d # st" "f_mem f" None 1 1 "[]"] nn frame_okD(4) [OF f(1)]
    by (simp add: opMload_def st ok0_def)
qed

lemma exec_Mstore: "exec_ok R L b opMstore 2 0 (Some memoryMStore) w"
  unfolding exec_ok_def
proof (intro allI impI, elim conjE)
  fix f assume f: "frame_ok L f" "2 \<le> length (f_stack f)" "mem_covered (Some memoryMStore) f"
  then obtain off v st where st: "f_stack f = off # v # st" by (auto simp: numeral_2_eq_2 stack_forms)
  have "opMstore f = store_mem off 32 (PaddedBigBytes v 32) st f"
    by (simp add: opMstore_def st store_mem_def bigUint64_value_def)
  then show "result_ok R L 2 0 f (opMstore f)"
    using f frame_okD(3) [OF f(1)] by (auto simp: mem_covered_def st intro!: result_store_same)
qed

lemma exec_Mstore8: "exec_ok R L b opMstore8 2 0 (Some memoryMStore8) w"
  unfolding exec_ok_def
proof (intro allI impI, elim conjE)
  fix f assume f: "frame_ok L f" "2 \<le> length (f_stack f)" "mem_covered (Some memoryMStore8) f"
  then obtain off v st where st: "f_stack f = off # v # st" by (auto simp: numeral_2_eq_2 stack_forms)
  have nn: "0 \<le> off" "nonneg st" and le: "off + 1 \<le> int (Memory_Len (f_mem f))"
    using frame_okD(3) [OF f(1)] f(3) st by (auto simp: mem_covered_def calcMemSize_def)
  then have "bigInt64_value off = off" using frame_okD(4) [OF f(1)] by (intro int64_small) auto
  then show "result_ok R L 2 0 f (opMstore8 f)"
    using nn le result_frame_same [OF f(1) nn(2), of "(f_mem f)\<lparr>mem_store := xs\<rparr>" None 2 0 "[]" for xs]
      frame_okD(4) [OF f(1)]
    by (simp add: opMstore8_def st ok0_def Memory_Len_def)
qed

lemma exec_return: "exec_ok R L b opReturn 2 0 (Some memoryReturn) w" "exec_ok R L b opRevert 2 0 (Some memoryRevert) w"
proof -
  have "result_ok R L 2 0 f (return_mem f)"
    if f: "frame_ok L f" and st: "f_stack f = off # sz # st" and m: "calcMemSize off sz \<le> int (Memory_Len (f_mem f))"
    for f off sz st
  proof -
    have nn: "0 \<le> off" "0 \<le> sz" "nonneg st" using frame_okD(3) [OF f] st by auto
    obtain d where "Memory_GetPtr (bigInt64_value off) (bigInt64_value sz) (f_mem f) = Done d"
      using Memory_GetPtr_bounded [OF nn(1,2) m frame_okD(4) [OF f]] by blast
    then show ?thesis
      using result_frame_same [OF f nn(3), of "f_mem f" None 2 0 d] frame_okD(4) [OF f]
      by (simp add: return_mem_def st)
  qed
  then show "exec_ok R L b opReturn 2 0 (Some memoryReturn) w" "exec_ok R L b opRevert 2 0 (Some memoryRevert) w"
    by (force simp: exec_ok_def numeral_2_eq_2 stack_forms opReturn_def opRevert_def mem_covered_def)+
qed

subsection \<open>Flow and stack instructions\<close>

lemma exec_neutral: "exec_ok R L b opStop 0 0 msf w" "exec_ok R L b opJumpdest 0 0 msf w"
  by (rule exec_ok_pure, drule frame_okD(3), force simp: opStop_def opJumpdest_def with_stack_def)+

lemma result_jump:
  assumes f: "frame_ok L f" and st: "nonneg st" "length st + p = length (f_stack f) + q"
  shows "result_ok R L p q f (jump_to pos st f)"
proof -
  obtain j v where j: "has (evm_jumpdests (f_evm f)) (c_CodeHash (f_contract f)) (c_Code (f_contract f)) pos = Done (j, v)"
      "jumpdests_ok L j"
    using has_returns [OF frame_okD(2,7) [OF f]] by blast
  have T: "trans R L (guarded (f_evm f)) (f_sdb f) (f_sdb f)" using T_refl frame_okD(5) [OF f] by blast
  show ?thesis
  proof (cases v)
    case True
    then show ?thesis
      using j by (simp add: jump_to_def ok0_def Let_def)
        (rule result_okI [OF f, where st' = st and pc' = "bigUint64_value pos" and m' = "f_mem f" and s' = "f_sdb f"
           and j' = j], use st T frame_okD(4) [OF f] in \<open>simp_all add: with_stack_def\<close>)
  next
    case False
    then show ?thesis
      using j by (simp add: jump_to_def ok0_def Let_def)
        (rule result_okI [OF f, where st' = st and pc' = "f_pc f" and m' = "f_mem f" and s' = "f_sdb f"
           and j' = j], use st T frame_okD(4) [OF f] in \<open>simp_all add: with_stack_def\<close>)
  qed
qed

lemma result_pc:
  assumes f: "frame_ok L f" and st: "nonneg st" "length st + p = length (f_stack f) + q"
  shows "result_ok R L p q f (ok0 (with_stack st (f\<lparr>f_pc := pc\<rparr>)))"
  unfolding ok0_def
  by (rule result_okI [OF f, where st' = st and pc' = pc and m' = "f_mem f" and s' = "f_sdb f"
        and j' = "evm_jumpdests (f_evm f)"])
    (use st T_refl frame_okD [OF f] in \<open>simp_all add: with_stack_def\<close>)

lemma exec_jumps: "exec_ok R L b opJump 1 0 msf w" "exec_ok R L b opJumpi 2 0 msf w"
  unfolding exec_ok_def
  by (intro allI impI, elim conjE, frule frame_okD(3),
      force simp: One_nat_def numeral_2_eq_2 stack_forms opJump_def opJumpi_def intro!: result_jump result_pc)+

lemma exec_Dup: "1 \<le> n \<Longrightarrow> exec_ok R L b (makeDup n) n (n + 1) msf w"
proof (rule exec_ok_pure)
  fix f assume n: "1 \<le> n" and f: "frame_ok L f" "n \<le> length (f_stack f)"
  have "0 \<le> f_stack f ! (n - 1)" using n f(2) frame_okD(3) [OF f(1)] by (simp add: nonneg_def)
  then show "\<exists>st. makeDup n f = ok0 (with_stack st f) \<and> nonneg st \<and> length st + n = length (f_stack f) + (n + 1)"
    using n f(2) frame_okD(3) [OF f(1)]
    by (intro exI [of _ "f_stack f ! (n - 1) # f_stack f"]) (simp add: makeDup_def dup_st_def)
qed

lemma exec_Swap: "exec_ok R L b (makeSwap n) (n + 1) (n + 1) msf w"
proof (rule exec_ok_pure)
  fix f assume f: "frame_ok L f" "n + 1 \<le> length (f_stack f)"
  let ?st = "((f_stack f)[n := f_stack f ! 0])[0 := f_stack f ! n]"
  have "f_stack f ! n \<in> set (f_stack f)" "f_stack f ! 0 \<in> set (f_stack f)"
    by (rule nth_mem, use f(2) in linarith)+
  then have "set ?st \<subseteq> set (f_stack f)"
    using set_update_subset_insert [of "(f_stack f)[n := f_stack f ! 0]" 0 "f_stack f ! n"]
      set_update_subset_insert [of "f_stack f" n "f_stack f ! 0"] by blast
  then have "nonneg ?st" using frame_okD(3) [OF f(1)] by (auto simp: nonneg_def)
  then show "\<exists>st. makeSwap n f = ok0 (with_stack st f) \<and> nonneg st \<and>
      length st + (n + 1) = length (f_stack f) + (n + 1)"
    using f(2) by (intro exI [of _ ?st]) (simp add: makeSwap_def swap_st_def)
qed

lemma exec_Push: "b \<noteq> 0 \<Longrightarrow> exec_ok R L b (makePush sz n) 0 1 msf w"
  unfolding exec_ok_def
proof (intro allI impI, elim conjE)
  fix f assume b: "b \<noteq> 0" and f: "frame_ok L f" and pc: "in_code b f"
  let ?code = "c_Code (f_contract f)"
  have lt: "unat (f_pc f) < length ?code" using b pc by (simp add: in_code_def)
  then have le: "length ?code \<le> 2 ^ 40" using frame_okD(2) [OF f] by (auto simp: contract_ok_def)
  have u: "unat (f_pc f + 1) = unat (f_pc f) + 1"
    using lt le by (subst unat_word_ariths) simp
  have "sint (f_pc f + 1) = int (unat (f_pc f + 1))"
    using lt le u by (intro sint_unat_small) simp
  then have "0 \<le> sint (f_pc f + 1)" by simp
  then show "result_ok R L 0 1 f (makePush sz n f)"
    using frame_okD(3) [OF f] by (auto simp: makePush_def Let_def intro!: result_pc [OF f])
qed

subsection \<open>Gas functions\<close>

lemma gas_ok_same:
  assumes "\<And>f ms. frame_ok L f \<Longrightarrow> p \<le> length (f_stack f) \<Longrightarrow>
     \<exists>r. g f ms = Done (f, r) \<and> (\<forall>c. r = Inr c \<longrightarrow> least \<le> unat c)"
  shows "gas_ok R L g p least False w"
  unfolding gas_ok_def
proof (intro allI impI, elim conjE)
  fix f ms assume f: "frame_ok L f" "p \<le> length (f_stack f)"
  then obtain r where "g f ms = Done (f, r)" "\<forall>c. r = Inr c \<longrightarrow> least \<le> unat c" using assms by blast
  then show "\<exists>f' r. g f ms = Done (f', r) \<and> frame_ok L f' \<and> frame_rel R L f f' \<and>
      f_contract f' = f_contract f \<and> f_stack f' = f_stack f \<and> f_pc f' = f_pc f \<and>
      mem_store (f_mem f') = mem_store (f_mem f) \<and>
      (\<forall>c. r = Inr c \<longrightarrow> least \<le> unat c \<and> (False \<longrightarrow> unat ms \<le> 0xffffffffe0))"
    using f(1) evm_rel_refl [OF frame_okD(5) [OF f(1)]] by (simp add: frame_rel_def)
qed

lemma gas_const:
  "gas_ok R L (constGasFunc c) p (unat c) False w" "gas_ok R L gasBalance p 400 False w"
  "gas_ok R L gasExtCodeSize p 700 False w" "gas_ok R L gasSLoad p 200 False w"
  "gas_ok R L gasPush p 3 False w" "gas_ok R L gasSwap p 3 False w" "gas_ok R L gasDup p 3 False w"
  by (rule gas_ok_same, frule frame_okD(9), simp add: constGasFunc_def gasBalance_def gasExtCodeSize_def gasSLoad_def
      gasPush_def gasSwap_def gasDup_def GasTableEIP158_def GasFastestStep_def)+

lemma gas_Exp: "gas_ok R L gasExp 2 10 False w"
proof (rule gas_ok_same)
  fix f :: Frame and ms :: uint64
  assume "2 \<le> length (f_stack f)"
  then obtain x y st where st: "f_stack f = x # y # st" by (auto simp: numeral_2_eq_2 stack_forms)
  show "\<exists>r. gasExp f ms = Done (f, r) \<and> (\<forall>c. r = Inr c \<longrightarrow> 10 \<le> unat c)"
    by (auto simp: gasExp_def st Let_def GasSlowStep_def dest!: charge_Inr)
qed

lemma gas_ok_memory:
  assumes "\<And>f ms. frame_ok L f \<Longrightarrow> p \<le> length (f_stack f) \<Longrightarrow>
     g f ms = (let (f1, r) = memoryFee f ms in Done (f1, h f r))"
    and "\<And>f r c. frame_ok L f \<Longrightarrow> h f r = Inr c \<Longrightarrow> least \<le> unat c \<and> (\<exists>d. r = Inr d)"
  shows "gas_ok R L g p least True w"
  unfolding gas_ok_def
proof (intro allI impI, elim conjE)
  fix f ms assume f: "frame_ok L f" "p \<le> length (f_stack f)"
  obtain m r where m: "memoryFee f ms = (f\<lparr>f_mem := m\<rparr>, r)" "mem_store m = mem_store (f_mem f)"
      "\<And>c. r = Inr c \<Longrightarrow> unat ms \<le> 0xffffffffe0"
    using memoryFee_spec by metis
  have "g f ms = Done (f\<lparr>f_mem := m\<rparr>, h f r)" using assms(1) [OF f, of ms] m(1) by simp
  moreover have "\<forall>c. h f r = Inr c \<longrightarrow> least \<le> unat c \<and> unat ms \<le> 0xffffffffe0"
    using assms(2) [OF f(1)] m(3) by blast
  ultimately show "\<exists>f' r. g f ms = Done (f', r) \<and> frame_ok L f' \<and> frame_rel R L f f' \<and>
      f_contract f' = f_contract f \<and> f_stack f' = f_stack f \<and> f_pc f' = f_pc f \<and>
      mem_store (f_mem f') = mem_store (f_mem f) \<and>
      (\<forall>c. r = Inr c \<longrightarrow> least \<le> unat c \<and> (True \<longrightarrow> unat ms \<le> 0xffffffffe0))"
    using f(1) m(2) evm_rel_refl [OF frame_okD(5) [OF f(1)]]
    by (intro exI [of _ "f\<lparr>f_mem := m\<rparr>"] exI [of _ "h f r"])
      (simp add: frame_rel_def frame_ok_def Memory_Len_def)
qed

lemma gas_memory:
  "gas_ok R L gasMLoad p 3 True w" "gas_ok R L gasMStore p 3 True w" "gas_ok R L gasMStore8 p 3 True w"
  by (rule gas_ok_memory [where h = "\<lambda>_. charge GasFastestStep"],
      auto simp: gasMLoad_def gasMStore_def gasMStore8_def GasFastestStep_def dest: charge_Inr)+

lemma gas_memory_only: "gas_ok R L gasReturn p 0 True w" "gas_ok R L gasRevert p 0 True w"
  by (rule gas_ok_memory [where h = "\<lambda>_ r. r"], auto simp: gasReturn_def gasRevert_def case_prod_beta)+

lemma gas_Create: "gas_ok R L gasCreate p 32000 True w"
  by (rule gas_ok_memory [where h = "\<lambda>_. charge CreateGas"])
    (auto simp: gasCreate_def CreateGas_def dest: charge_Inr)

lemma gas_copies:
  "gas_ok R L gasCallDataCopy 3 3 True w" "gas_ok R L gasReturnDataCopy 3 3 True w" "gas_ok R L gasCodeCopy 3 3 True w"
  by (rule gas_ok_memory [where h = "\<lambda>f r. chargeWords CopyGas (f_stack f ! 2) (charge GasFastestStep r)"],
      auto simp: numeral_3_eq_3 stack_forms gasCallDataCopy_def gasReturnDataCopy_def gasCodeCopy_def,
      auto simp: GasFastestStep_def dest!: chargeWords_Inr charge_Inr)+

lemma gas_ExtCodeCopy: "gas_ok R L gasExtCodeCopy 4 700 True w"
  by (rule gas_ok_memory [where h = "\<lambda>f r. chargeWords CopyGas (f_stack f ! 3)
        (charge (gt_ExtcodeCopy (evm_gasTable (f_evm f))) r)"],
      auto simp: numeral_eq_Suc stack_forms gasExtCodeCopy_def)
    (auto simp: GasTableEIP158_def dest!: chargeWords_Inr charge_Inr frame_okD(9))

lemma gas_Sha3: "gas_ok R L gasSha3 2 30 True w"
  by (rule gas_ok_memory [where h = "\<lambda>f r. chargeWords Sha3WordGas (f_stack f ! 1) (charge Sha3Gas r)"],
      auto simp: numeral_2_eq_2 stack_forms gasSha3_def)
    (auto simp: Sha3Gas_def dest!: chargeWords_Inr charge_Inr)

lemma gas_Log: "gas_ok R L (makeGasLog n) (k + 2) 375 True w"
  unfolding gas_ok_def
proof (intro allI impI, elim conjE)
  fix f :: Frame and ms :: uint64
  assume f: "frame_ok L f" "k + 2 \<le> length (f_stack f)"
  then obtain off sz st where st: "f_stack f = off # sz # st" by (auto simp: stack_forms)
  obtain m r where m: "memoryFee f ms = (f\<lparr>f_mem := m\<rparr>, r)" "mem_store m = mem_store (f_mem f)"
      "\<And>c. r = Inr c \<Longrightarrow> unat ms \<le> 0xffffffffe0"
    using memoryFee_spec by metis
  define h where "h = (case charge (n * LogTopicGas) (charge LogGas r) of Inl e \<Rightarrow> Inl e
     | Inr gas' \<Rightarrow> (let (memorySizeGas, overflow') = SafeMul (fst (bigUint64 sz)) LogDataGas
                    in if overflow' then Inl errGasUintOverflow else charge memorySizeGas (Inr gas')))"
  have h: "375 \<le> unat c \<and> unat ms \<le> 0xffffffffe0" if "h = Inr c" for c
    using that m(3)
    by (auto simp: h_def Let_def case_prod_beta LogGas_def split: sum.splits if_splits dest!: charge_Inr)
  let ?f = "if snd (bigUint64 sz) then f else f\<lparr>f_mem := m\<rparr>"
  let ?r = "if snd (bigUint64 sz) then Inl errGasUintOverflow else h"
  have "makeGasLog n f ms = Done (?f, ?r)"
    by (simp add: makeGasLog_def st m(1) h_def case_prod_beta)
  then show "\<exists>f' r. makeGasLog n f ms = Done (f', r) \<and> frame_ok L f' \<and> frame_rel R L f f' \<and>
      f_contract f' = f_contract f \<and> f_stack f' = f_stack f \<and> f_pc f' = f_pc f \<and>
      mem_store (f_mem f') = mem_store (f_mem f) \<and>
      (\<forall>c. r = Inr c \<longrightarrow> 375 \<le> unat c \<and> (True \<longrightarrow> unat ms \<le> 0xffffffffe0))"
    using f(1) h m(2) evm_rel_refl [OF frame_okD(5) [OF f(1)]]
    by (intro exI [of _ ?f] exI [of _ ?r]) (simp add: frame_rel_def frame_ok_def Memory_Len_def)
qed

lemma gas_ok_state:
  assumes "\<And>f ms. frame_ok L f \<Longrightarrow> p \<le> length (f_stack f) \<Longrightarrow> \<not> guarded (f_evm f) \<Longrightarrow>
     \<exists>s' c. g f ms = Done (set_sdb s' f, Inr c) \<and> least \<le> unat c \<and> trans R L False (f_sdb f) s'"
  shows "gas_ok R L g p least False True"
  unfolding gas_ok_def
proof (intro allI impI, elim conjE)
  fix f ms assume f: "frame_ok L f" "p \<le> length (f_stack f)" "True \<longrightarrow> \<not> guarded (f_evm f)"
  then obtain s' c where g: "g f ms = Done (set_sdb s' f, Inr c)" "least \<le> unat c" "trans R L False (f_sdb f) s'"
    using assms by blast
  then show "\<exists>f' r. g f ms = Done (f', r) \<and> frame_ok L f' \<and> frame_rel R L f f' \<and>
      f_contract f' = f_contract f \<and> f_stack f' = f_stack f \<and> f_pc f' = f_pc f \<and>
      mem_store (f_mem f') = mem_store (f_mem f) \<and>
      (\<forall>c. r = Inr c \<longrightarrow> least \<le> unat c \<and> (False \<longrightarrow> unat ms \<le> 0xffffffffe0))"
    using f(1,3) T_wf [OF g(3)] T_accounts [OF g(3)] frame_okD(6) [OF f(1)]
    by (simp add: frame_rel_def frame_ok_def evm_ok_def evm_rel_def set_sdb_def)
qed

lemma gas_SStore: "gas_ok R L gasSStore 2 5000 False True"
proof (rule gas_ok_state)
  fix f :: Frame and ms :: uint64
  assume f: "frame_ok L f" "2 \<le> length (f_stack f)"
  then obtain x y st where st: "f_stack f = x # y # st" by (auto simp: numeral_2_eq_2 stack_forms)
  let ?s1 = "fst (GetState (c_self (f_contract f)) (BigToHash x) (f_sdb f))"
  have t1: "trans R L False (f_sdb f) ?s1" using T_GetState frame_okD(5) [OF f(1)] by blast
  have t2: "trans R L False (f_sdb f) (AddRefund SstoreRefundGas ?s1)"
    using T_trans [OF frame_okD(5) [OF f(1)] t1 T_writers(5) [OF T_wf [OF t1]]] .
  show "\<exists>s' c. gasSStore f ms = Done (set_sdb s' f, Inr c) \<and> 5000 \<le> unat c \<and> trans R L False (f_sdb f) s'"
    using t1 t2 by (auto simp: gasSStore_def st Let_def case_prod_beta SstoreSetGas_def SstoreClearGas_def
        SstoreResetGas_def)
qed

lemma gas_Suicide: "gas_ok R L gasSuicide 1 5000 False True"
proof (rule gas_ok_state)
  fix f :: Frame and ms :: uint64
  assume f: "frame_ok L f" "1 \<le> length (f_stack f)"
  then obtain x st where st: "f_stack f = x # st" by (auto simp: stack_forms)
  let ?self = "c_self (f_contract f)"
  let ?s1 = "fst (Empty (BigToAddress x) (f_sdb f))" and ?e = "snd (Empty (BigToAddress x) (f_sdb f))"
  let ?s2 = "if ?e then fst (GetBalance ?self ?s1) else ?s1"
  let ?s3 = "fst (HasSuicided ?self ?s2)"
  note wf = frame_okD(5) [OF f(1)]
  have t1: "trans R L False (f_sdb f) ?s1" using T_readers(6) wf by blast
  have t2: "trans R L False (f_sdb f) ?s2" using T_trans [OF wf t1 T_readers(1) [OF T_wf [OF t1]]] t1 by simp
  have t3: "trans R L False (f_sdb f) ?s3" using T_trans [OF wf t2 T_readers(4) [OF T_wf [OF t2]]] .
  have t4: "trans R L False (f_sdb f) (AddRefund SuicideRefundGas ?s3)"
    using T_trans [OF wf t3 T_writers(5) [OF T_wf [OF t3]]] .
  have "gasSuicide f ms = Done (set_sdb (if snd (HasSuicided ?self ?s2) then ?s3 else AddRefund SuicideRefundGas ?s3) f,
      Inr (5000 + (if ?e \<and> (if ?e then snd (GetBalance ?self ?s1) else 0) \<noteq> 0 then 25000 else 0)))"
    using frame_okD(9) [OF f(1)]
    by (simp add: gasSuicide_def st Let_def case_prod_beta GasTableEIP158_def if_distrib)
  then show "\<exists>s' c. gasSuicide f ms = Done (set_sdb s' f, Inr c) \<and> 5000 \<le> unat c \<and> trans R L False (f_sdb f) s'"
    using t3 t4 by (intro exI conjI) (assumption, simp, simp)
qed

end

end
