(* ===== verification/EVM_Turns.thy ===== *)
theory EVM_Turns
  imports EVM_Steps
begin

text \<open>
  One turn of the interpreter's loop, for any \<open>execution_relation\<close>: what the loop owes
  (\<open>runner_ok\<close>), what one operation owes (\<open>op_spec\<close>), and that every table entry which does not
  call another contract satisfies it: the memory size, the charge and the execution return, the
  frame stays well-formed, the stack stays within its limit and gas is used up unless the run ends.
\<close>

subsection \<open>Contracts of the interpreter and of one instruction\<close>

definition runner_ok ::
  "(bool \<Rightarrow> StateDB \<Rightarrow> StateDB \<Rightarrow> bool) \<Rightarrow> (Hash \<Rightarrow> nat) \<Rightarrow> nat \<Rightarrow> runner \<Rightarrow> bool" where
  "runner_ok R L n runner \<longleftrightarrow>
     (\<forall>evm c input. evm_ok L evm \<and> contract_ok L c \<and> unat (c_Gas c) < n \<and> length input \<le> 2 ^ 40 \<longrightarrow>
        (\<exists>evm' c' ret err. runner evm c input = Done (evm', c', ret, err) \<and> evm_ok L evm' \<and>
           evm_rel R L evm evm' \<and> unat (c_Gas c') \<le> unat (c_Gas c)))"

definition step_result ::
  "(bool \<Rightarrow> StateDB \<Rightarrow> StateDB \<Rightarrow> bool) \<Rightarrow> (Hash \<Rightarrow> nat) \<Rightarrow> Frame \<Rightarrow> Frame + run_result \<Rightarrow> bool" where
  "step_result R L f x =
     (case x of
        Inl f' \<Rightarrow> frame_ok L f' \<and> frame_rel R L f f' \<and>
          unat (c_Gas (f_contract f')) < unat (c_Gas (f_contract f)) \<and> length (f_stack f') \<le> StackLimit
      | Inr (evm', c', ret, err) \<Rightarrow>
          evm_ok L evm' \<and> evm_rel R L (f_evm f) evm' \<and> unat (c_Gas c') \<le> unat (c_Gas (f_contract f)))"

definition op_spec ::
  "(bool \<Rightarrow> StateDB \<Rightarrow> StateDB \<Rightarrow> bool) \<Rightarrow> (Hash \<Rightarrow> nat) \<Rightarrow> byte \<Rightarrow> operation \<Rightarrow> bool" where
  "op_spec R L b oper \<longleftrightarrow>
     (\<exists>p q. op_validateStack oper = makeStackFunc p q \<and>
        (\<forall>f runner n. frame_ok L f \<and> p \<le> length (f_stack f) \<and> length (f_stack f) + q \<le> StackLimit + p \<and>
           in_code b f \<and> runner_ok R L n runner \<and> unat (c_Gas (f_contract f)) \<le> n \<and>
           enforceRestrictions (f_evm f) b oper (f_stack f) = None \<longrightarrow>
           (\<exists>x. perform runner oper f = Done x \<and> step_result R L f x)))"

subsection \<open>Memory size and gas of an instruction\<close>

lemma toWordSize_ge: "unat sz \<le> 32 * unat (toWordSize sz)"
proof (cases "sz > MaxUint64 - 31")
  case True
  have "unat sz < 2 ^ 64" using unsigned_less [of sz] by simp
  moreover have "32 * unat (toWordSize sz) = 2 ^ 64" using True by (simp add: toWordSize_def MaxUint64_def)
  ultimately show ?thesis by linarith
next
  case False
  then have "unat sz \<le> 2 ^ 64 - 32" by (simp add: word_less_nat_alt MaxUint64_def)
  then have "unat (sz + 31) = unat sz + 31" by (subst unat_word_ariths) simp
  then have "unat ((sz + 31) div 32) = (unat sz + 31) div 32" by (simp add: unat_div_distrib)
  then show ?thesis using False by (simp add: toWordSize_def)
qed

lemma requiredMemory_returns:
  assumes "\<And>ms. op_memorySize oper = Some ms \<Longrightarrow> mem_ok ms p" "p \<le> length st" "nonneg st"
  shows "(\<exists>e. requiredMemory oper st = Done (Inl e)) \<or>
     (\<exists>sz. requiredMemory oper st = Done (Inr sz) \<and>
        (op_memorySize oper = None \<longrightarrow> sz = 0) \<and>
        (\<forall>ms. op_memorySize oper = Some ms \<longrightarrow> (\<exists>n \<ge> 0. ms st = Done n \<and> nat n \<le> unat sz)))"
proof (cases "op_memorySize oper")
  case (Some ms)
  then obtain n where n: "ms st = Done n" "0 \<le> n" using assms by (auto simp: mem_ok_def)
  show ?thesis
  proof (cases "BitLen n > 64")
    case False
    then have "n < 2 ^ 64" using n(2) BitLen_le_iff [of n 64] by simp
    then have "nat n \<le> 32 * unat (toWordSize (bigUint64_value n))"
      using n(2) uint64_small [of n] toWordSize_ge [of "bigUint64_value n"] by simp
    then show ?thesis
      using Some n False SafeMul_value [of "toWordSize (bigUint64_value n)" 32]
      by (auto simp: requiredMemory_def bigUint64_def case_prod_beta mult.commute)
  qed (simp add: requiredMemory_def Some n bigUint64_def)
qed (simp add: requiredMemory_def)

lemma Memory_Len_Resize: "Memory_Len (Memory_Resize sz m) = max (Memory_Len m) (unat sz)"
  by (auto simp: Memory_Resize_def Memory_Len_def)

lemma UseGas_spec:
  "UseGas g c = (if unat g \<le> unat (c_Gas c) then (c\<lparr>c_Gas := c_Gas c - g\<rparr>, True) else (c, False))"
  by (auto simp: UseGas_def word_less_nat_alt)

lemma unat_gas_left: "unat g \<le> unat h \<Longrightarrow> unat (h - g) + unat g = unat (h :: uint64)"
  by (simp add: unat_sub word_le_nat_alt)

lemma enforce_guard:
  "enforceRestrictions evm b oper st = None \<Longrightarrow> op_writes oper \<longrightarrow> \<not> guarded evm"
  "enforceRestrictions evm CALL oper st = None \<Longrightarrow> guarded evm \<Longrightarrow> st ! 2 = 0"
  by (auto simp: enforceRestrictions_def guarded_def split: if_splits)

context execution_relation
begin

lemma leave_ok:
  assumes "frame_ok L f'" "frame_rel R L f f'" "unat (c_Gas (f_contract f')) \<le> unat (c_Gas (f_contract f))"
  shows "\<exists>x. leave f' ret err = Done x \<and> step_result R L f x"
  using assms by (simp add: leave_def step_result_def frame_ok_def frame_rel_def)

lemma frame_rel_refl: "frame_ok L f \<Longrightarrow> frame_rel R L f f"
  by (simp add: frame_rel_def evm_rel_refl frame_okD)

lemma advance_ok:
  assumes f: "frame_ok L f'" "frame_rel R L f f'" "unat (c_Gas (f_contract f')) \<le> unat (c_Gas (f_contract f))"
    and go: "op_halts oper \<or> op_reverts oper \<or> unat (c_Gas (f_contract f')) < unat (c_Gas (f_contract f))"
    and len: "err = None \<Longrightarrow> length (f_stack f') \<le> StackLimit"
  shows "\<exists>x. advance oper (f', res, err) = Done x \<and> step_result R L f x"
proof -
  define f1 where "f1 = (if op_returns oper then f'\<lparr>f_evm := (f_evm f')\<lparr>evm_returnData := res\<rparr>\<rparr> else f')"
  have f1: "frame_ok L f1" "frame_rel R L f f1" "f_contract f1 = f_contract f'" "f_stack f1 = f_stack f'"
    using f by (auto simp: f1_def frame_ok_def frame_rel_def evm_ok_def evm_rel_def guarded_def)
  have pc: "frame_ok L (f1\<lparr>f_pc := pc\<rparr>)" "frame_rel R L f (f1\<lparr>f_pc := pc\<rparr>)" for pc
    using f1 by (simp_all add: frame_ok_def frame_rel_def)
  have l: "\<exists>x. leave f1 ret e = Done x \<and> step_result R L f x" for ret e
    using leave_ok [OF f1(1,2)] f(3) f1(3) by simp
  have "advance oper (f', res, err) = (if err \<noteq> None then leave f1 [] err
      else if op_reverts oper then leave f1 res (Some errExecutionReverted)
      else if op_halts oper then leave f1 res None
      else Done (Inl (if op_jumps oper then f1 else f1\<lparr>f_pc := f_pc f1 + 1\<rparr>)))"
    by (simp add: advance_def f1_def Let_def)
  moreover have "step_result R L f (Inl (if op_jumps oper then f1 else f1\<lparr>f_pc := f_pc f1 + 1\<rparr>))"
    if "err = None" "\<not> op_reverts oper" "\<not> op_halts oper"
    using that go len f1 pc by (simp add: step_result_def)
  ultimately show ?thesis using l by auto
qed

lemma perform_prepared:
  assumes f: "frame_ok L f" "p \<le> length (f_stack f)"
    and m: "\<forall>ms. op_memorySize oper = Some ms \<longrightarrow> mem_ok ms p \<and> mm"
    and g: "gas_ok R L (op_gasCost oper) p least mm w" and w: "w \<longrightarrow> \<not> guarded (f_evm f)"
  shows "(\<exists>x. perform runner oper f = Done x \<and> step_result R L f x) \<or>
     (\<exists>sz f1 f2 cost. op_gasCost oper f sz = Done (f1, Inr cost) \<and> least \<le> unat cost \<and>
        perform runner oper f = obind (op_execute oper runner f2) (advance oper) \<and>
        frame_ok L f2 \<and> frame_rel R L f f2 \<and> mem_covered (op_memorySize oper) f2 \<and>
        f_stack f2 = f_stack f \<and> f_pc f2 = f_pc f \<and> f_evm f2 = f_evm f1 \<and>
        unat (c_Gas (f_contract f2)) + unat cost = unat (c_Gas (f_contract f)))"
proof -
  note nn = frame_okD(3) [OF f(1)]
  have "(\<exists>e. requiredMemory oper (f_stack f) = Done (Inl e)) \<or>
     (\<exists>sz. requiredMemory oper (f_stack f) = Done (Inr sz) \<and>
        (op_memorySize oper = None \<longrightarrow> sz = 0) \<and>
        (\<forall>ms. op_memorySize oper = Some ms \<longrightarrow> (\<exists>n \<ge> 0. ms (f_stack f) = Done n \<and> nat n \<le> unat sz)))"
    using requiredMemory_returns [OF _ f(2) nn] m by blast
  then show ?thesis
  proof (elim disjE exE conjE)
    fix e assume "requiredMemory oper (f_stack f) = Done (Inl e)"
    then show ?thesis using leave_ok [OF f(1) frame_rel_refl [OF f(1)]] by (simp add: perform_def)
  next
    fix sz assume sz: "requiredMemory oper (f_stack f) = Done (Inr sz)"
      and none: "op_memorySize oper = None \<longrightarrow> sz = 0"
      and cov: "\<forall>ms. op_memorySize oper = Some ms \<longrightarrow> (\<exists>n \<ge> 0. ms (f_stack f) = Done n \<and> nat n \<le> unat sz)"
    obtain f1 r where f1: "op_gasCost oper f sz = Done (f1, r)" "frame_ok L f1" "frame_rel R L f f1"
        "f_contract f1 = f_contract f" "f_stack f1 = f_stack f" "f_pc f1 = f_pc f"
        "mem_store (f_mem f1) = mem_store (f_mem f)"
        "\<forall>c. r = Inr c \<longrightarrow> least \<le> unat c \<and> (mm \<longrightarrow> unat sz \<le> 0xffffffffe0)"
      using g f w unfolding gas_ok_def by blast
    have bad: "\<exists>x. leave f1 [] e = Done x \<and> step_result R L f x" for e
      using leave_ok [OF f1(2,3)] f1(4) by simp
    show ?thesis
    proof (cases r)
      case (Inl e)
      then show ?thesis
        using sz f1(1) bad frame_okD(10) [OF f(1)] by (simp add: perform_def consumeGas_def)
    next
      case (Inr cost)
      show ?thesis
      proof (cases "unat cost \<le> unat (c_Gas (f_contract f))")
        case False
        then have "consumeGas oper f sz = Done (f1, False)"
          using f1(1,4) Inr frame_okD(10) [OF f(1)] by (simp add: consumeGas_def UseGas_spec)
        then show ?thesis using sz bad by (simp add: perform_def)
      next
        case True
        let ?f = "f1\<lparr>f_contract := (f_contract f)\<lparr>c_Gas := c_Gas (f_contract f) - cost\<rparr>\<rparr>"
        let ?f2 = "if sz > 0 then ?f\<lparr>f_mem := Memory_Resize sz (f_mem ?f)\<rparr> else ?f"
        have gas: "unat (c_Gas (f_contract f) - cost) + unat cost = unat (c_Gas (f_contract f))"
          using True by (rule unat_gas_left)
        have "consumeGas oper f sz = Done (?f, True)"
          using True f1(1,4) Inr frame_okD(10) [OF f(1)] by (simp add: consumeGas_def UseGas_spec)
        then have "perform runner oper f = obind (op_execute oper runner ?f2) (advance oper)"
          using sz by (simp add: perform_def)
        moreover have "contract_ok L ((f_contract f)\<lparr>c_Gas := c_Gas (f_contract f) - cost\<rparr>)"
          using frame_okD(2) [OF f(1)] gas by (simp add: contract_ok_def)
        moreover have "unat sz \<le> 2 ^ 40"
          using none f1(8) Inr m by (cases "op_memorySize oper") auto
        moreover have "unat sz \<le> Memory_Len (f_mem ?f2)"
          by (simp add: Memory_Len_Resize word_less_nat_alt)
        moreover have "mem_covered (op_memorySize oper) ?f2"
          using cov calculation(4) f1(5) unfolding mem_covered_def by fastforce
        ultimately show ?thesis
          using f1 gas Inr frame_okD(4) [OF f(1)]
          by (intro disjI2 exI [of _ sz] exI [of _ f1] exI [of _ ?f2] exI [of _ cost])
            (auto simp: frame_ok_def frame_rel_def Memory_Len_Resize)
      qed
    qed
  qed
qed

lemma frame_rel_fields:
  assumes "frame_rel R L f f'"
  shows "guarded (f_evm f') = guarded (f_evm f)" "c_Code (f_contract f') = c_Code (f_contract f)"
    "c_self (f_contract f') = c_self (f_contract f)" "c_value (f_contract f') = c_value (f_contract f)"
proof -
  have c: "f_contract f' = (f_contract f)\<lparr>c_Gas := c_Gas (f_contract f')\<rparr>" using assms by (simp only: frame_rel_def)
  show "guarded (f_evm f') = guarded (f_evm f)" using assms by (simp add: frame_rel_def evm_rel_def guarded_def)
  show "c_Code (f_contract f') = c_Code (f_contract f)" by (subst c) simp
  show "c_self (f_contract f') = c_self (f_contract f)" by (subst c) simp
  show "c_value (f_contract f') = c_value (f_contract f)" by (subst c) simp
qed

lemma plain_op_spec:
  assumes v: "op_validateStack oper = makeStackFunc p q" and x: "op_execute oper = plain ex"
    and g: "gas_ok R L (op_gasCost oper) p least mm (op_writes oper)"
    and e: "exec_ok R L b ex p q (op_memorySize oper) (op_writes oper)"
    and m: "\<forall>ms. op_memorySize oper = Some ms \<longrightarrow> mem_ok ms p \<and> mm"
    and cost: "0 < least \<or> op_halts oper \<or> op_reverts oper"
  shows "op_spec R L b oper"
  unfolding op_spec_def
proof (rule exI [of _ p], rule exI [of _ q], intro conjI allI impI, rule v, elim conjE)
  fix f runner n
  assume f: "frame_ok L f" "p \<le> length (f_stack f)" and lim: "length (f_stack f) + q \<le> StackLimit + p"
    and pc: "in_code b f" and enf: "enforceRestrictions (f_evm f) b oper (f_stack f) = None"
  have w: "op_writes oper \<longrightarrow> \<not> guarded (f_evm f)" using enforce_guard(1) [OF enf] .
  from perform_prepared [OF f m g w, of runner]
  show "\<exists>x. perform runner oper f = Done x \<and> step_result R L f x"
  proof (elim disjE exE conjE)
    fix sz f1 f2 c
    assume c: "least \<le> unat c" "unat (c_Gas (f_contract f2)) + unat c = unat (c_Gas (f_contract f))"
      and perf: "perform runner oper f = obind (op_execute oper runner f2) (advance oper)"
      and f2: "frame_ok L f2" "frame_rel R L f f2" "mem_covered (op_memorySize oper) f2"
        "f_stack f2 = f_stack f" "f_pc f2 = f_pc f"
    have "guarded (f_evm f2) = guarded (f_evm f)" "c_Code (f_contract f2) = c_Code (f_contract f)"
      using frame_rel_fields [OF f2(2)] by simp_all
    then have "result_ok R L p q f2 (ex f2)"
      using e f2 f(2) w pc by (simp add: exec_ok_def in_code_def)
    then obtain f3 res err where f3: "ex f2 = Done (f3, res, err)" "frame_ok L f3" "frame_rel R L f2 f3"
        "c_Gas (f_contract f3) = c_Gas (f_contract f2)"
        "err = None \<longrightarrow> length (f_stack f3) + p = length (f_stack f) + q"
      using f2(4) by (auto simp: result_ok_def)
    have "\<exists>x. advance oper (f3, res, err) = Done x \<and> step_result R L f x"
      using f3 c cost lim by (intro advance_ok [OF f3(2) frame_rel_trans [OF f(1) f2(2) f3(3)]]) auto
    then show ?thesis using perf f3(1) by (simp add: x plain_def)
  qed blast
qed

lemma spec_simple:
  "gas_ok R L g p least False False \<Longrightarrow> 0 < least \<Longrightarrow> exec_ok R L b ex p q None False \<Longrightarrow>
   op_spec R L b (operation_of (plain ex) g (makeStackFunc p q))"
  "gas_ok R L g p least False False \<Longrightarrow> 0 < least \<Longrightarrow> exec_ok R L b ex p q None False \<Longrightarrow>
   op_spec R L b ((operation_of (plain ex) g (makeStackFunc p q))\<lparr>op_jumps := True\<rparr>)"
  by (rule plain_op_spec [where least = least and mm = False]; simp add: operation_of_def)+

lemma spec_const:
  "0 < unat c \<Longrightarrow> exec_ok R L b ex p q None False \<Longrightarrow>
   op_spec R L b (operation_of (plain ex) (constGasFunc c) (makeStackFunc p q))"
  "0 < unat c \<Longrightarrow> exec_ok R L b ex p q None False \<Longrightarrow>
   op_spec R L b ((operation_of (plain ex) (constGasFunc c) (makeStackFunc p q))\<lparr>op_jumps := True\<rparr>)"
  by (rule spec_simple [OF gas_const(1)]; assumption)+

lemma spec_memory:
  "gas_ok R L g p least True False \<Longrightarrow> 0 < least \<Longrightarrow> exec_ok R L b ex p q (Some ms) False \<Longrightarrow> mem_ok ms p \<Longrightarrow>
   op_spec R L b ((operation_of (plain ex) g (makeStackFunc p q))\<lparr>op_memorySize := Some ms\<rparr>)"
  by (rule plain_op_spec [where least = least and mm = True]) (simp_all add: operation_of_def)

lemma table_arithmetic_ok: "list_all (\<lambda>(b, oper). op_spec R L b oper) table_arithmetic"
proof -
  have "op_spec R L b ((operation_of (plain opStop) (constGasFunc 0) (makeStackFunc 0 0))\<lparr>op_halts := True\<rparr>)" for b
    by (rule plain_op_spec [where least = 0 and mm = False and ex = opStop and p = 0 and q = 0])
      (use gas_const(1) [of L 0 0 False] exec_neutral in \<open>simp_all add: operation_of_def\<close>)
  then show ?thesis
    unfolding table_arithmetic_def
    by (simp add: spec_const exec_binary exec_unary gas_constants spec_simple [OF gas_Exp]
        del: One_nat_def)
qed

lemma table_comparison_ok: "list_all (\<lambda>(b, oper). op_spec R L b oper) table_comparison"
  unfolding table_comparison_def
  by (simp add: spec_const exec_binary exec_unary gas_constants mem_ok_table
      spec_memory [OF gas_Sha3 _ exec_Sha3] del: One_nat_def)

lemma table_environment_ok: "list_all (\<lambda>(b, oper). op_spec R L b oper) table_environment"
  unfolding table_environment_def
  by (simp add: spec_const exec_unary exec_nullary exec_readers gas_constants mem_ok_table
      spec_simple [OF gas_const(2)] spec_simple [OF gas_const(3)]
      spec_memory [OF gas_copies(1) _ exec_copies(1)] spec_memory [OF gas_copies(3) _ exec_copies(2)]
      spec_memory [OF gas_ExtCodeCopy _ exec_ExtCodeCopy] del: One_nat_def)

lemma spec_Sstore:
  "op_spec R L b ((operation_of (plain opSstore) gasSStore (makeStackFunc 2 0))\<lparr>op_writes := True\<rparr>)"
  by (rule plain_op_spec [where least = 5000 and mm = False and p = 2 and q = 0 and ex = opSstore])
    (simp_all add: operation_of_def gas_SStore exec_Sstore)

lemma table_storage_flow_ok: "list_all (\<lambda>(b, oper). op_spec R L b oper) table_storage_flow"
  unfolding table_storage_flow_def
  by (simp add: spec_const exec_unary exec_nullary exec_neutral exec_jumps exec_readers gas_constants mem_ok_table
      spec_simple [OF gas_const(4)] spec_Sstore
      spec_memory [OF gas_memory(1) _ exec_Mload] spec_memory [OF gas_memory(2) _ exec_Mstore]
      spec_memory [OF gas_memory(3) _ exec_Mstore8] del: One_nat_def)

lemma table_push_ok: "list_all (\<lambda>(b, oper). op_spec R L b oper) table_push"
proof -
  have "(0x5f + word_of_nat n :: byte) \<noteq> 0" if "n < 33" for n
  proof -
    have "unat (0x5f + word_of_nat n :: byte) = 0x5f + n" using that unat_tag [of "0x5f" n] by simp
    then show ?thesis by auto
  qed
  then show ?thesis
    unfolding table_push_def by (auto simp: list_all_iff intro!: spec_simple(1) [OF gas_const(5)] exec_Push [simplified])
qed

lemma table_dup_ok: "list_all (\<lambda>(b, oper). op_spec R L b oper) table_dup"
  unfolding table_dup_def
  by (auto simp: list_all_iff makeDupStackFunc_def intro!: spec_simple(1) [OF gas_const(7)] exec_Dup [simplified])

lemma table_swap_ok: "list_all (\<lambda>(b, oper). op_spec R L b oper) table_swap"
proof -
  have "op_spec R L b (operation_of (plain (makeSwap n)) gasSwap (makeSwapStackFunc (n + 1)))" for b n
    unfolding makeSwapStackFunc_def by (rule spec_simple(1) [OF gas_const(6) _ exec_Swap]) simp
  then show ?thesis
    unfolding table_swap_def by (simp add: list_all_iff)
qed

lemma spec_Log:
  "op_spec R L b ((operation_of (plain (makeLog n)) (makeGasLog k) (makeStackFunc (n + 2) 0))
     \<lparr>op_memorySize := Some memoryLog, op_writes := True\<rparr>)"
  by (rule plain_op_spec [where least = 375 and mm = True and p = "n + 2" and q = 0 and ex = "makeLog n"])
    (simp_all add: operation_of_def gas_Log exec_Log mem_ok_table del: add_2_eq_Suc')

lemma table_log_ok: "list_all (\<lambda>(b, oper). op_spec R L b oper) table_log"
  using spec_Log [of L _ 0 0] spec_Log [of L _ 1 1] spec_Log [of L _ 2 2] spec_Log [of L _ 3 3] spec_Log [of L _ 4 4]
  unfolding table_log_def by (simp del: One_nat_def add_2_eq_Suc add_2_eq_Suc')

end

end
