(* ===== verification/EVM_CallSafety.thy ===== *)
theory EVM_CallSafety
  imports EVM_Turns
begin

text \<open>
  Message calls and contract creation, for any \<open>execution_relation\<close> and any interpreter that keeps
  its contract \<open>runner_ok\<close>: they return, keep the invariants, never return more gas than they were
  given, change the state as the relation allows, and leave it as it was when they fail.
\<close>

subsection \<open>The contract of a call\<close>

definition call_ok ::
  "(bool \<Rightarrow> StateDB \<Rightarrow> StateDB \<Rightarrow> bool) \<Rightarrow> (Hash \<Rightarrow> nat) \<Rightarrow> EVM \<Rightarrow> uint64 \<Rightarrow>
     (EVM \<times> bytes \<times> uint64 \<times> vm_error option) outcome \<Rightarrow> bool" where
  "call_ok R L evm gas r \<longleftrightarrow>
     (\<exists>evm' ret left err. r = Done (evm', ret, left, err) \<and> evm_ok L evm' \<and> evm_rel R L evm evm' \<and>
        unat left \<le> unat gas \<and>
        (err \<noteq> None \<longrightarrow> observation (evm_StateDB evm') = observation (evm_StateDB evm)))"

definition bumped :: "Address \<Rightarrow> StateDB \<Rightarrow> StateDB \<Rightarrow> bool" where
  \<comment> \<open>the states differ at most in the nonce of one account, which is one higher\<close>
  "bumped a s s' \<longleftrightarrow>
     view s' = (view s)(a \<mapsto> (acct s a)\<lparr>v_nonce := v_nonce (acct s a) + 1\<rparr>) \<and>
     sdb_refund s' = sdb_refund s \<and> sdb_logs s' = sdb_logs s"

definition create_ok ::
  "(bool \<Rightarrow> StateDB \<Rightarrow> StateDB \<Rightarrow> bool) \<Rightarrow> (Hash \<Rightarrow> nat) \<Rightarrow> Address \<Rightarrow> EVM \<Rightarrow> uint64 \<Rightarrow>
     (EVM \<times> bytes \<times> Address \<times> uint64 \<times> vm_error option) outcome \<Rightarrow> bool" where
  "create_ok R L caller evm gas r \<longleftrightarrow>
     (\<exists>evm' ret addr left err. r = Done (evm', ret, addr, left, err) \<and> evm_ok L evm' \<and> evm_rel R L evm evm' \<and>
        unat left \<le> unat gas \<and>
        (err \<noteq> None \<and> err \<noteq> Some ErrCodeStoreOutOfGas \<longrightarrow>
           observation (evm_StateDB evm') = observation (evm_StateDB evm) \<or>
           bumped caller (evm_StateDB evm) (evm_StateDB evm')))"

definition call_pre :: "(Hash \<Rightarrow> nat) \<Rightarrow> nat \<Rightarrow> EVM \<Rightarrow> bytes \<Rightarrow> uint64 \<Rightarrow> bool" where
  "call_pre L n evm input gas \<longleftrightarrow>
     evm_ok L evm \<and> length input \<le> 2 ^ 40 \<and> unat gas < n \<and> unat gas < 2 ^ 61"

lemma observation_reader_states [simp]:
  "observation (fst (GetBalance a s)) = observation s" "observation (fst (GetNonce a s)) = observation s"
  "observation (fst (GetCodeHash a s)) = observation s" "observation (fst (Exist a s)) = observation s"
  "observation (fst (CanTransfer s a n)) = observation s"
  by (simp_all add: reader_states)

lemma CanTransfer_value: "snd (CanTransfer s a n) \<longleftrightarrow> n \<le> balance s a"
  by (simp add: CanTransfer_def balance_def case_prod_beta)

lemma balance_obs: "observation s' = observation s \<Longrightarrow> balance s' = balance s"
  by (simp add: observation_def balance_view fun_eq_iff)

lemma balance_CreateAccount: "balance (CreateAccount a s) = balance s"
  by (auto simp: balance_view fun_eq_iff split: option.splits)

lemma view_obs: "observation s' = observation s \<Longrightarrow> view s' = view s"
  by (simp add: observation_def)

lemma guarded_upd [simp]:
  "guarded (evm\<lparr>evm_StateDB := s\<rparr>) = guarded evm" "guarded (evm\<lparr>evm_jumpdests := j\<rparr>) = guarded evm"
  by (simp_all add: guarded_def)

lemma evm_okD:
  assumes "evm_ok L evm"
  shows "wf_db (evm_StateDB evm)" "accounts_ok L (evm_StateDB evm)" "jumpdests_ok L (evm_jumpdests evm)"
  using assms by (simp_all add: evm_ok_def)

lemma evm_ok_upd:
  "evm_ok L evm \<Longrightarrow> wf_db s \<Longrightarrow> accounts_ok L s \<Longrightarrow> evm_ok L (evm\<lparr>evm_StateDB := s\<rparr>)"
  "evm_ok L evm \<Longrightarrow> jumpdests_ok L j \<Longrightarrow> evm_ok L (evm\<lparr>evm_jumpdests := j\<rparr>)"
  by (simp_all add: evm_ok_def)

lemma jumpdests_ok_empty [simp]: "jumpdests_ok L Map.empty"
  by (simp add: jumpdests_ok_def)

lemma shared_jumpdests_form:
  assumes "jumpdests_ok L (evm_jumpdests evm)"
  obtains j where "shared_jumpdests caller (evm\<lparr>evm_StateDB := t\<rparr>) = evm\<lparr>evm_jumpdests := j, evm_StateDB := t\<rparr>"
    "jumpdests_ok L j"
proof (cases caller)
  case (ContractCaller c)
  then show ?thesis using that [of "evm_jumpdests evm"] assms by (simp add: shared_jumpdests_def)
next
  case (AccountRef a)
  then show ?thesis using that [of Map.empty] by (simp add: shared_jumpdests_def)
qed

context execution_relation
begin

lemma T_protect: "trans R L True s s' \<Longrightarrow> trans R L ro s s'"
  using R_protect by (auto simp: trans_def)

lemma T_readers_from:
  assumes "wf_db s" "trans R L ro s s'"
  shows "trans R L ro s (fst (GetNonce a s'))" "trans R L ro s (fst (GetCodeHash a s'))"
    "trans R L ro s (fst (Exist a s'))" "trans R L ro s (fst (GetCode a s'))" "trans R L ro s (fst (Snapshot s'))"
  by (rule T_trans [OF assms], rule T_readers T_GetCode T_Snapshot, rule T_wf [OF assms(2)])+

lemma run_ok:
  assumes "runner_ok R L n runner" "evm_ok L evm" "contract_ok L c" "unat (c_Gas c) < n" "length input \<le> 2 ^ 40"
  shows "\<exists>evm' c' ret err. run runner evm c input = Done (evm', c', ret, err) \<and> evm_ok L evm' \<and>
     evm_rel R L evm evm' \<and> unat (c_Gas c') \<le> unat (c_Gas c)"
proof (cases "case c_CodeAddr c of None \<Rightarrow> None | Some a \<Rightarrow> precompiles evm a")
  case None
  then have "run runner evm c input = runner evm c input" by (simp add: run_def)
  then show ?thesis using assms unfolding runner_ok_def by metis
next
  case (Some p)
  obtain c' ret err where "RunPrecompiledContract (evm_native evm) (evm_keccak evm) p input c = Done (c', ret, err)"
      "unat (c_Gas c') \<le> unat (c_Gas c)"
    using RunPrecompiledContract_returns [OF assms(5), of c] assms(3) unfolding contract_ok_def by blast
  then show ?thesis using Some assms(2) evm_rel_refl [OF evm_okD(1) [OF assms(2)]] by (simp add: run_def)
qed

lemma load_code_ok:
  assumes "evm_ok L evm" "unat (c_Gas c0) < 2 ^ 61" "0 \<le> c_value c0"
  shows "\<exists>s c. load_code addr evm c0 = (evm\<lparr>evm_StateDB := s\<rparr>, c) \<and>
     trans R L ro (evm_StateDB evm) s \<and> contract_ok L c \<and> c_Gas c = c_Gas c0"
proof -
  note wf = evm_okD(1) [OF assms(1)]
  let ?s1 = "fst (GetCodeHash addr (evm_StateDB evm))"
  let ?v = "view (evm_StateDB evm) addr"
  have "snd (GetCode addr ?s1) = (case ?v of None \<Rightarrow> None | Some v \<Rightarrow> v_code v)"
    using view_obs [OF observation_reader_states(3), of addr "evm_StateDB evm"] by (simp add: GetCode_value)
  moreover have "\<forall>v. ?v = Some v \<longrightarrow> account_ok L v" using evm_okD(2) [OF assms(1)] by (simp add: accounts_ok_def)
  ultimately have "contract_ok L (SetCallCode addr (snd (GetCodeHash addr (evm_StateDB evm)))
      (code_bytes (snd (GetCode addr ?s1))) c0)"
    using assms(2,3)
    by (auto simp: contract_ok_def SetCallCode_def reader_values code_bytes_def account_ok_def split: option.splits)
  moreover have "trans R L ro (evm_StateDB evm) (fst (GetCode addr ?s1))"
    by (rule T_readers_from(4) [OF wf T_readers(3) [OF wf]])
  ultimately show ?thesis
    by (intro exI [of _ "fst (GetCode addr ?s1)"]
        exI [of _ "SetCallCode addr (snd (GetCodeHash addr (evm_StateDB evm))) (code_bytes (snd (GetCode addr ?s1))) c0"])
      (simp add: load_code_def case_prod_beta, simp add: SetCallCode_def)
qed

lemma revert_to:
  assumes wf: "wf_db s0" and s: "extends s0 s" "observation s = observation s0"
    and t: "trans R L ro (fst (Snapshot s)) s'"
  shows "\<exists>s''. RevertToSnapshot (snd (Snapshot s)) s' = Done s'' \<and> observation s'' = observation s0 \<and>
     trans R L ro' s0 s''"
  using revert_Snapshot [OF extends_wf [OF s(1)] T_extends [OF t]] s(2) extends_trans [OF wf s(1)] T_obs by metis

lemma evm_rel_upd:
  "evm_rel R L (evm\<lparr>evm_jumpdests := j, evm_StateDB := s\<rparr>) evm' \<Longrightarrow> wf_db (evm_StateDB evm) \<Longrightarrow>
   trans R L (guarded evm) (evm_StateDB evm) s \<Longrightarrow> evm_rel R L evm evm'"
  using T_trans [of "evm_StateDB evm" L "guarded evm" s "evm_StateDB evm'"] by (simp add: evm_rel_def guarded_def)

lemma evm_rel_reverted:
  "evm_rel R L (evm\<lparr>evm_jumpdests := j, evm_StateDB := s\<rparr>) evm' \<Longrightarrow>
   trans R L (guarded evm) (evm_StateDB evm) s' \<Longrightarrow> evm_rel R L evm (evm'\<lparr>evm_StateDB := s'\<rparr>)"
  by (simp add: evm_rel_def)

lemma call_finish:
  assumes evm: "evm_ok L evm" and run: "runner_ok R L n runner"
    and s: "extends (evm_StateDB evm) s" "observation s = observation (evm_StateDB evm)"
    and t: "trans R L (guarded evm) (fst (Snapshot s)) t"
    and j: "jumpdests_ok L j" and c: "contract_ok L c" "unat (c_Gas c) < n" and input: "length input \<le> 2 ^ 40"
  shows "call_ok R L evm (c_Gas c)
    (obind (run runner (evm\<lparr>evm_jumpdests := j, evm_StateDB := t\<rparr>) c input) (settle (snd (Snapshot s))))"
proof -
  let ?evm = "evm\<lparr>evm_jumpdests := j, evm_StateDB := t\<rparr>"
  note wf = evm_okD(1) [OF evm]
  have 1: "trans R L (guarded evm) (evm_StateDB evm) (fst (Snapshot s))"
    by (rule T_obs [OF extends_trans [OF wf s(1) extends_Snapshot]]) (use extends_wf [OF s(1)] s(2) in simp_all)
  note t0 = T_trans [OF wf 1 t]
  have "evm_ok L ?evm"
    using evm T_wf [OF t0] T_accounts [OF t0] j by (simp add: evm_ok_def)
  from run_ok [OF run this c input]
  obtain evm' c' ret err where r: "run runner ?evm c input = Done (evm', c', ret, err)" "evm_ok L evm'"
      "evm_rel R L ?evm evm'" "unat (c_Gas c') \<le> unat (c_Gas c)"
    by blast
  have "trans R L (guarded evm) t (evm_StateDB evm')"
    using r(3) by (simp add: evm_rel_def guarded_def)
  then obtain s'' where s'': "RevertToSnapshot (snd (Snapshot s)) (evm_StateDB evm') = Done s''"
      "observation s'' = observation (evm_StateDB evm)" "trans R L (guarded evm) (evm_StateDB evm) s''"
    using revert_to [OF wf s T_trans [OF T_wf [OF 1] t]] by blast
  have "evm_ok L (evm'\<lparr>evm_StateDB := s''\<rparr>)"
    by (rule evm_ok_upd(1) [OF r(2) T_wf [OF s''(3)] T_accounts [OF s''(3) evm_okD(2) [OF evm]]])
  then show ?thesis
    using r evm_rel_upd [OF r(3) wf t0] evm_rel_reverted [OF r(3) s''(3)] s''(1,2)
    by (simp add: call_ok_def settle_def Let_def UseGas_def)
qed

lemma call_early:
  assumes "evm_ok L evm" "extends (evm_StateDB evm) s" "observation s = observation (evm_StateDB evm)"
  shows "call_ok R L evm gas (Done (evm\<lparr>evm_StateDB := s\<rparr>, ret, gas, err))"
  using assms T_obs [OF assms(2,3), of L "guarded evm"] accounts_ok_obs [OF assms(3)] extends_wf [OF assms(2)]
  by (simp add: call_ok_def evm_ok_def evm_rel_def)

lemma call_unchanged: "evm_ok L evm \<Longrightarrow> call_ok R L evm gas (Done (evm, ret, gas, err))"
  using call_early [of L evm "evm_StateDB evm"] by (simp add: extends_refl evm_okD)

lemma call_loaded:
  assumes pre: "call_pre L n evm input (c_Gas c0)" and run: "runner_ok R L n runner" and v: "0 \<le> c_value c0"
    and s: "extends (evm_StateDB evm) s" "observation s = observation (evm_StateDB evm)"
    and t: "trans R L (guarded evm) (fst (Snapshot s)) t"
  shows "call_ok R L evm (c_Gas c0)
    (let (evm1, contract) = load_code addr (shared_jumpdests caller (evm\<lparr>evm_StateDB := t\<rparr>)) c0
     in obind (run runner evm1 contract input) (settle (snd (Snapshot s))))"
proof -
  have evm: "evm_ok L evm" using pre by (simp add: call_pre_def)
  note wf = evm_okD(1) [OF evm]
  have "trans R L (guarded evm) (evm_StateDB evm) (fst (Snapshot s))"
    by (rule T_obs [OF extends_trans [OF wf s(1) extends_Snapshot]]) (use extends_wf [OF s(1)] s(2) in simp_all)
  from T_trans [OF wf this t] have t0: "wf_db t" "accounts_ok L t"
    using T_wf T_accounts evm_okD(2) [OF evm] by blast+
  obtain j where j: "shared_jumpdests caller (evm\<lparr>evm_StateDB := t\<rparr>) = evm\<lparr>evm_jumpdests := j, evm_StateDB := t\<rparr>"
      "jumpdests_ok L j"
    by (rule shared_jumpdests_form [OF evm_okD(3) [OF evm]])
  have "evm_ok L (evm\<lparr>evm_jumpdests := j, evm_StateDB := t\<rparr>)" using evm t0 j(2) by (simp add: evm_ok_def)
  from load_code_ok [OF this _ v, of addr "guarded evm"] pre
  obtain t' c where l: "load_code addr (evm\<lparr>evm_jumpdests := j, evm_StateDB := t\<rparr>) c0 =
        (evm\<lparr>evm_jumpdests := j, evm_StateDB := t'\<rparr>, c)"
      "trans R L (guarded evm) t t'" "contract_ok L c" "c_Gas c = c_Gas c0"
    by (auto simp: call_pre_def)
  from call_finish [OF evm run s T_trans [OF _ t l(2)] j(2) l(3), of input]
  show ?thesis using pre l(1,4) j(1) extends_Snapshot [OF extends_wf [OF s(1)], THEN extends_wf]
    by (simp add: call_pre_def)
qed

subsection \<open>The four calls\<close>

lemma Call_ok:
  assumes pre: "call_pre L n evm input gas" and run: "runner_ok R L n runner"
    and v: "0 \<le> value" "guarded evm \<Longrightarrow> value = 0"
  shows "call_ok R L evm gas (Call runner caller addr input gas value evm)"
proof -
  have evm: "evm_ok L evm" using pre by (simp add: call_pre_def)
  note wf = evm_okD(1) [OF evm]
  let ?a = "ref_Address caller"
  let ?s0 = "fst (CanTransfer (evm_StateDB evm) ?a value)" and ?can = "snd (CanTransfer (evm_StateDB evm) ?a value)"
  let ?s1 = "fst (Snapshot ?s0)"
  let ?s2 = "fst (Exist addr ?s1)" and ?e = "snd (Exist addr ?s1)"
  let ?s3 = "if ?e then ?s2 else CreateAccount addr ?s2"
  let ?s4 = "Transfer ?a addr value ?s3"
  have x0: "extends (evm_StateDB evm) ?s0" by (simp add: reader_states op_extends wf)
  have x1: "wf_db ?s1" using extends_wf [OF extends_Snapshot [OF extends_wf [OF x0]]] .
  have x2: "trans R L (guarded evm) ?s1 ?s2" by (rule T_readers(5) [OF x1])
  have v2: "view ?s2 = view ?s1" by (rule view_obs) simp
  have x3: "trans R L (guarded evm) ?s1 ?s3"
    using x2 T_trans [OF x1 x2 T_create_absent [OF T_wf [OF x2], of addr]] v2 by (simp add: reader_values)
  have "balance ?s3 = balance ?s2" by (simp add: balance_CreateAccount)
  also have "\<dots> = balance (evm_StateDB evm)" by (rule balance_obs) simp
  finally have b: "balance ?s3 = balance (evm_StateDB evm)" .
  have fin: "call_ok R L evm gas (let (evm1, contract) = load_code addr
        (shared_jumpdests caller (evm\<lparr>evm_StateDB := ?s4\<rparr>)) (NewContract caller addr value gas)
      in obind (run runner evm1 contract input) (settle (snd (Snapshot ?s0))))" if ?can
  proof -
    have "value \<le> balance ?s3 ?a" using that b by (simp add: CanTransfer_value)
    from T_trans [OF x1 x3 T_transfer [OF T_wf [OF x3] v(1) this v(2)]]
    have "trans R L (guarded evm) ?s1 ?s4" .
    then show ?thesis
      using call_loaded [of L n evm input "NewContract caller addr value gas" runner ?s0] pre run v(1) x0
      by (simp add: NewContract_def)
  qed
  have "call_ok R L evm gas (Done (evm\<lparr>evm_StateDB := ?s2\<rparr>, [], gas, None))"
    by (rule call_early [OF evm extends_trans [OF wf extends_trans [OF wf x0 extends_Snapshot]]])
      (use extends_wf [OF x0] T_extends [OF x2] in simp_all)
  then have "call_ok R L evm gas
      (Done (evm\<lparr>evm_StateDB := fst (Exist addr (fst (Snapshot (fst (CanTransfer (evm_StateDB evm) ?a 0)))))\<rparr>, [], gas, None))"
    if "value = 0" using that by simp
  moreover have "call_ok R L evm gas (Done (evm\<lparr>evm_StateDB := ?s0\<rparr>, [], gas, err))" for err
    by (rule call_early [OF evm x0]) simp
  ultimately show ?thesis
    using fin call_unchanged [OF evm] unfolding Call_def Let_def case_prod_beta by simp
qed

lemma CallCode_ok:
  assumes pre: "call_pre L n evm input gas" and run: "runner_ok R L n runner" and v: "0 \<le> value"
  shows "call_ok R L evm gas (CallCode runner caller addr input gas value evm)"
proof -
  have evm: "evm_ok L evm" using pre by (simp add: call_pre_def)
  let ?s0 = "fst (CanTransfer (evm_StateDB evm) (ref_Address caller) value)"
  have x0: "extends (evm_StateDB evm) ?s0" by (simp add: reader_states op_extends evm_okD(1) [OF evm])
  have "call_ok R L evm gas (Done (evm\<lparr>evm_StateDB := ?s0\<rparr>, [], gas, err))" for err
    by (rule call_early [OF evm x0]) simp
  moreover have "call_ok R L evm gas (let (evm1, contract) = load_code addr
        (shared_jumpdests caller (evm\<lparr>evm_StateDB := fst (Snapshot ?s0)\<rparr>))
        (NewContract caller (ref_Address caller) value gas)
      in obind (run runner evm1 contract input) (settle (snd (Snapshot ?s0))))"
    using call_loaded [of L n evm input "NewContract caller (ref_Address caller) value gas" runner ?s0] pre run v x0
      T_refl [OF extends_wf [OF extends_Snapshot [OF extends_wf [OF x0]]]]
    by (simp add: NewContract_def)
  ultimately show ?thesis
    using call_unchanged [OF evm] unfolding CallCode_def Let_def case_prod_beta by simp
qed

lemma DelegateCall_ok:
  assumes pre: "call_pre L n evm input gas" and run: "runner_ok R L n runner" and v: "0 \<le> c_value parent"
  shows "call_ok R L evm gas (DelegateCall runner (ContractCaller parent) addr input gas evm)"
proof -
  have evm: "evm_ok L evm" using pre by (simp add: call_pre_def)
  note wf = evm_okD(1) [OF evm]
  let ?c = "(NewContract (ContractCaller parent) (c_self parent) 0 gas)
    \<lparr>c_DelegateCall := True, c_CallerAddress := c_CallerAddress parent, c_value := c_value parent\<rparr>"
  have "call_ok R L evm gas (let (evm1, contract) = load_code addr
        (shared_jumpdests (ContractCaller parent) (evm\<lparr>evm_StateDB := fst (Snapshot (evm_StateDB evm))\<rparr>)) ?c
      in obind (run runner evm1 contract input) (settle (snd (Snapshot (evm_StateDB evm)))))"
    using call_loaded [of L n evm input ?c runner "evm_StateDB evm"] pre run v extends_refl [OF wf]
      T_refl [OF extends_wf [OF extends_Snapshot [OF wf]]]
    by (simp add: NewContract_def)
  then show ?thesis
    using call_unchanged [OF evm] unfolding DelegateCall_def Let_def case_prod_beta by simp
qed

lemma call_ok_readOnly:
  assumes "evm_ok L evm" "call_ok R L (evm\<lparr>evm_readOnly := True\<rparr>) gas r"
  shows "call_ok R L evm gas (obind r (\<lambda>(evm2, r). Done (evm2\<lparr>evm_readOnly := evm_readOnly evm\<rparr>, r)))"
proof -
  obtain evm' ret left err where r: "r = Done (evm', ret, left, err)" "evm_ok L evm'"
      "evm_rel R L (evm\<lparr>evm_readOnly := True\<rparr>) evm'" "unat left \<le> unat gas"
      "err \<noteq> None \<longrightarrow> observation (evm_StateDB evm') = observation (evm_StateDB evm)"
    using assms(2) by (auto simp: call_ok_def)
  have "trans R L (guarded evm) (evm_StateDB evm) (evm_StateDB evm')"
    using r(3) T_protect [of L "evm_StateDB evm" "evm_StateDB evm'"]
    by (cases "evm_IsByzantium evm") (simp_all add: evm_rel_def guarded_def)
  then have "evm_rel R L evm (evm'\<lparr>evm_readOnly := evm_readOnly evm\<rparr>)" using r(3) by (simp add: evm_rel_def)
  moreover have "evm_ok L (evm'\<lparr>evm_readOnly := evm_readOnly evm\<rparr>)" using r(2) by (simp add: evm_ok_def)
  ultimately show ?thesis using r by (simp add: call_ok_def)
qed

lemma static_run:
  assumes pre: "call_pre L n evm input gas" and run: "runner_ok R L n runner"
  shows "call_ok R L (evm\<lparr>evm_readOnly := True\<rparr>) gas (let (evm1, contract) = load_code addr
        (shared_jumpdests caller (evm\<lparr>evm_readOnly := True, evm_StateDB := fst (Snapshot (evm_StateDB evm))\<rparr>))
        (NewContract caller addr 0 gas)
      in obind (run runner evm1 contract input) (settle (snd (Snapshot (evm_StateDB evm)))))"
proof -
  let ?evm = "evm\<lparr>evm_readOnly := True\<rparr>"
  have pre': "call_pre L n ?evm input gas" using pre by (simp add: call_pre_def evm_ok_def)
  have wf: "wf_db (evm_StateDB ?evm)" using pre by (simp add: call_pre_def evm_ok_def)
  show ?thesis
    using call_loaded [of L n ?evm input "NewContract caller addr 0 gas" runner "evm_StateDB ?evm"] pre' run
      extends_refl [OF wf] T_refl [OF extends_wf [OF extends_Snapshot [OF wf]]]
    by (simp add: NewContract_def)
qed

lemma StaticCall_ok:
  assumes pre: "call_pre L n evm input gas" and run: "runner_ok R L n runner"
  shows "call_ok R L evm gas (StaticCall runner caller addr input gas evm)"
proof -
  have evm: "evm_ok L evm" using pre by (simp add: call_pre_def)
  from call_ok_readOnly [OF evm static_run [OF assms]] show ?thesis
    using call_unchanged [OF evm] unfolding StaticCall_def Let_def case_prod_beta by simp
qed

lemma StaticCall_protects:
  assumes pre: "call_pre L n evm input gas" and run: "runner_ok R L n runner"
    and "StaticCall runner caller addr input gas evm = Done (evm', ret, left, err)"
  shows "trans R L (evm_IsByzantium evm) (evm_StateDB evm) (evm_StateDB evm')"
proof -
  have wf: "wf_db (evm_StateDB evm)" using pre by (simp add: call_pre_def evm_ok_def)
  have "guarded (evm\<lparr>evm_readOnly := True\<rparr>) = evm_IsByzantium evm" by (simp add: guarded_def)
  then have r: "call_ok R L (evm\<lparr>evm_readOnly := True\<rparr>) gas r \<Longrightarrow> r = Done (evm2, x) \<Longrightarrow>
      trans R L (evm_IsByzantium evm) (evm_StateDB evm) (evm_StateDB evm2)" for r evm2 x
    by (auto simp: call_ok_def evm_rel_def)
  from r [OF static_run [OF pre run, of addr caller]] show ?thesis
    using assms(3) T_refl [OF wf] unfolding StaticCall_def Let_def case_prod_beta by (auto split: if_splits)
qed

subsection \<open>Contract creation\<close>

lemma store_code_ok:
  assumes "evm_ok L evm" "\<not> guarded evm"
  shows "\<exists>evm' c' err'. store_code addr (evm, c, ret, err) = (evm', c', ret, err') \<and> evm_ok L evm' \<and>
     evm_rel R L evm evm' \<and> unat (c_Gas c') \<le> unat (c_Gas c)"
proof -
  let ?s = "SetCode addr (if ret = [] then None else Some ret) (evm_StateDB evm)"
  let ?g = "word_of_nat (length ret) * CreateDataGas"
  note wf = evm_okD(1) [OF assms(1)]
  have 1: "trans R L False (evm_StateDB evm) ?s" if "length ret \<le> MaxCodeSize"
    using that by (intro T_writers(7) [OF wf evm_okD(2) [OF assms(1)]]) (auto simp: MaxCodeSize_def)
  have 2: "evm_ok L (evm\<lparr>evm_StateDB := ?s\<rparr>)" "evm_rel R L evm (evm\<lparr>evm_StateDB := ?s\<rparr>)" if "length ret \<le> MaxCodeSize"
    using assms T_wf [OF 1 [OF that]] T_accounts [OF 1 [OF that] evm_okD(2) [OF assms(1)]] 1 [OF that]
    by (simp_all add: evm_ok_def evm_rel_def)
  have 3: "unat (c_Gas c - ?g) \<le> unat (c_Gas c)" if "unat ?g \<le> unat (c_Gas c)"
    using unat_gas_left [OF that] by linarith
  show ?thesis
    using 2 3 assms(1) evm_rel_refl [OF wf, of L] by (auto simp: store_code_def UseGas_spec)
qed

lemma settle_create_ok:
  assumes evm: "evm_ok L evm" and rel: "evm_rel R L (evm\<lparr>evm_jumpdests := j, evm_StateDB := t\<rparr>) evm'" "evm_ok L evm'"
    and t: "trans R L (guarded evm) (fst (Snapshot (evm_StateDB evm))) t" and gas: "unat (c_Gas c) \<le> unat gas"
  shows "\<exists>evm'' left err'. settle_create (snd (Snapshot (evm_StateDB evm))) addr (evm', c, ret, err) =
       Done (evm'', ret, addr, left, err') \<and> evm_ok L evm'' \<and> evm_rel R L evm evm'' \<and> unat left \<le> unat gas \<and>
       (err' \<noteq> None \<and> err' \<noteq> Some ErrCodeStoreOutOfGas \<longrightarrow>
          observation (evm_StateDB evm'') = observation (evm_StateDB evm))"
proof -
  note wf = evm_okD(1) [OF evm]
  note s1 = T_Snapshot [OF wf, of L "guarded evm"]
  have "trans R L (guarded evm) t (evm_StateDB evm')" using rel(1) by (simp add: evm_rel_def guarded_def)
  then obtain s'' where s'': "RevertToSnapshot (snd (Snapshot (evm_StateDB evm))) (evm_StateDB evm') = Done s''"
      "observation s'' = observation (evm_StateDB evm)" "trans R L (guarded evm) (evm_StateDB evm) s''"
    using revert_to [OF wf extends_refl [OF wf] refl T_trans [OF T_wf [OF s1] t]] by blast
  have "evm_ok L (evm'\<lparr>evm_StateDB := s''\<rparr>)"
    by (rule evm_ok_upd(1) [OF rel(2) T_wf [OF s''(3)] T_accounts [OF s''(3) evm_okD(2) [OF evm]]])
  then show ?thesis
    using gas rel(2) evm_rel_upd [OF rel(1) wf T_trans [OF wf s1 t]] evm_rel_reverted [OF rel(1) s''(3)] s''(1,2)
    by (auto simp: settle_create_def Let_def UseGas_def)
qed

lemma bumped_nonce:
  assumes "wf_db s" "observation s1 = observation s" "wf_db s1" "n = v_nonce (acct s a) + 1"
    "observation s2 = observation (SetNonce a n s1)"
  shows "bumped a s s2"
proof -
  have "acct s1 = acct s" by (rule acct_obs [OF assms(2)])
  moreover have "sdb_refund (SetNonce a n s1) = sdb_refund s1" "sdb_logs (SetNonce a n s1) = sdb_logs s1"
    by (auto simp: SetNonce_def Let_def case_prod_beta)
  ultimately show ?thesis
    using assms by (simp add: bumped_def wf_db_def observation_def)
qed

lemma create_account_ok:
  assumes "wf_db s" "0 \<le> value" "value \<le> balance s a"
  shows "trans R L False s (Transfer a b value (SetNonce b 1 (CreateAccount b s)))"
proof -
  have 1: "trans R L False s (CreateAccount b s)" by (rule T_writers(1) [OF assms(1)])
  have 2: "trans R L False s (SetNonce b 1 (CreateAccount b s))"
    by (rule T_trans [OF assms(1) 1 T_writers(2) [OF T_wf [OF 1]]])
  have "balance (SetNonce b 1 (CreateAccount b s)) = balance (CreateAccount b s)"
    by (rule balance_upd [OF view_SetNonce]) (use T_wf [OF 1] in \<open>simp_all add: wf_db_def acct_balance\<close>)
  then have "value \<le> balance (SetNonce b 1 (CreateAccount b s)) a" using assms(3) by (simp add: balance_CreateAccount)
  then show ?thesis by (intro T_trans [OF assms(1) 2 T_transfer [OF T_wf [OF 2] assms(2)]]) simp_all
qed

lemma create_run:
  assumes pre: "call_pre L n evm code gas" and run: "runner_ok R L n runner" and g: "\<not> guarded evm"
    and v: "0 \<le> value" "value \<le> balance (evm_StateDB evm) (ref_Address caller)"
    and t: "t = Transfer (ref_Address caller) addr value
        (SetNonce addr 1 (CreateAccount addr (fst (Snapshot (evm_StateDB evm)))))"
    and c: "c = SetCallCode addr (db_Keccak256 (sdb_db (evm_StateDB evm)) code) code (NewContract caller addr value gas)"
  shows "evm_ok L (shared_jumpdests caller (evm\<lparr>evm_StateDB := t\<rparr>))"
    "evm_rel R L evm (shared_jumpdests caller (evm\<lparr>evm_StateDB := t\<rparr>))"
    "\<exists>evm' ret left err. obind (run runner (shared_jumpdests caller (evm\<lparr>evm_StateDB := t\<rparr>)) c [])
          (\<lambda>r. settle_create (snd (Snapshot (evm_StateDB evm))) addr (store_code addr r)) =
        Done (evm', ret, addr, left, err) \<and> evm_ok L evm' \<and> evm_rel R L evm evm' \<and> unat left \<le> unat gas \<and>
        (err \<noteq> None \<and> err \<noteq> Some ErrCodeStoreOutOfGas \<longrightarrow>
           observation (evm_StateDB evm') = observation (evm_StateDB evm))"
proof -
  have evm: "evm_ok L evm" using pre by (simp add: call_pre_def)
  note wf = evm_okD(1) [OF evm]
  note s1 = T_Snapshot [OF wf, of L False]
  have "balance (fst (Snapshot (evm_StateDB evm))) = balance (evm_StateDB evm)" by (rule balance_obs) simp
  then have st: "trans R L False (fst (Snapshot (evm_StateDB evm))) t"
    unfolding t using v by (intro create_account_ok [OF T_wf [OF s1]]) simp_all
  note t0 = T_trans [OF wf s1 st]
  obtain j where j: "shared_jumpdests caller (evm\<lparr>evm_StateDB := t\<rparr>) = evm\<lparr>evm_jumpdests := j, evm_StateDB := t\<rparr>"
      "jumpdests_ok L j"
    by (rule shared_jumpdests_form [OF evm_okD(3) [OF evm]])
  have e1: "evm_ok L (evm\<lparr>evm_jumpdests := j, evm_StateDB := t\<rparr>)"
    using evm T_wf [OF t0] T_accounts [OF t0] j(2) by (simp add: evm_ok_def)
  then show "evm_ok L (shared_jumpdests caller (evm\<lparr>evm_StateDB := t\<rparr>))" using j(1) by simp
  show "evm_rel R L evm (shared_jumpdests caller (evm\<lparr>evm_StateDB := t\<rparr>))"
    using j(1) t0 g by (simp add: evm_rel_def)
  have "contract_ok L c" "c_Gas c = gas"
    using pre v(1) evm_okD(2) [OF evm]
    by (simp_all add: c contract_ok_def SetCallCode_def NewContract_def call_pre_def accounts_ok_def)
  then obtain evm' c' ret err where r: "run runner (evm\<lparr>evm_jumpdests := j, evm_StateDB := t\<rparr>) c [] = Done (evm', c', ret, err)"
      "evm_ok L evm'" "evm_rel R L (evm\<lparr>evm_jumpdests := j, evm_StateDB := t\<rparr>) evm'" "unat (c_Gas c') \<le> unat gas"
    using run_ok [OF run e1, of c "[]"] pre by (auto simp: call_pre_def)
  have "\<not> guarded evm'" using g r(3) by (simp add: evm_rel_def guarded_def)
  from store_code_ok [OF r(2) this, of addr c' ret err]
  obtain evm2 c2 err2 where s2: "store_code addr (evm', c', ret, err) = (evm2, c2, ret, err2)" "evm_ok L evm2"
      "evm_rel R L evm' evm2" "unat (c_Gas c2) \<le> unat (c_Gas c')"
    by blast
  have "evm_rel R L (evm\<lparr>evm_jumpdests := j, evm_StateDB := t\<rparr>) evm2"
    by (rule evm_rel_trans [OF evm_okD(1) [OF e1] r(3) s2(3)])
  from settle_create_ok [OF evm this s2(2), of c2 gas addr ret err2] st g s2 r(1,4) j(1)
  show "\<exists>evm' ret left err. obind (run runner (shared_jumpdests caller (evm\<lparr>evm_StateDB := t\<rparr>)) c [])
          (\<lambda>r. settle_create (snd (Snapshot (evm_StateDB evm))) addr (store_code addr r)) =
        Done (evm', ret, addr, left, err) \<and> evm_ok L evm' \<and> evm_rel R L evm evm' \<and> unat left \<le> unat gas \<and>
        (err \<noteq> None \<and> err \<noteq> Some ErrCodeStoreOutOfGas \<longrightarrow>
           observation (evm_StateDB evm') = observation (evm_StateDB evm))"
    by auto
qed

lemma create_early:
  assumes "evm_ok L evm" "trans R L (guarded evm) (evm_StateDB evm) s" "unat left \<le> unat gas"
    "observation s = observation (evm_StateDB evm) \<or> bumped a (evm_StateDB evm) s"
  shows "create_ok R L a evm gas (Done (evm\<lparr>evm_StateDB := s\<rparr>, ret, addr, left, err))"
  using assms T_wf [OF assms(2)] T_accounts [OF assms(2)] by (simp add: create_ok_def evm_ok_def evm_rel_def)

lemma create_later:
  assumes evm: "evm_ok L evm" and s: "trans R L (guarded evm) (evm_StateDB evm) s" "bumped a (evm_StateDB evm) s"
    and r: "\<exists>evm' ret left err. r = Done (evm', ret, addr, left, err) \<and> evm_ok L evm' \<and>
        evm_rel R L (evm\<lparr>evm_StateDB := s\<rparr>) evm' \<and> unat left \<le> unat gas \<and>
        (err \<noteq> None \<and> err \<noteq> Some ErrCodeStoreOutOfGas \<longrightarrow> observation (evm_StateDB evm') = observation s)"
  shows "create_ok R L a evm gas r"
proof -
  have "evm_rel R L evm (evm\<lparr>evm_StateDB := s\<rparr>)" using s(1) by (simp add: evm_rel_def)
  then have "evm_rel R L (evm\<lparr>evm_StateDB := s\<rparr>) evm' \<Longrightarrow> evm_rel R L evm evm'" for evm'
    using evm_rel_trans [OF evm_okD(1) [OF evm]] by blast
  moreover have "observation s' = observation s \<Longrightarrow> bumped a (evm_StateDB evm) s'" for s'
    using s(2) by (simp add: bumped_def observation_def)
  ultimately show ?thesis using r unfolding create_ok_def by blast
qed

lemma Create_ok:
  assumes pre: "call_pre L n evm code gas" and run: "runner_ok R L n runner" and g: "\<not> guarded evm"
    and v: "0 \<le> value"
  shows "create_ok R L (ref_Address caller) evm gas (Create runner caller code gas value evm)"
proof -
  have evm: "evm_ok L evm" using pre by (simp add: call_pre_def)
  note wf = evm_okD(1) [OF evm]
  let ?a = "ref_Address caller" and ?db = "evm_StateDB evm"
  let ?s0 = "fst (CanTransfer ?db ?a value)" and ?can = "snd (CanTransfer ?db ?a value)"
  let ?s1 = "fst (GetNonce ?a ?s0)" and ?n = "snd (GetNonce ?a ?s0)"
  let ?s2 = "SetNonce ?a (?n + 1) ?s1"
  let ?c = "CreateAddress (evm_keccak evm) ?a ?n"
  let ?s3 = "fst (GetCodeHash ?c ?s2)"
  let ?s4 = "fst (GetNonce ?c ?s3)"
  have t0: "trans R L False ?db ?s0" by (rule T_readers(7) [OF wf])
  have t1: "trans R L False ?db ?s1" by (rule T_readers_from(1) [OF wf t0])
  have t2: "trans R L False ?db ?s2" by (rule T_trans [OF wf t1 T_writers(2) [OF T_wf [OF t1]]])
  have t4: "trans R L False ?db ?s4" by (rule T_readers_from(1) [OF wf T_readers_from(2) [OF wf t2]])
  have o1: "observation ?s1 = observation ?db" by simp
  have "?n = v_nonce (acct ?db ?a)"
    using view_obs [OF observation_reader_states(5), of ?db ?a "value"]
    by (simp add: reader_values acct_def split: option.splits)
  then have b: "bumped ?a ?db ?s4" by (intro bumped_nonce [OF wf o1 T_wf [OF t1]]) simp_all
  let ?evm = "evm\<lparr>evm_StateDB := ?s4\<rparr>"
  have pre4: "call_pre L n ?evm code gas" "\<not> guarded ?evm"
    using pre g T_wf [OF t4] T_accounts [OF t4] by (simp_all add: call_pre_def evm_ok_def)
  have bal: "balance ?s4 = balance ?db"
    using b by (auto simp: bumped_def balance_view fun_eq_iff acct_def split: option.splits)
  have db: "evm_keccak evm = db_Keccak256 (sdb_db ?s4)"
    using extends_db [OF T_extends [OF t4]] by (simp add: evm_keccak_def)
  let ?s6 = "Transfer ?a ?c value (SetNonce ?c 1 (CreateAccount ?c (fst (Snapshot ?s4))))"
  let ?k = "SetCallCode ?c (evm_keccak evm code) code (NewContract caller ?c value gas)"
  let ?evm1 = "shared_jumpdests caller (evm\<lparr>evm_StateDB := ?s6\<rparr>)"
  have ran: "evm_ok L ?evm1" "evm_rel R L ?evm ?evm1"
    "\<exists>evm' ret left err. obind (run runner ?evm1 ?k [])
        (\<lambda>r. settle_create (snd (Snapshot ?s4)) ?c (store_code ?c r)) = Done (evm', ret, ?c, left, err) \<and>
      evm_ok L evm' \<and> evm_rel R L ?evm evm' \<and> unat left \<le> unat gas \<and>
      (err \<noteq> None \<and> err \<noteq> Some ErrCodeStoreOutOfGas \<longrightarrow> observation (evm_StateDB evm') = observation ?s4)" if ?can
    using create_run [OF pre4(1) run pre4(2) v, of caller ?s6 ?c ?k] that bal db by (simp_all add: CanTransfer_value)
  have t4': "trans R L (guarded evm) ?db ?s4" using t4 g by simp
  have "create_ok R L ?a evm gas (Done (?evm1, [], ?c, gas, None))" if ?can
    using create_later [OF evm t4' b, of "Done (?evm1, [], ?c, gas, None)" ?c gas] ran(1,2) [OF that] by blast
  moreover have "create_ok R L ?a evm gas (obind (run runner ?evm1 ?k [])
      (\<lambda>r. settle_create (snd (Snapshot ?s4)) ?c (store_code ?c r)))" if ?can
    by (rule create_later [OF evm t4' b ran(3) [OF that]])
  moreover have "create_ok R L ?a evm gas (Done (?evm, [], 0, 0, err))" for err
    by (rule create_early [OF evm t4' _ disjI2 [OF b]]) simp
  moreover have "create_ok R L ?a evm gas (Done (evm\<lparr>evm_StateDB := ?s0\<rparr>, [], 0, gas, err))" for err
    by (rule create_early [OF evm]) (use t0 g in simp_all)
  moreover have "create_ok R L ?a evm gas (Done (evm, [], 0, gas, err))" for err
    using create_early [OF evm T_refl [OF wf]] by simp
  ultimately show ?thesis unfolding Create_def Let_def case_prod_beta by simp
qed

end

end
