(* ===== verification/EVM_Safety.thy ===== *)
theory EVM_Safety
  imports EVM_CallSafety
begin

text \<open>
  Whole executions: the calling instructions, the complete instruction tables and the interpreter's
  loop, by induction on the fuel, for any \<open>execution_relation\<close>. The main theorems instantiate it with
  write protection and with conservation of money.

  Fuel: an instruction that lets the run go on costs at least one unit of gas, and a call gives its
  callee less gas than the caller had before paying for it. So a run needs no more turns, nested ones
  included, than it has gas, and fuel above the gas is never used up.
\<close>

subsection \<open>The price of a call\<close>

lemma rememberCallGas_Inr:
  assumes "rememberCallGas cost (f, r) = (f', Inr c)"
  shows "\<exists>g. r = Inr g \<and> unat c = unat g + unat (evm_callGasTemp (f_evm f'))"
proof -
  obtain g where g: "r = Inr g" using assms by (cases r) (auto simp: rememberCallGas_def)
  then obtain temp where t: "callGas (evm_gasTable (f_evm f)) (c_Gas (f_contract f)) g cost = Inr temp"
    using assms by (cases "callGas (evm_gasTable (f_evm f)) (c_Gas (f_contract f)) g cost")
      (auto simp: rememberCallGas_def)
  then have "charge temp (Inr g) = Inr c" "evm_callGasTemp (f_evm f') = temp"
    using assms g by (auto simp: rememberCallGas_def)
  then show ?thesis using g charge_Inr by fastforce
qed

lemma rememberCallGas_frame:
  "\<exists>temp r'. rememberCallGas cost (f, r) = (f\<lparr>f_evm := (f_evm f)\<lparr>evm_callGasTemp := temp\<rparr>\<rparr>, r') \<and>
     (\<forall>c. r' = Inr c \<longrightarrow> (\<exists>g. r = Inr g \<and> unat g \<le> unat c))"
proof (cases r)
  case (Inl e)
  then show ?thesis
    by (intro exI [of _ "evm_callGasTemp (f_evm f)"] exI [of _ "Inl e"]) (simp add: rememberCallGas_def)
next
  case (Inr g)
  then show ?thesis
    by (cases "callGas (evm_gasTable (f_evm f)) (c_Gas (f_contract f)) g cost")
      (auto simp: rememberCallGas_def dest!: charge_Inr)
qed

lemma call_costs:
  assumes "evm_gasTable (f_evm f) = GasTableEIP158"
  shows "gasCall f ms = Done (f', Inr c) \<Longrightarrow> 3 \<le> length (f_stack f) \<Longrightarrow>
      700 + unat (evm_callGasTemp (f_evm f')) + (if f_stack f ! 2 \<noteq> 0 then 9000 else 0) \<le> unat c"
    "gasCallCode f ms = Done (f', Inr c) \<Longrightarrow> 3 \<le> length (f_stack f) \<Longrightarrow>
      700 + unat (evm_callGasTemp (f_evm f')) + (if f_stack f ! 2 \<noteq> 0 then 9000 else 0) \<le> unat c"
    "gasDelegateCall f ms = Done (f', Inr c) \<Longrightarrow> 700 + unat (evm_callGasTemp (f_evm f')) \<le> unat c"
    "gasStaticCall f ms = Done (f', Inr c) \<Longrightarrow> 700 + unat (evm_callGasTemp (f_evm f')) \<le> unat c"
  using assms
  by (auto simp: gasCall_def gasCallCode_def gasDelegateCall_def gasStaticCall_def numeral_3_eq_3 stack_forms
      Let_def case_prod_beta GasTableEIP158_def CallNewAccountGas_def CallValueTransferGas_def
      split: list.splits if_splits sum.splits dest!: rememberCallGas_Inr charge_Inr)

definition called ::
  "(bool \<Rightarrow> StateDB \<Rightarrow> StateDB \<Rightarrow> bool) \<Rightarrow> (Hash \<Rightarrow> nat) \<Rightarrow> Frame \<Rightarrow> nat \<Rightarrow> nat \<Rightarrow> (Frame \<times> bytes \<times> vm_error option) outcome \<Rightarrow> bool" where
  "called R L f gas len r \<longleftrightarrow>
     (\<exists>f' res. r = Done (f', res, None) \<and> frame_ok L f' \<and> frame_rel R L f f' \<and>
        unat (c_Gas (f_contract f')) \<le> gas \<and> length (f_stack f') = Suc len)"

context execution_relation
begin

lemma gas_ok_call:
  assumes "\<And>f ms. frame_ok L f \<Longrightarrow> p \<le> length (f_stack f) \<Longrightarrow>
     \<exists>s' cost h. g f ms = (let (f1, r) = memoryFee (set_sdb s' f) ms in Done (rememberCallGas cost (f1, h r))) \<and>
       trans R L (guarded (f_evm f)) (f_sdb f) s' \<and>
       (\<forall>r c. h r = Inr c \<longrightarrow> 700 \<le> unat c \<and> (\<exists>d. r = Inr d))"
  shows "gas_ok R L g p 700 True w"
  unfolding gas_ok_def
proof (intro allI impI, elim conjE)
  fix f ms assume f: "frame_ok L f" "p \<le> length (f_stack f)"
  obtain s' cost h where g: "g f ms = (let (f1, r) = memoryFee (set_sdb s' f) ms in Done (rememberCallGas cost (f1, h r)))"
      "trans R L (guarded (f_evm f)) (f_sdb f) s'" "\<forall>r c. h r = Inr c \<longrightarrow> 700 \<le> unat c \<and> (\<exists>d. r = Inr d)"
    using assms [OF f] by blast
  obtain m r where m: "memoryFee (set_sdb s' f) ms = ((set_sdb s' f)\<lparr>f_mem := m\<rparr>, r)"
      "mem_store m = mem_store (f_mem f)" "\<And>c. r = Inr c \<Longrightarrow> unat ms \<le> 0xffffffffe0"
    using memoryFee_spec [of "set_sdb s' f" ms] by (auto simp: set_sdb_def)
  let ?f = "(set_sdb s' f)\<lparr>f_mem := m\<rparr>"
  obtain temp r' where t: "rememberCallGas cost (?f, h r) = (?f\<lparr>f_evm := (f_evm ?f)\<lparr>evm_callGasTemp := temp\<rparr>\<rparr>, r')"
      "\<forall>c. r' = Inr c \<longrightarrow> (\<exists>g. h r = Inr g \<and> unat g \<le> unat c)"
    using rememberCallGas_frame [of cost ?f "h r"] by blast
  have le: "700 \<le> unat c \<and> unat ms \<le> 0xffffffffe0" if "r' = Inr c" for c
  proof -
    obtain x where x: "h r = Inr x" "unat x \<le> unat c" using t(2) \<open>r' = Inr c\<close> by blast
    then obtain d where "r = Inr d" "700 \<le> unat x" using g(3) by blast
    then show ?thesis using x(2) m(3) by simp
  qed
  have "g f ms = Done (?f\<lparr>f_evm := (f_evm ?f)\<lparr>evm_callGasTemp := temp\<rparr>\<rparr>, r')" using g(1) m(1) t(1) by simp
  then show "\<exists>f' r. g f ms = Done (f', r) \<and> frame_ok L f' \<and> frame_rel R L f f' \<and>
      f_contract f' = f_contract f \<and> f_stack f' = f_stack f \<and> f_pc f' = f_pc f \<and>
      mem_store (f_mem f') = mem_store (f_mem f) \<and>
      (\<forall>c. r = Inr c \<longrightarrow> 700 \<le> unat c \<and> (True \<longrightarrow> unat ms \<le> 0xffffffffe0))"
    using f(1) g(2) m(2) le T_wf [OF g(2)] T_accounts [OF g(2) frame_okD(6) [OF f(1)]]
    by (intro exI conjI) (assumption, simp_all add: set_sdb_def frame_rel_def frame_ok_def evm_ok_def evm_rel_def Memory_Len_def)
qed

lemma call_price: "frame_ok L f \<Longrightarrow> gt_Calls (evm_gasTable (f_evm f)) = 700"
  using frame_okD(9) [of L f] by (simp add: GasTableEIP158_def)

lemma gas_Call: "gas_ok R L gasCall 7 700 True w"
proof (rule gas_ok_call)
  fix f :: Frame and ms :: uint64 assume f: "frame_ok L f" "7 \<le> length (f_stack f)"
  then obtain x a v st where st: "f_stack f = x # a # v # st" by (auto simp: numeral_eq_Suc stack_forms)
  let ?e = "if v \<noteq> 0 then Empty (BigToAddress a) (f_sdb f) else (f_sdb f, False)"
  let ?g = "(if v \<noteq> 0 then (if snd ?e then 700 + CallNewAccountGas else 700) + CallValueTransferGas
      else if snd ?e then 700 + CallNewAccountGas else 700)"
  let ?h = "\<lambda>r. case r of Inl e \<Rightarrow> Inl e | Inr mg \<Rightarrow> charge mg (Inr ?g)"
  have "gasCall f ms = (let (f1, r) = memoryFee (set_sdb (fst ?e) f) ms in Done (rememberCallGas x (f1, ?h r)))"
    using call_price [OF f(1)] by (simp add: gasCall_def st Let_def case_prod_beta)
  moreover have "trans R L (guarded (f_evm f)) (f_sdb f) (fst ?e)"
    using T_refl [OF frame_okD(5) [OF f(1)]] T_readers(6) [OF frame_okD(5) [OF f(1)]] by simp
  moreover have "700 \<le> unat ?g" by (simp add: CallNewAccountGas_def CallValueTransferGas_def)
  then have "\<forall>r c. ?h r = Inr c \<longrightarrow> 700 \<le> unat c \<and> (\<exists>d. r = Inr d)"
    by (auto split: sum.splits dest!: charge_Inr)
  ultimately show "\<exists>s' cost h. gasCall f ms = (let (f1, r) = memoryFee (set_sdb s' f) ms in
      Done (rememberCallGas cost (f1, h r))) \<and> trans R L (guarded (f_evm f)) (f_sdb f) s' \<and>
      (\<forall>r c. h r = Inr c \<longrightarrow> 700 \<le> unat c \<and> (\<exists>d. r = Inr d))"
    by blast
qed

lemma gas_CallCode: "gas_ok R L gasCallCode 7 700 True w"
proof (rule gas_ok_call)
  fix f :: Frame and ms :: uint64 assume f: "frame_ok L f" "7 \<le> length (f_stack f)"
  then obtain x a v st where st: "f_stack f = x # a # v # st" by (auto simp: numeral_eq_Suc stack_forms)
  let ?h = "\<lambda>r. case r of Inl e \<Rightarrow> Inl e | Inr mg \<Rightarrow> charge mg (Inr (if v \<noteq> 0 then 700 + CallValueTransferGas else 700))"
  have "gasCallCode f ms = (let (f1, r) = memoryFee (set_sdb (f_sdb f) f) ms in Done (rememberCallGas x (f1, ?h r)))"
    using call_price [OF f(1)] by (simp add: gasCallCode_def st Let_def case_prod_beta)
  moreover have "\<forall>r c. ?h r = Inr c \<longrightarrow> 700 \<le> unat c \<and> (\<exists>d. r = Inr d)"
    by (auto simp: CallValueTransferGas_def split: sum.splits if_splits dest!: charge_Inr)
  ultimately show "\<exists>s' cost h. gasCallCode f ms = (let (f1, r) = memoryFee (set_sdb s' f) ms in
      Done (rememberCallGas cost (f1, h r))) \<and> trans R L (guarded (f_evm f)) (f_sdb f) s' \<and>
      (\<forall>r c. h r = Inr c \<longrightarrow> 700 \<le> unat c \<and> (\<exists>d. r = Inr d))"
    using T_refl [OF frame_okD(5) [OF f(1)]] by blast
qed

lemma gas_ok_delegated:
  assumes g: "\<And>f ms x st. frame_ok L f \<Longrightarrow> f_stack f = x # st \<Longrightarrow>
      g f ms = (let (f1, r) = memoryFee f ms in Done (rememberCallGas x (f1, charge 700 r)))"
  shows "gas_ok R L g 6 700 True w"
proof (rule gas_ok_call)
  fix f :: Frame and ms :: uint64 assume f: "frame_ok L f" "6 \<le> length (f_stack f)"
  then obtain x st where st: "f_stack f = x # st" by (auto simp: numeral_eq_Suc stack_forms)
  have "g f ms = (let (f1, r) = memoryFee (set_sdb (f_sdb f) f) ms in Done (rememberCallGas x (f1, charge 700 r)))"
    using g [OF f(1) st, of ms] by simp
  moreover have "\<forall>r c. charge 700 r = Inr c \<longrightarrow> 700 \<le> unat c \<and> (\<exists>d. r = Inr d)" by (auto dest!: charge_Inr)
  ultimately show "\<exists>s' cost h. g f ms = (let (f1, r) = memoryFee (set_sdb s' f) ms in
      Done (rememberCallGas cost (f1, h r))) \<and> trans R L (guarded (f_evm f)) (f_sdb f) s' \<and>
      (\<forall>r c. h r = Inr c \<longrightarrow> 700 \<le> unat c \<and> (\<exists>d. r = Inr d))"
    using T_refl [OF frame_okD(5) [OF f(1)]] by blast
qed

lemma gas_delegated: "gas_ok R L gasDelegateCall 6 700 True w" "gas_ok R L gasStaticCall 6 700 True w"
  by (rule gas_ok_delegated, simp add: gasDelegateCall_def gasStaticCall_def call_price)+

subsection \<open>The calling instructions\<close>

lemma calledI:
  assumes f: "frame_ok L f" and e: "evm_ok L evm'" "evm_rel R L (f_evm f) evm'" and m: "Memory_Len m = Memory_Len (f_mem f)"
    and gas: "unat g \<le> gas" "gas < 2 ^ 61" and st: "nonneg (x # st)"
  shows "called R L f gas (length st) (Done (with_gas g (with_stack (x # st) (f\<lparr>f_evm := evm', f_mem := m\<rparr>)), res, None))"
  using assms by (simp add: called_def with_gas_def with_stack_def frame_ok_def frame_rel_def contract_ok_def)

lemma after_call_ok:
  assumes f: "frame_ok L f" and c: "call_ok R L (f_evm f) gas r"
    and gas: "unat (c_Gas (f_contract f)) + unat gas < 2 ^ 61" and st: "nonneg st"
    and mem: "0 \<le> off" "0 \<le> sz" "calcMemSize off sz \<le> int (Memory_Len (f_mem f))"
  shows "called R L f (unat (c_Gas (f_contract f)) + unat gas) (length st) (obind r (after_call off sz st f))"
proof -
  obtain evm' ret left err where r: "r = Done (evm', ret, left, err)" "evm_ok L evm'" "evm_rel R L (f_evm f) evm'"
      "unat left \<le> unat gas"
    using c by (auto simp: call_ok_def)
  obtain m where m: "Memory_Set (bigUint64_value off) (bigUint64_value sz) ret (f_mem f) = Done m"
      "Memory_Len m = Memory_Len (f_mem f)"
    using Memory_Set_bounded [OF mem frame_okD(4) [OF f]] by blast
  have "unat (c_Gas (f_contract f) + left) = unat (c_Gas (f_contract f)) + unat left"
    using gas r(4) by (subst unat_word_ariths) simp
  then have "called R L f (unat (c_Gas (f_contract f)) + unat gas) (length st)
     (Done (with_gas (c_Gas (f_contract f) + left)
        (with_stack ((if err \<noteq> None then 0 else 1) # st) (f\<lparr>f_evm := evm', f_mem := m'\<rparr>)), ret, None))"
    if "Memory_Len m' = Memory_Len (f_mem f)" for m'
    using r gas st by (intro calledI [OF f r(2,3) that]) auto
  from this [OF m(2)] this [of "f_mem f"] show ?thesis using m by (auto simp: r(1) after_call_def)
qed

lemma call_op_spec:
  assumes v: "op_validateStack oper = makeStackFunc p 1"
    and g: "gas_ok R L (op_gasCost oper) p 700 True (op_writes oper)"
    and m: "op_memorySize oper = Some ms" "mem_ok ms p"
    and e: "\<And>f sz f1 cost f2 runner n.
      op_gasCost oper f sz = Done (f1, Inr cost) \<Longrightarrow> 700 \<le> unat cost \<Longrightarrow> frame_ok L f \<Longrightarrow> frame_ok L f2 \<Longrightarrow>
      p \<le> length (f_stack f) \<Longrightarrow> f_stack f2 = f_stack f \<Longrightarrow> f_evm f2 = f_evm f1 \<Longrightarrow> mem_covered (Some ms) f2 \<Longrightarrow>
      runner_ok R L n runner \<Longrightarrow> unat (c_Gas (f_contract f2)) + unat cost \<le> n \<Longrightarrow>
      unat (c_Gas (f_contract f2)) + unat cost < 2 ^ 61 \<Longrightarrow> guarded (f_evm f2) = guarded (f_evm f) \<Longrightarrow>
      enforceRestrictions (f_evm f) b oper (f_stack f) = None \<Longrightarrow>
      called R L f2 (unat (c_Gas (f_contract f2)) + unat cost - 1) (length (f_stack f) - p) (op_execute oper runner f2)"
  shows "op_spec R L b oper"
  unfolding op_spec_def
proof (rule exI [of _ p], rule exI [of _ 1], intro conjI allI impI, rule v, elim conjE)
  fix f runner n
  assume f: "frame_ok L f" "p \<le> length (f_stack f)" and lim: "length (f_stack f) + 1 \<le> StackLimit + p"
    and run: "runner_ok R L n runner" and gas: "unat (c_Gas (f_contract f)) \<le> n"
    and enf: "enforceRestrictions (f_evm f) b oper (f_stack f) = None"
  have w: "op_writes oper \<longrightarrow> \<not> guarded (f_evm f)" using enforce_guard(1) [OF enf] .
  have "\<forall>ms. op_memorySize oper = Some ms \<longrightarrow> mem_ok ms p \<and> True" using m by simp
  from perform_prepared [OF f this g w, of runner]
  show "\<exists>x. perform runner oper f = Done x \<and> step_result R L f x"
  proof (elim disjE exE conjE)
    fix sz f1 f2 c
    assume c: "op_gasCost oper f sz = Done (f1, Inr c)" "700 \<le> unat c"
        "unat (c_Gas (f_contract f2)) + unat c = unat (c_Gas (f_contract f))"
      and perf: "perform runner oper f = obind (op_execute oper runner f2) (advance oper)"
      and f2: "frame_ok L f2" "frame_rel R L f f2" "mem_covered (op_memorySize oper) f2"
        "f_stack f2 = f_stack f" "f_evm f2 = f_evm f1"
    have "unat (c_Gas (f_contract f)) < 2 ^ 61" using f(1) by (simp add: frame_ok_def contract_ok_def)
    then have "called R L f2 (unat (c_Gas (f_contract f)) - 1) (length (f_stack f) - p) (op_execute oper runner f2)"
      using e [OF c(1,2) f(1) f2(1) f(2) f2(4,5) _ run _ _ _ enf] c(3) gas f2(3) m(1) frame_rel_fields(1) [OF f2(2)]
      by simp
    then obtain f3 res where f3: "op_execute oper runner f2 = Done (f3, res, None)" "frame_ok L f3"
        "frame_rel R L f2 f3" "unat (c_Gas (f_contract f3)) \<le> unat (c_Gas (f_contract f)) - 1"
        "length (f_stack f3) = Suc (length (f_stack f) - p)"
      by (auto simp: called_def)
    have "\<exists>x. advance oper (f3, res, None) = Done x \<and> step_result R L f x"
      by (rule advance_ok [OF f3(2) frame_rel_trans [OF f(1) f2(2) f3(3)]]) (use f3 c lim f in auto)
    then show ?thesis using perf f3(1) by simp
  qed blast
qed

lemma called_mono: "called R L f g len r \<Longrightarrow> g \<le> g' \<Longrightarrow> called R L f g' len r"
  by (auto simp: called_def)

lemma U256_nonneg: "0 \<le> U256 v" and U256_0: "U256 0 = 0"
  by (simp_all add: U256_def tt256m1_def tt256_def)

lemma call_gas_bound:
  assumes "700 + unat temp + (if v \<noteq> 0 then 9000 else 0) \<le> unat cost" "unat cost < 2 ^ 61"
  shows "unat (temp + (if U256 v \<noteq> 0 then CallStipend else 0)) < unat (cost :: uint64)"
proof -
  define x :: uint64 where "x = (if U256 v \<noteq> 0 then CallStipend else 0)"
  have "unat x \<le> (if v \<noteq> 0 then 2300 else 0)" by (simp add: x_def CallStipend_def U256_0)
  then have lt: "unat temp + unat x < unat cost" using assms(1) by (simp split: if_splits)
  then have "unat temp + unat x < 2 ^ 64" using assms(2) by simp
  then have "unat (temp + x) = unat temp + unat x" by (subst unat_word_ariths) simp
  then show ?thesis using lt by (simp add: x_def)
qed

lemma spec_value_call:
  assumes op: "oper = (operation_of ex g (makeStackFunc 7 1))\<lparr>op_memorySize := Some memoryCall, op_returns := True\<rparr>"
    and g: "gas_ok R L g 7 700 True False"
    and cost: "\<And>f ms f' c. evm_gasTable (f_evm f) = GasTableEIP158 \<Longrightarrow> g f ms = Done (f', Inr c) \<Longrightarrow>
      3 \<le> length (f_stack f) \<Longrightarrow>
      700 + unat (evm_callGasTemp (f_evm f')) + (if f_stack f ! 2 \<noteq> 0 then 9000 else 0) \<le> unat c"
    and ex: "\<And>runner f x a v io is ro rs st. f_stack f = x # a # v # io # is # ro # rs # st \<Longrightarrow>
      ex runner f = obind (Memory_Get (bigInt64_value io) (bigInt64_value is) (f_mem f))
        (\<lambda>args. obind (invoke runner f a args
           (evm_callGasTemp (f_evm f) + (if U256 v \<noteq> 0 then CallStipend else 0)) (U256 v)) (after_call ro rs st f))"
    and ok: "\<And>runner n f a v args gas. runner_ok R L n runner \<Longrightarrow> call_pre L n (f_evm f) args gas \<Longrightarrow>
      (b = CALL \<Longrightarrow> guarded (f_evm f) \<Longrightarrow> v = 0) \<Longrightarrow> call_ok R L (f_evm f) gas (invoke runner f a args gas (U256 v))"
  shows "op_spec R L b oper"
proof (rule call_op_spec [where p = 7 and ms = memoryCall])
  fix f sz f1 c f2 runner n
  assume c: "op_gasCost oper f sz = Done (f1, Inr c)" and f: "frame_ok L f" "frame_ok L f2" "7 \<le> length (f_stack f)"
    and f2: "f_stack f2 = f_stack f" "f_evm f2 = f_evm f1" "mem_covered (Some memoryCall) f2"
    and run: "runner_ok R L n runner" and n: "unat (c_Gas (f_contract f2)) + unat c \<le> n"
      "unat (c_Gas (f_contract f2)) + unat c < 2 ^ 61"
    and gd: "guarded (f_evm f2) = guarded (f_evm f)" "enforceRestrictions (f_evm f) b oper (f_stack f) = None"
  obtain x a v io il ro rs st where st: "f_stack f = x # a # v # io # il # ro # rs # st"
    using f(3) by (auto simp: numeral_eq_Suc stack_forms)
  have nn: "0 \<le> io" "0 \<le> il" "0 \<le> ro" "0 \<le> rs" "nonneg st" using frame_okD(3) [OF f(1)] st by simp_all
  have mem: "calcMemSize io il \<le> int (Memory_Len (f_mem f2))" "calcMemSize ro rs \<le> int (Memory_Len (f_mem f2))"
    using f2(3) st by (auto simp: mem_covered_def f2(1) BigMax_def split: if_splits)
  obtain args where args: "Memory_Get (bigInt64_value io) (bigInt64_value il) (f_mem f2) = Done args" "length args \<le> 2 ^ 40"
    using Memory_Get_bounded [OF nn(1,2) mem(1) frame_okD(4) [OF f(2)]] by blast
  let ?gas = "evm_callGasTemp (f_evm f2) + (if U256 v \<noteq> 0 then CallStipend else 0)"
  have "700 + unat (evm_callGasTemp (f_evm f2)) + (if v \<noteq> 0 then 9000 else 0) \<le> unat c"
    using cost [OF frame_okD(9) [OF f(1)], of sz f1 c] c st by (simp add: op operation_of_def f2(2))
  from call_gas_bound [OF this] have lt: "unat ?gas < unat c" using n(2) by linarith
  have "call_pre L n (f_evm f2) args ?gas"
    using frame_okD(1) [OF f(2)] args(2) lt n by (simp add: call_pre_def)
  moreover have "b = CALL \<Longrightarrow> guarded (f_evm f2) \<Longrightarrow> v = 0"
    using enforce_guard(2) [of "f_evm f" oper "f_stack f"] gd st by simp
  ultimately have "call_ok R L (f_evm f2) ?gas (invoke runner f2 a args ?gas (U256 v))" by (rule ok [OF run])
  moreover have "unat (c_Gas (f_contract f2)) + unat ?gas < 2 ^ 61" using n(2) lt by linarith
  ultimately have "called R L f2 (unat (c_Gas (f_contract f2)) + unat ?gas) (length st) (ex runner f2)"
    using after_call_ok [OF f(2) _ _ nn(5,3,4) mem(2)] args(1) ex [of f2 x a v io il ro rs st runner] st f2(1) by simp
  moreover have "unat (c_Gas (f_contract f2)) + unat ?gas \<le> unat (c_Gas (f_contract f2)) + unat c - 1" using lt by linarith
  ultimately show "called R L f2 (unat (c_Gas (f_contract f2)) + unat c - 1) (length (f_stack f) - 7) (op_execute oper runner f2)"
    using called_mono st by (simp add: op operation_of_def)
qed (use g in \<open>simp_all add: op operation_of_def mem_ok_table\<close>)

lemma spec_Call:
  "op_spec R L 0xf1 ((operation_of opCall gasCall (makeStackFunc 7 1))\<lparr>op_memorySize := Some memoryCall, op_returns := True\<rparr>)"
proof (rule spec_value_call [OF refl gas_Call, where invoke = "\<lambda>runner f a args gas v.
      Call runner (ContractCaller (f_contract f)) (BigToAddress a) args gas v (f_evm f)"])
  fix runner n f a args gas and v :: int
  assume "runner_ok R L n runner" "call_pre L n (f_evm f) args gas" "0xf1 = CALL \<Longrightarrow> guarded (f_evm f) \<Longrightarrow> v = 0"
  then show "call_ok R L (f_evm f) gas
      (Call runner (ContractCaller (f_contract f)) (BigToAddress a) args gas (U256 v) (f_evm f))"
    by (intro Call_ok) (auto simp: U256_nonneg U256_0 CALL_def)
qed (use call_costs(1) in \<open>auto simp: opCall_def Let_def\<close>)

lemma spec_CallCode:
  "op_spec R L 0xf2 ((operation_of opCallCode gasCallCode (makeStackFunc 7 1))\<lparr>op_memorySize := Some memoryCall, op_returns := True\<rparr>)"
  by (rule spec_value_call [OF refl gas_CallCode, where invoke = "\<lambda>runner f a args gas v.
      CallCode runner (ContractCaller (f_contract f)) (BigToAddress a) args gas v (f_evm f)"])
    (use call_costs(2) in \<open>auto simp: opCallCode_def Let_def U256_nonneg intro: CallCode_ok\<close>)

lemma spec_plain_call:
  assumes op: "oper = (operation_of ex g (makeStackFunc 6 1))\<lparr>op_memorySize := Some ms, op_returns := True\<rparr>"
    and g: "gas_ok R L g 6 700 True False" and ms: "mem_ok ms 6"
    and msf: "\<And>x a io is ro rs st. ms (x # a # io # is # ro # rs # st) =
      Done (BigMax (calcMemSize ro rs) (calcMemSize io is))"
    and cost: "\<And>f ms f' c. evm_gasTable (f_evm f) = GasTableEIP158 \<Longrightarrow> g f ms = Done (f', Inr c) \<Longrightarrow>
      700 + unat (evm_callGasTemp (f_evm f')) \<le> unat c"
    and ex: "\<And>runner f x a io is ro rs st. f_stack f = x # a # io # is # ro # rs # st \<Longrightarrow>
      ex runner f = obind (Memory_Get (bigInt64_value io) (bigInt64_value is) (f_mem f))
        (\<lambda>args. obind (invoke runner f a args (evm_callGasTemp (f_evm f))) (after_call ro rs st f))"
    and ok: "\<And>runner n f a args gas. frame_ok L f \<Longrightarrow> runner_ok R L n runner \<Longrightarrow> call_pre L n (f_evm f) args gas \<Longrightarrow>
      call_ok R L (f_evm f) gas (invoke runner f a args gas)"
  shows "op_spec R L b oper"
proof (rule call_op_spec [where p = 6 and ms = ms])
  fix f sz f1 c f2 runner n
  assume c: "op_gasCost oper f sz = Done (f1, Inr c)" and f: "frame_ok L f" "frame_ok L f2" "6 \<le> length (f_stack f)"
    and f2: "f_stack f2 = f_stack f" "f_evm f2 = f_evm f1" "mem_covered (Some ms) f2"
    and run: "runner_ok R L n runner" and n: "unat (c_Gas (f_contract f2)) + unat c \<le> n"
      "unat (c_Gas (f_contract f2)) + unat c < 2 ^ 61"
  obtain x a io il ro rs st where st: "f_stack f = x # a # io # il # ro # rs # st"
    using f(3) by (auto simp: numeral_eq_Suc stack_forms)
  have nn: "0 \<le> io" "0 \<le> il" "0 \<le> ro" "0 \<le> rs" "nonneg st" using frame_okD(3) [OF f(1)] st by simp_all
  have mem: "calcMemSize io il \<le> int (Memory_Len (f_mem f2))" "calcMemSize ro rs \<le> int (Memory_Len (f_mem f2))"
    using f2(3) st by (auto simp: mem_covered_def f2(1) msf BigMax_def split: if_splits)
  obtain args where args: "Memory_Get (bigInt64_value io) (bigInt64_value il) (f_mem f2) = Done args" "length args \<le> 2 ^ 40"
    using Memory_Get_bounded [OF nn(1,2) mem(1) frame_okD(4) [OF f(2)]] by blast
  let ?gas = "evm_callGasTemp (f_evm f2)"
  have le: "700 + unat ?gas \<le> unat c"
    using cost [OF frame_okD(9) [OF f(1)], of sz f1 c] c by (simp add: op operation_of_def f2(2))
  have "call_pre L n (f_evm f2) args ?gas"
    using frame_okD(1) [OF f(2)] args(2) le n by (simp add: call_pre_def)
  from ok [OF f(2) run this] have "call_ok R L (f_evm f2) ?gas (invoke runner f2 a args ?gas)" .
  moreover have "unat (c_Gas (f_contract f2)) + unat ?gas < 2 ^ 61" using n(2) le by linarith
  ultimately have "called R L f2 (unat (c_Gas (f_contract f2)) + unat ?gas) (length st) (ex runner f2)"
    using after_call_ok [OF f(2) _ _ nn(5,3,4) mem(2)] args(1) ex [of f2 x a io il ro rs st runner] st f2(1) by simp
  moreover have "unat (c_Gas (f_contract f2)) + unat ?gas \<le> unat (c_Gas (f_contract f2)) + unat c - 1" using le by linarith
  ultimately show "called R L f2 (unat (c_Gas (f_contract f2)) + unat c - 1) (length (f_stack f) - 6) (op_execute oper runner f2)"
    using called_mono st by (simp add: op operation_of_def)
qed (use g ms in \<open>simp_all add: op operation_of_def\<close>)

lemma spec_DelegateCall:
  "op_spec R L b ((operation_of opDelegateCall gasDelegateCall (makeStackFunc 6 1))
     \<lparr>op_memorySize := Some memoryDelegateCall, op_returns := True\<rparr>)"
  by (rule spec_plain_call [OF refl gas_delegated(1), where invoke = "\<lambda>runner f a args gas.
      DelegateCall runner (ContractCaller (f_contract f)) (BigToAddress a) args gas (f_evm f)"])
    (use call_costs(3) in \<open>auto simp: opDelegateCall_def mem_ok_table intro: DelegateCall_ok frame_okD(11)\<close>)

lemma spec_StaticCall:
  "op_spec R L b ((operation_of opStaticCall gasStaticCall (makeStackFunc 6 1))
     \<lparr>op_memorySize := Some memoryStaticCall, op_returns := True\<rparr>)"
  by (rule spec_plain_call [OF refl gas_delegated(2), where invoke = "\<lambda>runner f a args gas.
      StaticCall runner (ContractCaller (f_contract f)) (BigToAddress a) args gas (f_evm f)"])
    (use call_costs(4) in \<open>auto simp: opStaticCall_def mem_ok_table intro: StaticCall_ok\<close>)

lemma created:
  assumes f: "frame_ok L f" and c: "create_ok R L a (f_evm f) (c_Gas (f_contract f) - k) r"
    and k: "unat k \<le> unat (c_Gas (f_contract f))" and st: "nonneg st"
  shows "called R L f (unat (c_Gas (f_contract f))) (length st)
    (obind r (\<lambda>(evm, res, addr, returnGas, suberr).
       Done (with_gas (k + returnGas)
               (with_stack ((if suberr \<noteq> None then 0 else Address_Big addr) # st) (f\<lparr>f_evm := evm\<rparr>)),
             if suberr = Some errExecutionReverted then res else [], None)))"
proof -
  obtain evm' ret addr left err where r: "r = Done (evm', ret, addr, left, err)" "evm_ok L evm'"
      "evm_rel R L (f_evm f) evm'" "unat left \<le> unat (c_Gas (f_contract f) - k)"
    using c by (auto simp: create_ok_def)
  have g: "unat (c_Gas (f_contract f)) < 2 ^ 61" using f by (simp add: frame_ok_def contract_ok_def)
  have le: "unat k + unat left \<le> unat (c_Gas (f_contract f))" using r(4) unat_gas_left [OF k] by linarith
  then have "unat (k + left) = unat k + unat left" using g by (subst unat_word_ariths) simp
  then have "called R L f (unat (c_Gas (f_contract f))) (length st)
      (Done (with_gas (k + left) (with_stack ((if err \<noteq> None then 0 else Address_Big addr) # st)
         (f\<lparr>f_evm := evm', f_mem := f_mem f\<rparr>)), if err = Some errExecutionReverted then ret else [], None))"
    using le g st by (intro calledI [OF f r(2,3) refl]) auto
  then show ?thesis by (simp add: r(1))
qed

lemma gas_ok_weaken: "gas_ok R L g p k m w \<Longrightarrow> k' \<le> k \<Longrightarrow> gas_ok R L g p k' m w"
  unfolding gas_ok_def by (meson order_trans)

lemma spec_Create:
  "op_spec R L b ((operation_of opCreate gasCreate (makeStackFunc 3 1))
     \<lparr>op_memorySize := Some memoryCreate, op_writes := True, op_returns := True\<rparr>)"
  (is "op_spec R L b ?oper")
proof (rule call_op_spec [where p = 3 and ms = memoryCreate])
  show "gas_ok R L (op_gasCost ?oper) 3 700 True (op_writes ?oper)"
    using gas_ok_weaken [OF gas_Create] by (simp add: operation_of_def)
  fix f sz f1 c f2 runner n
  assume c: "700 \<le> unat c" and f: "frame_ok L f" "frame_ok L f2" "3 \<le> length (f_stack f)"
    and f2: "f_stack f2 = f_stack f" "mem_covered (Some memoryCreate) f2"
    and run: "runner_ok R L n runner" and n: "unat (c_Gas (f_contract f2)) + unat c \<le> n"
    and gd: "guarded (f_evm f2) = guarded (f_evm f)" "enforceRestrictions (f_evm f) b ?oper (f_stack f) = None"
  obtain v off len st where st: "f_stack f = v # off # len # st"
    using f(3) by (auto simp: numeral_eq_Suc stack_forms)
  have nn: "0 \<le> v" "0 \<le> off" "0 \<le> len" "nonneg st" using frame_okD(3) [OF f(1)] st by simp_all
  have mem: "calcMemSize off len \<le> int (Memory_Len (f_mem f2))"
    using f2 st by (auto simp: mem_covered_def)
  obtain code where code: "Memory_Get (bigInt64_value off) (bigInt64_value len) (f_mem f2) = Done code" "length code \<le> 2 ^ 40"
    using Memory_Get_bounded [OF nn(2,3) mem frame_okD(4) [OF f(2)]] by blast
  let ?g = "c_Gas (f_contract f2)"
  have k: "unat (?g div 64) \<le> unat ?g" by (simp add: unat_div_distrib)
  then have gas: "unat (?g - ?g div 64) \<le> unat ?g" using unat_gas_left [OF k] by linarith
  let ?c = "(f_contract f2)\<lparr>c_Gas := ?g div 64\<rparr>"
  have use: "fst (UseGas (?g - ?g div 64) (f_contract f2)) = ?c" using gas by (simp add: UseGas_spec)
  have g61: "unat ?g < 2 ^ 61" using f(2) by (simp add: frame_ok_def contract_ok_def)
  have "unat (?g - ?g div 64) < n" "unat (?g - ?g div 64) < 2 ^ 61" using gas g61 c n by linarith+
  then have "call_pre L n (f_evm f2) code (?g - ?g div 64)"
    using frame_okD(1) [OF f(2)] code(2) by (simp add: call_pre_def)
  moreover have "\<not> guarded (f_evm f2)" using enforce_guard(1) [OF gd(2)] gd(1) by (simp add: operation_of_def)
  ultimately have "create_ok R L (c_self (f_contract f2)) (f_evm f2) (?g - ?g div 64)
      (Create runner (ContractCaller ?c) code (?g - ?g div 64) v (f_evm f2))"
    using Create_ok [OF _ run _ nn(1), of "f_evm f2" code "?g - ?g div 64" "ContractCaller ?c"] by simp
  from called_mono [OF created [OF f(2) this k nn(4)], of "unat ?g + unat c - 1"] c
  have "called R L f2 (unat ?g + unat c - 1) (length st) (opCreate runner f2)"
    using code(1) st f2(1) use by (simp add: opCreate_def Let_def)
  then show "called R L f2 (unat ?g + unat c - 1) (length (f_stack f) - 3) (op_execute ?oper runner f2)"
    using st by (simp add: operation_of_def)
qed (simp_all add: operation_of_def mem_ok_table)

subsection \<open>The instruction tables\<close>

lemma spec_Return:
  "op_spec R L b ((operation_of (plain opReturn) gasReturn (makeStackFunc 2 0))
     \<lparr>op_memorySize := Some memoryReturn, op_halts := True\<rparr>)"
  by (rule plain_op_spec [where least = 0 and mm = True and ex = opReturn and p = 2 and q = 0])
    (simp_all add: operation_of_def gas_memory_only exec_return mem_ok_table)

lemma spec_Suicide:
  "op_spec R L b ((operation_of (plain opSuicide) gasSuicide (makeStackFunc 1 0))\<lparr>op_halts := True, op_writes := True\<rparr>)"
  by (rule plain_op_spec [where least = 5000 and mm = False and ex = opSuicide and p = 1 and q = 0])
    (simp_all add: operation_of_def gas_Suicide exec_Suicide del: One_nat_def)

lemma spec_Revert:
  "op_spec R L b ((operation_of (plain opRevert) gasRevert (makeStackFunc 2 0))
     \<lparr>op_memorySize := Some memoryRevert, op_reverts := True, op_returns := True\<rparr>)"
  by (rule plain_op_spec [where least = 0 and mm = True and ex = opRevert and p = 2 and q = 0])
    (simp_all add: operation_of_def gas_memory_only exec_return mem_ok_table)

lemma table_system_ok: "list_all (\<lambda>(b, oper). op_spec R L b oper) table_system"
  unfolding table_system_def
  by (simp add: spec_Create spec_Call spec_CallCode spec_Return spec_Suicide del: One_nat_def)

lemma frontier_ok: "list_all (\<lambda>(b, oper). op_spec R L b oper) NewFrontierInstructionSet"
  unfolding NewFrontierInstructionSet_def list_all_append
  by (intro conjI table_arithmetic_ok table_comparison_ok table_environment_ok table_storage_flow_ok table_push_ok
      table_dup_ok table_swap_ok table_log_ok table_system_ok)

lemma byzantium_ok: "list_all (\<lambda>(b, oper). op_spec R L b oper) NewByzantiumInstructionSet"
  unfolding NewByzantiumInstructionSet_def NewHomesteadInstructionSet_def
  by (simp add: frontier_ok spec_DelegateCall spec_StaticCall spec_Revert gas_constants mem_ok_table exec_nullary
      spec_const(1) [OF _ exec_nullary(7)] spec_memory [OF gas_copies(2) _ exec_ReturnDataCopy] del: One_nat_def)

lemma instructionSet_ok: "instructionSet evm b = Some oper \<Longrightarrow> op_spec R L b oper"
  using frontier_ok [of L] byzantium_ok [of L] unfolding instructionSet_def list_all_iff
  by (cases "evm_IsByzantium evm") (fastforce dest!: map_of_SomeD)+

subsection \<open>The loop\<close>

lemma makeStackFunc_None:
  "makeStackFunc p q st = None \<Longrightarrow> p \<le> length st \<and> length st + q \<le> StackLimit + p"
  by (auto simp: makeStackFunc_def require_def split: option.splits if_splits)

lemma step_ok:
  assumes f: "frame_ok L f" and run: "runner_ok R L n runner" "unat (c_Gas (f_contract f)) \<le> n"
  shows "\<exists>x. step runner f = Done x \<and> step_result R L f x"
proof -
  have l: "\<exists>x. leave f [] e = Done x \<and> step_result R L f x" for e
    by (rule leave_ok [OF f frame_rel_refl [OF f]]) simp
  let ?b = "GetOp (f_contract f) (f_pc f)"
  have "\<exists>x. perform runner oper f = Done x \<and> step_result R L f x"
    if o: "instructionSet (f_evm f) ?b = Some oper" "op_validateStack oper (f_stack f) = None"
      "enforceRestrictions (f_evm f) ?b oper (f_stack f) = None" for oper
  proof -
    obtain p q where pq: "op_validateStack oper = makeStackFunc p q"
        "\<forall>f runner n. frame_ok L f \<and> p \<le> length (f_stack f) \<and> length (f_stack f) + q \<le> StackLimit + p \<and>
           in_code ?b f \<and> runner_ok R L n runner \<and> unat (c_Gas (f_contract f)) \<le> n \<and>
           enforceRestrictions (f_evm f) ?b oper (f_stack f) = None \<longrightarrow>
           (\<exists>x. perform runner oper f = Done x \<and> step_result R L f x)"
      using instructionSet_ok [OF o(1)] unfolding op_spec_def by blast
    have "in_code ?b f" by (simp add: in_code_def GetOp_def GetByte_def)
    then show ?thesis using pq(2) makeStackFunc_None [of p q "f_stack f"] f run o(2,3) pq(1) by metis
  qed
  then show ?thesis using l by (auto simp: step_def Let_def split: option.split)
qed

definition loop_ok :: "(Hash \<Rightarrow> nat) \<Rightarrow> nat \<Rightarrow> bool" where
  "loop_ok L n \<longleftrightarrow>
     (\<forall>f. frame_ok L f \<and> unat (c_Gas (f_contract f)) < n \<longrightarrow>
        (\<exists>evm c ret err. loop n f = Done (evm, c, ret, err) \<and> evm_ok L evm \<and> evm_rel R L (f_evm f) evm \<and>
           unat (c_Gas c) \<le> unat (c_Gas (f_contract f))))"

lemma Run_with_ok:
  assumes "loop_ok L n"
  shows "runner_ok R L n (Run_with (loop n))"
  unfolding runner_ok_def
proof (intro allI impI, elim conjE)
  fix evm c and input :: bytes
  assume evm: "evm_ok L evm" and c: "contract_ok L c" "unat (c_Gas c) < n"
  let ?evm = "evm\<lparr>evm_depth := evm_depth evm + 1, evm_returnData := []\<rparr>"
  let ?f = "initialFrame ?evm c input"
  have e1: "evm_ok L ?evm" using evm by (simp add: evm_ok_def)
  have dec: "evm_ok L (evm2\<lparr>evm_depth := evm_depth evm2 - 1\<rparr>) \<and> evm_rel R L evm (evm2\<lparr>evm_depth := evm_depth evm2 - 1\<rparr>)"
    if "evm_ok L evm2" "evm_rel R L ?evm evm2" for evm2
    using that by (simp add: evm_ok_def evm_rel_def guarded_def)
  show "\<exists>evm' c' ret err. Run_with (loop n) evm c input = Done (evm', c', ret, err) \<and> evm_ok L evm' \<and>
      evm_rel R L evm evm' \<and> unat (c_Gas c') \<le> unat (c_Gas c)"
  proof (cases "c_Code c = []")
    case True
    then show ?thesis using dec [OF e1 evm_rel_refl [OF evm_okD(1) [OF e1]]] by (simp add: Run_with_def)
  next
    case False
    have "frame_ok L ?f"
      using e1 c(1) by (simp add: initialFrame_def frame_ok_def contract_ok_def NewMemory_def Memory_Len_def)
    moreover have f: "c_Gas (f_contract ?f) = c_Gas c" "f_evm ?f = ?evm" by (simp_all add: initialFrame_def)
    ultimately obtain evm2 c2 ret err where "loop n ?f = Done (evm2, c2, ret, err)" "evm_ok L evm2"
        "evm_rel R L ?evm evm2" "unat (c_Gas c2) \<le> unat (c_Gas c)"
      using assms c(2) unfolding loop_ok_def by metis
    then show ?thesis using dec False by (simp add: Run_with_def Let_def)
  qed
qed

lemma loop_returns: "loop_ok L n"
proof (induction n)
  case (Suc n)
  note run = Run_with_ok [OF Suc.IH]
  show ?case
    unfolding loop_ok_def
  proof (intro allI impI, elim conjE)
    fix f assume f: "frame_ok L f" "unat (c_Gas (f_contract f)) < Suc n"
    obtain x where x: "step (Run_with (loop n)) f = Done x" "step_result R L f x"
      using step_ok [OF f(1) run] f(2) by auto
    show "\<exists>evm c ret err. loop (Suc n) f = Done (evm, c, ret, err) \<and> evm_ok L evm \<and> evm_rel R L (f_evm f) evm \<and>
        unat (c_Gas c) \<le> unat (c_Gas (f_contract f))"
    proof (cases x)
      case (Inl f')
      then have f': "frame_ok L f'" "frame_rel R L f f'" "unat (c_Gas (f_contract f')) < unat (c_Gas (f_contract f))"
        using x(2) by (simp_all add: step_result_def)
      moreover have "unat (c_Gas (f_contract f')) < n" using f'(3) f(2) by linarith
      ultimately obtain evm c ret err where "loop n f' = Done (evm, c, ret, err)" "evm_ok L evm"
          "evm_rel R L (f_evm f') evm" "unat (c_Gas c) \<le> unat (c_Gas (f_contract f'))"
        using Suc.IH unfolding loop_ok_def by blast
      then show ?thesis
        using x(1) Inl f'(2,3) evm_rel_trans [OF frame_okD(5) [OF f(1)], of L "f_evm f'" evm]
        by (auto simp: frame_rel_def)
    next
      case (Inr r)
      then show ?thesis using x by (cases r) (auto simp: step_result_def)
    qed
  qed
qed (simp add: loop_ok_def)

lemma Run_ok: "runner_ok R L n (Run n)"
  unfolding Run_def by (rule Run_with_ok [OF loop_returns])

end

end
