(* ===== verification/EVM_Fuel.thy ===== *)
theory EVM_Fuel
  imports EVM_Interpreter
begin

text \<open>
  Fuel is only a device: more of it never changes a result. An outcome is below another one when it
  ran out of fuel or is the same; every definition that takes the interpreter as an argument is
  monotone in it, and so the loop is monotone in its fuel.
\<close>

definition below :: "'a outcome \<Rightarrow> 'a outcome \<Rightarrow> bool" where
  "below x y \<longleftrightarrow> x = OutOfFuel \<or> x = y"

definition runner_below :: "runner \<Rightarrow> runner \<Rightarrow> bool" where
  "runner_below r r' \<longleftrightarrow> (\<forall>evm c input. below (r evm c input) (r' evm c input))"

named_theorems below_intros \<open>monotonicity in the interpreter\<close>

lemma below_refl [below_intros]: "below x x"
  by (simp add: below_def)

lemma below_OutOfFuel: "below OutOfFuel x"
  by (simp add: below_def)

lemma below_obind [below_intros]:
  "below m m' \<Longrightarrow> (\<And>x. below (f x) (f' x)) \<Longrightarrow> below (obind m f) (obind m' f')"
  unfolding below_def by (cases m) (auto, metis)

lemma below_if [below_intros]:
  "below x x' \<Longrightarrow> below y y' \<Longrightarrow> below (if b then x else y) (if b then x' else y')"
  by simp

lemma below_Done: "below x y \<Longrightarrow> x = Done z \<Longrightarrow> y = Done z"
  by (simp add: below_def)

lemma below_run [below_intros]: "runner_below r r' \<Longrightarrow> below (run r evm c input) (run r' evm c input)"
  by (auto simp: run_def runner_below_def below_refl split: option.split)

lemma below_calls [below_intros]:
  assumes "runner_below r r'"
  shows "below (Call r caller addr input gas v evm) (Call r' caller addr input gas v evm)"
    "below (CallCode r caller addr input gas v evm) (CallCode r' caller addr input gas v evm)"
    "below (DelegateCall r caller addr input gas evm) (DelegateCall r' caller addr input gas evm)"
    "below (StaticCall r caller addr input gas evm) (StaticCall r' caller addr input gas evm)"
    "below (Create r caller code gas v evm) (Create r' caller code gas v evm)"
  unfolding Call_def CallCode_def DelegateCall_def StaticCall_def Create_def Let_def case_prod_beta
  by (intro below_intros assms)+

definition op_monotone :: "operation \<Rightarrow> bool" where
  "op_monotone oper \<longleftrightarrow>
     (\<forall>r r' f. runner_below r r' \<longrightarrow> below (op_execute oper r f) (op_execute oper r' f))"

lemma op_monotone_plain:
  "op_execute oper = plain ex \<Longrightarrow> op_monotone oper"
  by (simp add: op_monotone_def plain_def below_refl)

lemma op_monotone_calls:
  assumes "op_execute oper \<in> {opCreate, opCall, opCallCode, opDelegateCall, opStaticCall}"
  shows "op_monotone oper"
proof -
  have "below (opCreate r f) (opCreate r' f)" "below (opCall r f) (opCall r' f)"
    "below (opCallCode r f) (opCallCode r' f)" "below (opDelegateCall r f) (opDelegateCall r' f)"
    "below (opStaticCall r f) (opStaticCall r' f)" if "runner_below r r'" for r r' f
    unfolding opCreate_def opCall_def opCallCode_def opDelegateCall_def opStaticCall_def Let_def
    by (auto split: list.split intro!: below_intros that)
  then show ?thesis using assms by (auto simp: op_monotone_def)
qed

lemma frontier_monotone: "list_all (\<lambda>(b, oper). op_monotone oper) NewFrontierInstructionSet"
  unfolding NewFrontierInstructionSet_def list_all_append
  by (simp add: table_arithmetic_def table_comparison_def table_environment_def table_storage_flow_def
      table_push_def table_dup_def table_swap_def table_log_def table_system_def list_all_iff operation_of_def
      op_monotone_plain op_monotone_calls)

lemma byzantium_monotone: "list_all (\<lambda>(b, oper). op_monotone oper) NewByzantiumInstructionSet"
  using frontier_monotone unfolding NewByzantiumInstructionSet_def NewHomesteadInstructionSet_def
  by (simp add: operation_of_def op_monotone_plain op_monotone_calls)

lemma below_step:
  assumes "runner_below r r'"
  shows "below (step r f) (step r' f)"
proof -
  have "op_monotone oper" if "instructionSet (f_evm f) b = Some oper" for b oper
    using that frontier_monotone byzantium_monotone unfolding instructionSet_def list_all_iff
    by (cases "evm_IsByzantium (f_evm f)") (fastforce dest!: map_of_SomeD)+
  then have "below (perform r oper f) (perform r' oper f)" if "instructionSet (f_evm f) b = Some oper" for b oper
    using that assms unfolding perform_def
    by (auto simp: op_monotone_def split: sum.split intro!: below_intros)
  then show ?thesis by (auto simp: step_def Let_def below_refl split: option.split)
qed

lemma below_Run_with:
  "(\<And>f. below (l f) (l' f)) \<Longrightarrow> runner_below (Run_with l) (Run_with l')"
  unfolding runner_below_def Run_with_def Let_def by (auto intro!: below_intros)

lemma loop_monotone: "n \<le> m \<Longrightarrow> below (loop n f) (loop m f)"
proof (induction n arbitrary: m f)
  case (Suc n)
  then obtain m' where m: "m = Suc m'" "n \<le> m'" by (cases m) auto
  have "below (step (Run_with (loop n)) f) (step (Run_with (loop m')) f)"
    by (rule below_step [OF below_Run_with [OF Suc.IH [OF m(2)]]])
  then show ?case
    using Suc.IH [OF m(2)] by (auto simp: m(1) split: sum.split intro!: below_obind below_refl)
qed (simp add: below_OutOfFuel)

lemma Run_monotone: "n \<le> m \<Longrightarrow> runner_below (Run n) (Run m)"
  unfolding Run_def by (intro below_Run_with loop_monotone)

end
