(* ===== verification/EVM_Samples.thy ===== *)
theory EVM_Samples
  imports EVM_Instructions
begin

text \<open>
  A small concrete world: one account with money, one contract, the machine that \<open>NewEVM\<close>
  builds for it and a frame. The witnesses of the virtual machine's theorems are evaluated on it.
\<close>

definition sampleNative :: NativeCrypto where
  "sampleNative =
     \<lparr>nv_Ecrecover = (\<lambda>_ _. None), nv_Sha256 = (\<lambda>_. replicate 32 0), nv_Ripemd160 = (\<lambda>_. replicate 20 0),
      nv_G1Unmarshal = (\<lambda>_. ((0, 0, 0, 0), False)),
      nv_G2Unmarshal = (\<lambda>_. (((0, 0), (0, 0), (0, 0), (0, 0)), False)), nv_G1Add = (\<lambda>p _. p),
      nv_G1ScalarMult = (\<lambda>p _. p), nv_G1Marshal = (\<lambda>_. replicate 64 0), nv_PairingCheck = (\<lambda>_ _. True)\<rparr>"

definition sampleContext :: Context where
  "sampleContext =
     \<lparr>ctx_GetHash = (\<lambda>_. 0), ctx_Origin = 1, ctx_GasPrice = 1, ctx_Coinbase = 9, ctx_GasLimit = 1000000,
      ctx_BlockNumber = 1, ctx_Time = 1, ctx_Difficulty = 1\<rparr>"

definition sampleConfig :: VMConfig where
  "sampleConfig =
     \<lparr>cfg_NoRecursion = False, cfg_DisableGasMetering = False, cfg_EnablePreimageRecording = False\<rparr>"

definition sampleCode :: bytes where
  \<comment> \<open>PUSH1 42, PUSH1 7, SSTORE\<close>
  "sampleCode = [0x60, 0x2a, 0x60, 0x07, 0x55]"

definition sampleWorld :: StateDB where
  "sampleWorld = SetCode 32 (Some sampleCode) (AddBalance 1 10 sampleState)"

definition sampleEVM :: EVM where
  "sampleEVM = NewEVM sampleContext sampleWorld True sampleConfig sampleNative"

definition sampleFrame :: "Stack \<Rightarrow> Frame" where
  "sampleFrame st =
     \<lparr>f_pc = 0, f_contract = SetCallCode 32 (of_nat 6) sampleCode (NewContract (AccountRef 1) 32 0 100000),
      f_mem = NewMemory, f_stack = st, f_evm = sampleEVM\<rparr>"

definition sampleLength :: "Hash \<Rightarrow> nat" where
  \<comment> \<open>the hash of the sample database is the length of its argument, plus one\<close>
  "sampleLength h = unat h - 1"

end
