(* ===== verification/EVM_Words.thy ===== *)
theory EVM_Words
  imports EVM_Samples "HOL-Library.Signed_Division"
begin

text \<open>
  The arithmetic instructions against 256-bit machine words. The source computes with unbounded
  integers, masks, shifts and hand-written sign handling; the reference is the word type of the
  library: modular arithmetic, signed division and remainder towards zero, signed comparison and
  sign extension.
\<close>

unbundle bit_operations_syntax

definition wresult :: "256 word \<Rightarrow> Stack \<Rightarrow> Frame \<Rightarrow> (Frame \<times> bytes \<times> vm_error option) outcome" where
  \<comment> \<open>the word is pushed and nothing else changes\<close>
  "wresult w st f = ok0 (with_stack (uint w # st) f)"

definition word_bool :: "bool \<Rightarrow> 256 word" where
  "word_bool b = (if b then 1 else 0)"

lemma uint_word_bool [simp]: "uint (word_bool b) = (if b then 1 else 0)"
  by (simp add: word_bool_def)

lemma uint_256: "0 \<le> uint (x :: 256 word)" "uint (x :: 256 word) < 2 ^ 256"
  using uint_lt2p [of x] by simp_all

lemma sdiv_int:
  "(if b = 0 \<or> a = 0 then 0 else if sgn a \<noteq> sgn b then - (\<bar>a\<bar> div \<bar>b\<bar>) else \<bar>a\<bar> div \<bar>b\<bar>) = a sdiv (b :: int)"
  by (auto simp: signed_divide_int_def sgn_if)

lemma smod_int: "b \<noteq> 0 \<Longrightarrow> (if a < 0 then - (\<bar>a\<bar> mod \<bar>b\<bar>) else \<bar>a\<bar> mod \<bar>b\<bar>) = a smod (b :: int)"
proof -
  assume "b \<noteq> 0"
  have "\<bar>a\<bar> mod \<bar>b\<bar> = \<bar>a\<bar> - \<bar>b\<bar> * (\<bar>a\<bar> div \<bar>b\<bar>)" by (simp add: minus_mult_div_eq_mod)
  then show ?thesis
    using \<open>b \<noteq> 0\<close> by (auto simp: signed_modulo_int_def signed_divide_int_def sgn_if)
qed

lemma sdiv_word: "sdiv_value (uint x) (uint y) = uint (word_of_int (sint x sdiv sint y) :: 256 word)"
  for x y :: "256 word"
proof -
  have "sdiv_value (uint x) (uint y) = U256 (sint x sdiv sint y)"
    unfolding sdiv_int [symmetric] by (simp add: sdiv_value_def Let_def S256_sint U256_uint)
  then show ?thesis by (simp only: U256_uint)
qed

lemma smod_word:
  "y \<noteq> 0 \<Longrightarrow> smod_value (uint x) (uint y) = uint (word_of_int (sint x smod sint y) :: 256 word)"
  for x y :: "256 word"
proof -
  assume "y \<noteq> 0"
  then have y: "sint y \<noteq> 0" by (simp add: signed_eq_0_iff)
  then have "smod_value (uint x) (uint y) = U256 (sint x smod sint y)"
    unfolding smod_int [OF y, symmetric] by (simp add: smod_value_def Let_def S256_sint)
  then show ?thesis by (simp only: U256_uint)
qed

lemma scompare_int:
  assumes "0 \<le> a" "a < 2 ^ 256" "0 \<le> b" "b < 2 ^ 256"
  shows "slt_value a b = (if S256 a < S256 b then 1 else 0)" "sgt_value a b = (if S256 b < S256 a then 1 else 0)"
  using assms by (auto simp: slt_value_def sgt_value_def S256_def tt255_def tt256_def)

lemma scompare_word:
  "slt_value (uint x) (uint y) = uint (word_bool (x <s y))" "sgt_value (uint x) (uint y) = uint (word_bool (y <s x))"
  for x y :: "256 word"
  using scompare_int [OF uint_256 uint_256, of x y] by (simp_all add: S256_sint word_sless_alt)

lemma signExtend_word:
  fixes k x :: "256 word"
  assumes "k < 31"
  shows "signExtend_value (uint k) (uint x) = uint (signed_take_bit (8 * unat k + 7) x)"
proof -
  have k: "unat k < 31" using assms by (simp add: word_less_nat_alt)
  let ?b = "8 * unat k + 7"
  have small: "unat (bigUint64_value i) = nat i" if "0 \<le> i" "i < 31" for i
    using that by (simp add: bigUint64_value_def unsigned_of_int take_bit_int_eq_self)
  have "uint k < 31" using assms by (simp add: word_less_def)
  then have u: "unat (bigUint64_value (uint k)) = unat k" using small [of "uint k"] by simp
  have b: "unat (bigUint64_value (uint k) * 8 + 7) = ?b"
    using k by (simp add: unat_word_ariths u)
  have "signExtend_value (uint k) (uint x) =
      U256 (if bit (uint x) ?b then uint x OR NOT (mask ?b) else uint x AND mask ?b)"
    by (simp add: signExtend_value_def b Let_def mask_eq_exp_minus_1 push_bit_eq_mult)
  also have "\<dots> = uint (if bit x ?b then x OR NOT (mask ?b) else x AND mask ?b)"
  proof -
    have "word_of_int (uint x OR NOT (mask ?b)) = x OR NOT (mask ?b)" "word_of_int (uint x AND mask ?b) = x AND mask ?b"
      by (simp_all add: of_int_or_eq of_int_and_eq of_int_not_eq of_int_mask_eq)
    moreover have "bit (uint x) ?b \<longleftrightarrow> bit x ?b" using k by (simp add: bit_uint_iff)
    ultimately show ?thesis by (simp add: U256_uint)
  qed
  also have "(if bit x ?b then x OR NOT (mask ?b) else x AND mask ?b) = signed_take_bit ?b x"
  proof -
    have "x OR NOT (mask ?b) = (x AND mask ?b) OR NOT (mask ?b)" by (rule bit_eqI) (auto simp: bit_simps)
    then show ?thesis by (simp add: signed_take_bit_def take_bit_eq_mask)
  qed
  finally show ?thesis .
qed

lemma byte_word:
  fixes i x :: "256 word"
  assumes "i < 32"
  shows "uint (Byte (uint x) 32 (nat (bigInt64_value (uint i)))) = uint (take_bit 8 (drop_bit (8 * (31 - unat i)) x))"
proof -
  have small: "bigInt64_value j = j" if "0 \<le> j" "j < 32" for j
    using that by (simp add: bigInt64_value_def signed_of_int signed_take_bit_int_eq_self)
  have "uint i < 32" using assms by (simp add: word_less_def)
  then have u: "nat (bigInt64_value (uint i)) = unat i" using small [of "uint i"] by simp
  have i: "unat i < 32" using assms by (simp add: word_less_nat_alt)
  have "unat (Byte (uint x) 32 (unat i)) = unat x div 256 ^ (31 - unat i) mod 256"
    using i by (simp add: Byte_eq unsigned_of_nat take_bit_eq_mod)
  also have "\<dots> = take_bit 8 (drop_bit (8 * (31 - unat i)) (unat x))"
    by (simp add: take_bit_eq_mod drop_bit_eq_div power_mult)
  also have "\<dots> = unat (take_bit 8 (drop_bit (8 * (31 - unat i)) x))"
    using unsigned_less [of x, where ?'a = nat] by (simp add: unsigned_take_bit_eq unsigned_drop_bit_eq take_bit_nat_eq_self)
  finally have "unat (Byte (uint x) 32 (unat i)) = unat (take_bit 8 (drop_bit (8 * (31 - unat i)) x))" .
  then have "int (unat (Byte (uint x) 32 (unat i))) = int (unat (take_bit 8 (drop_bit (8 * (31 - unat i)) x)))" by (rule arg_cong)
  then show ?thesis by (simp add: u)
qed

subsection \<open>The instructions\<close>

text \<open>
  C23. The arithmetic instructions compute on 256-bit machine words. On a stack of two words each
  of ADD, SUB, MUL, DIV, SDIV, MOD, SMOD, EXP, SIGNEXTEND, LT, GT, SLT, SGT, EQ, AND, OR, XOR and BYTE
  replaces them by the word that the reference operation gives: sums, differences, products and
  powers modulo \<open>2^256\<close>, division and remainder with 0 for a zero divisor, signed division and
  remainder towards zero, signed comparison, and sign extension from a byte position.
\<close>

theorem arithmetic_words:
  fixes x y :: "256 word"
  assumes st: "f_stack f = uint x # uint y # st"
  shows "opAdd f = wresult (x + y) st f \<and>
    opSub f = wresult (x - y) st f \<and>
    opMul f = wresult (x * y) st f \<and>
    opDiv f = wresult (if y = 0 then 0 else x div y) st f \<and>
    opMod f = wresult (if y = 0 then 0 else x mod y) st f \<and>
    opSdiv f = wresult (if y = 0 then 0 else word_of_int (sint x sdiv sint y)) st f \<and>
    opSmod f = wresult (if y = 0 then 0 else word_of_int (sint x smod sint y)) st f \<and>
    opExp f = wresult (x ^ unat y) st f \<and>
    opSignExtend f = wresult (if x < 31 then signed_take_bit (8 * unat x + 7) y else y) st f \<and>
    opLt f = wresult (word_bool (x < y)) st f \<and>
    opGt f = wresult (word_bool (y < x)) st f \<and>
    opSlt f = wresult (word_bool (x <s y)) st f \<and>
    opSgt f = wresult (word_bool (y <s x)) st f \<and>
    opEq f = wresult (word_bool (x = y)) st f \<and>
    opAnd f = wresult (x AND y) st f \<and>
    opOr f = wresult (x OR y) st f \<and>
    opXor f = wresult (x XOR y) st f \<and>
    opByte f = wresult (if x < 32 then take_bit 8 (drop_bit (8 * (31 - unat x)) y) else 0) st f"
proof (intro conjI)
  show "opAdd f = wresult (x + y) st f" "opSub f = wresult (x - y) st f" "opMul f = wresult (x * y) st f"
    by (simp_all add: opAdd_def opSub_def opMul_def wresult_def st U256_uint)
  show "opDiv f = wresult (if y = 0 then 0 else x div y) st f" "opMod f = wresult (if y = 0 then 0 else x mod y) st f"
    by (simp_all add: opDiv_def opMod_def wresult_def st U256_uint word_div_def word_mod_def unsigned_eq_0_iff)
  show "opSdiv f = wresult (if y = 0 then 0 else word_of_int (sint x sdiv sint y)) st f"
    "opSmod f = wresult (if y = 0 then 0 else word_of_int (sint x smod sint y)) st f"
    by (simp_all add: opSdiv_def opSmod_def wresult_def st sdiv_word smod_word)
      (simp add: smod_value_def S256_def tt255_def)
  show "opExp f = wresult (x ^ unat y) st f"
  proof -
    have "Exp (uint x) (uint y) = U256 (uint x ^ unat y)" by (simp add: Exp_eq U256_mod)
    then show ?thesis by (simp add: opExp_def wresult_def st U256_uint)
  qed
  show "opSignExtend f = wresult (if x < 31 then signed_take_bit (8 * unat x + 7) y else y) st f"
    by (simp add: opSignExtend_def wresult_def st signExtend_word word_less_def)
  show "opLt f = wresult (word_bool (x < y)) st f" "opGt f = wresult (word_bool (y < x)) st f"
    by (simp_all add: opLt_def opGt_def wresult_def st word_less_def)
  show "opSlt f = wresult (word_bool (x <s y)) st f" "opSgt f = wresult (word_bool (y <s x)) st f"
    "opEq f = wresult (word_bool (x = y)) st f"
    by (simp_all add: opSlt_def opSgt_def opEq_def wresult_def st scompare_word word_uint_eq_iff)
  show "opAnd f = wresult (x AND y) st f" "opOr f = wresult (x OR y) st f" "opXor f = wresult (x XOR y) st f"
    by (simp_all add: opAnd_def opOr_def opXor_def wresult_def st unsigned_and_eq unsigned_or_eq unsigned_xor_eq)
  show "opByte f = wresult (if x < 32 then take_bit 8 (drop_bit (8 * (31 - unat x)) y) else 0) st f"
    by (simp add: opByte_def wresult_def st byte_word word_less_def)
qed

theorem arithmetic_words_witness:
  "opSdiv (sampleFrame [uint (- 7 :: 256 word), uint (2 :: 256 word)]) =
     wresult (- 3) [] (sampleFrame [uint (- 7 :: 256 word), uint (2 :: 256 word)])"
  using arithmetic_words [of "sampleFrame [uint (- 7 :: 256 word), uint (2 :: 256 word)]" "- 7" 2 "[]"]
  by (simp add: signed_divide_int_def sampleFrame_def)

end
