(* ===== verification/EVM_Properties.thy ===== *)
theory EVM_Properties
  imports EVM_Safety EVM_Fuel EVM_Words
begin

text \<open>
  The main theorems about the virtual machine. They follow from the interpretations of
  \<open>execution_relation\<close> on write protection and on conservation of money, with the interpreter
  \<open>Run fuel\<close> in place of an arbitrary one.
\<close>

subsection \<open>The sample world\<close>

lemma outcome_DoneE:
  assumes "case r of Done x \<Rightarrow> P x | _ \<Rightarrow> False"
  obtains x where "r = Done x" "P x"
  using assms by (cases r) auto

lemma sampleWorld_extends: "extends sampleState sampleWorld"
proof -
  have 1: "extends sampleState (AddBalance 1 10 sampleState)" by (rule op_extends(2) [OF sampleState_wf])
  show ?thesis
    unfolding sampleWorld_def by (rule extends_trans [OF sampleState_wf 1 op_extends(5) [OF extends_wf [OF 1]]])
qed

lemma sampleState_accounts: "accounts_ok sampleLength sampleState"
proof -
  have "sampleLength (of_nat (Suc (length (c :: bytes)))) = length c" if "length c \<le> 2 ^ 40" for c
    using that by (simp add: sampleLength_def unsigned_of_nat take_bit_nat_eq_self del: of_nat_Suc)
  moreover have "view sampleState a = None" for a
    by (simp add: view_alt sampleState_def emptyTrie_def trie_view_def TryGet_def)
  ultimately show ?thesis by (simp add: accounts_ok_def sampleState_def sampleDatabase_def del: of_nat_Suc)
qed

lemma sampleWorld_accounts: "accounts_ok sampleLength sampleWorld"
proof -
  note wf = sampleState_wf and acc = sampleState_accounts
  have "accounts_ok sampleLength (AddBalance 1 10 sampleState)"
    using accounts_ok_balance [OF acc, of 1] by (intro accounts_ok_writers(4) [OF wf acc]) simp
  then show ?thesis
    unfolding sampleWorld_def
    by (intro accounts_ok_writers(10)) (simp_all add: extends_wf [OF op_extends(2) [OF wf]] sampleCode_def)
qed

lemma sampleEVM_ok: "evm_ok sampleLength sampleEVM" "\<not> guarded sampleEVM"
  using sampleWorld_accounts extends_wf [OF sampleWorld_extends]
  by (simp_all add: evm_ok_def guarded_def sampleEVM_def NewEVM_def jumpdests_ok_def sampleContext_def sampleConfig_def)


subsection \<open>Calls return\<close>

definition sane_call :: "(Hash \<Rightarrow> nat) \<Rightarrow> EVM \<Rightarrow> bytes \<Rightarrow> uint64 \<Rightarrow> int \<Rightarrow> bool" where
  \<comment> \<open>a well-formed machine, input and gas within the bounds under which sizes do not overflow, and no
     negative value; a write-protected machine transfers nothing\<close>
  "sane_call L evm input gas v \<longleftrightarrow>
     evm_ok L evm \<and> length input \<le> 2 ^ 40 \<and> unat gas < 2 ^ 61 \<and> 0 \<le> v \<and> (guarded evm \<longrightarrow> v = 0)"

lemma sane_pre: "sane_call L evm input gas v \<Longrightarrow> unat gas < fuel \<Longrightarrow> call_pre L fuel evm input gas"
  by (simp add: sane_call_def call_pre_def)

lemma sample_sane: "sane_call sampleLength sampleEVM [1, 2, 3] 50000 4" "sane_call sampleLength sampleEVM [1, 2, 3] 100 4"
    "sane_call sampleLength sampleEVM [0xfe] 100 11" "sane_call sampleLength sampleEVM [] 30 0"
  using sampleEVM_ok by (simp_all add: sane_call_def)

lemma message_calls_ok:
  assumes s: "sane_call L evm input gas v" and fuel: "unat gas < fuel"
    and r: "r \<in> {Call (Run fuel) caller addr input gas v evm, CallCode (Run fuel) caller addr input gas v evm,
              StaticCall (Run fuel) caller addr input gas evm} \<or>
            (\<exists>c. caller = ContractCaller c \<and> 0 \<le> c_value c \<and> r = DelegateCall (Run fuel) caller addr input gas evm)"
  shows "call_ok read_only L evm gas r"
proof -
  note pre = sane_pre [OF s fuel] and run = protected.Run_ok [of L fuel]
  have v: "0 \<le> v" "guarded evm \<Longrightarrow> v = 0" using s by (auto simp: sane_call_def)
  show ?thesis
    using r protected.Call_ok [OF pre run v] protected.CallCode_ok [OF pre run v(1)]
      protected.StaticCall_ok [OF pre run] protected.DelegateCall_ok [OF pre run] by blast
qed

text \<open>
  C2. Message calls return. On a well-formed machine, with input of at most \<open>2^40\<close> bytes and less than
  \<open>2^61\<close> gas, \<open>Call\<close>, \<open>CallCode\<close>, \<open>StaticCall\<close> and (from a contract) \<open>DelegateCall\<close> return whatever
  code is executed: no instruction panics, no nested call panics, and fuel above the gas is never used
  up. The gas returned is at most the gas given, and the machine is well-formed afterwards.
\<close>

theorem message_calls_return:
  assumes "sane_call L evm input gas v" "unat gas < fuel"
    and "r \<in> {Call (Run fuel) caller addr input gas v evm, CallCode (Run fuel) caller addr input gas v evm,
              StaticCall (Run fuel) caller addr input gas evm} \<or>
            (\<exists>c. caller = ContractCaller c \<and> 0 \<le> c_value c \<and> r = DelegateCall (Run fuel) caller addr input gas evm)"
  shows "\<exists>evm' ret left err. r = Done (evm', ret, left, err) \<and> unat left \<le> unat gas \<and> evm_ok L evm'"
  using message_calls_ok [OF assms] by (auto simp: call_ok_def)

theorem message_calls_return_witness:
  "\<exists>evm' ret left err. Call (Run 50001) (AccountRef 1) 32 [1, 2, 3] 50000 4 sampleEVM = Done (evm', ret, left, err) \<and>
     unat left \<le> 50000 \<and> evm_ok sampleLength evm'"
  using message_calls_return [OF sample_sane(1), of 50001 "Call (Run 50001) (AccountRef 1) 32 [1, 2, 3] 50000 4 sampleEVM"
      "AccountRef 1" 32]
  by simp

text \<open>
  C21. Contract creation returns, under the same conditions, on a machine that is not write protected.
\<close>

theorem Create_returns:
  assumes "sane_call L evm code gas v" "unat gas < fuel" "\<not> guarded evm"
  shows "\<exists>evm' ret addr left err. Create (Run fuel) caller code gas v evm = Done (evm', ret, addr, left, err) \<and>
           unat left \<le> unat gas \<and> evm_ok L evm'"
proof -
  have "0 \<le> v" using assms(1) by (simp add: sane_call_def)
  from protected.Create_ok [OF sane_pre [OF assms(1,2)] protected.Run_ok assms(3) this, of caller]
  show ?thesis by (auto simp: create_ok_def)
qed

theorem Create_returns_witness:
  "\<exists>evm' ret addr left err. Create (Run 50001) (AccountRef 1) [1, 2, 3] 50000 4 sampleEVM =
       Done (evm', ret, addr, left, err) \<and> unat left \<le> 50000 \<and> evm_ok sampleLength evm'"
  using Create_returns [OF sample_sane(1), of 50001 "AccountRef 1"] sampleEVM_ok(2) by simp



subsection \<open>What calls do to the state\<close>


lemma sample_out_of_gas:
  "\<exists>evm'. Call (Run 101) (AccountRef 1) 32 [1, 2, 3] 100 4 sampleEVM = Done (evm', [], 0, Some ErrOutOfGas)"
proof -
  have "case Call (Run 101) (AccountRef 1) 32 [1, 2, 3] 100 4 sampleEVM of
      Done (evm', ret, left, err) \<Rightarrow> ret = [] \<and> left = 0 \<and> err = Some ErrOutOfGas | _ \<Rightarrow> False"
    by code_simp
  then show ?thesis by (auto split: outcome.splits prod.splits)
qed


text \<open>
  C4. A static call changes nothing. Under the Byzantium rules, whatever code \<open>StaticCall\<close> runs and
  whether it succeeds or fails, the nonce, balance, code, storage and suicide flag of every account, the
  refund counter and the logs are unchanged (an absent account and an empty one count as the same).
\<close>

theorem StaticCall_read_only:
  assumes "sane_call L evm input gas 0" "unat gas < fuel" "evm_IsByzantium evm"
    and r: "StaticCall (Run fuel) caller addr input gas evm = Done (evm', ret, left, err)"
  shows "acct (evm_StateDB evm') = acct (evm_StateDB evm) \<and> sdb_refund (evm_StateDB evm') = sdb_refund (evm_StateDB evm) \<and>
         sdb_logs (evm_StateDB evm') = sdb_logs (evm_StateDB evm)"
  using protected.StaticCall_protects [OF sane_pre [OF assms(1,2)] protected.Run_ok r] assms(3)
  by (simp add: trans_def read_only_def)

lemma sample_write_protection:
  "\<exists>evm'. StaticCall (Run 31) (AccountRef 1) 32 [] 30 sampleEVM = Done (evm', [], 0, Some errWriteProtection)"
proof -
  have "case StaticCall (Run 31) (AccountRef 1) 32 [] 30 sampleEVM of
      Done (evm', ret, left, err) \<Rightarrow> ret = [] \<and> left = 0 \<and> err = Some errWriteProtection | _ \<Rightarrow> False"
    by code_simp
  then show ?thesis by (auto split: outcome.splits prod.splits)
qed

theorem StaticCall_read_only_witness:
  "\<exists>evm'. StaticCall (Run 31) (AccountRef 1) 32 [] 30 sampleEVM = Done (evm', [], 0, Some errWriteProtection) \<and>
     acct (evm_StateDB evm') = acct sampleWorld"
proof -
  obtain evm' where "StaticCall (Run 31) (AccountRef 1) 32 [] 30 sampleEVM = Done (evm', [], 0, Some errWriteProtection)"
    using sample_write_protection by blast
  then show ?thesis
    using StaticCall_read_only [OF sample_sane(4), of 31 "AccountRef 1" 32 evm' "[]" 0 "Some errWriteProtection"]
    by (simp add: sampleEVM_def NewEVM_def)
qed

text \<open>
  C9. The machine creates no money. After \<open>Call\<close> or \<open>Create\<close>, whatever is executed, no balance is
  negative, and over every large enough finite set of addresses the sum of the balances is at most what
  it was (a self-destructing contract that names itself as beneficiary destroys its money).
\<close>

theorem no_money_created:
  assumes s: "sane_call L evm input gas v" and fuel: "unat gas < fuel"
    and r: "Call (Run fuel) caller addr input gas v evm = Done (evm', ret, left, err) \<or>
            (\<not> guarded evm \<and> Create (Run fuel) caller input gas v evm = Done (evm', ret, addr', left, err))"
  shows "(\<forall>a. 0 \<le> balance (evm_StateDB evm') a) \<and>
    (\<exists>B. finite B \<and> (\<forall>C. finite C \<and> B \<subseteq> C \<longrightarrow> sum (balance (evm_StateDB evm')) C \<le> sum (balance (evm_StateDB evm)) C))"
proof -
  note pre = sane_pre [OF s fuel] and run = money.Run_ok [of L fuel]
  have v: "0 \<le> v" "guarded evm \<Longrightarrow> v = 0" using s by (auto simp: sane_call_def)
  have "evm_rel no_minting L evm evm'"
    using r money.Call_ok [OF pre run v, of caller addr] money.Create_ok [OF pre run _ v(1), of caller]
    by (auto simp: call_ok_def create_ok_def)
  then have "no_minting (guarded evm) (evm_StateDB evm) (evm_StateDB evm')"
    by (simp add: evm_rel_def trans_def)
  moreover have "\<forall>a. 0 \<le> balance (evm_StateDB evm) a"
    using s accounts_ok_balance by (auto simp: sane_call_def evm_ok_def)
  ultimately show ?thesis by (simp add: no_minting_def)
qed

lemma sample_payment:
  "\<exists>evm'. Call (Run 101) (AccountRef 1) 77 [1, 2, 3] 100 4 sampleEVM = Done (evm', [], 100, None) \<and>
     balance (evm_StateDB evm') 77 = 4 \<and> balance (evm_StateDB evm') 1 = 6"
proof -
  have "case Call (Run 101) (AccountRef 1) 77 [1, 2, 3] 100 4 sampleEVM of
      Done (evm', ret, left, err) \<Rightarrow> ret = [] \<and> left = 100 \<and> err = None \<and>
        snd (GetBalance 77 (evm_StateDB evm')) = 4 \<and> snd (GetBalance 1 (evm_StateDB evm')) = 6 | _ \<Rightarrow> False"
    by code_simp
  then show ?thesis by (auto simp: balance_def split: outcome.splits prod.splits)
qed

theorem no_money_created_witness:
  "\<exists>evm'. Call (Run 101) (AccountRef 1) 77 [1, 2, 3] 100 4 sampleEVM = Done (evm', [], 100, None) \<and>
     balance (evm_StateDB evm') 77 = 4 \<and> (\<forall>a. 0 \<le> balance (evm_StateDB evm') a)"
proof -
  obtain evm' where r: "Call (Run 101) (AccountRef 1) 77 [1, 2, 3] 100 4 sampleEVM = Done (evm', [], 100, None)"
      "balance (evm_StateDB evm') 77 = 4"
    using sample_payment by blast
  have "unat (100 :: uint64) < 101" by simp
  from no_money_created [OF sample_sane(2) this disjI1 [OF r(1)]] show ?thesis using r by blast
qed


lemma sample_poor_creator:
  "\<exists>evm' addr. Create (Run 101) (AccountRef 1) [0xfe] 100 11 sampleEVM = Done (evm', [], addr, 100, Some ErrInsufficientBalance)"
proof -
  have "case Create (Run 101) (AccountRef 1) [0xfe] 100 11 sampleEVM of
      Done x \<Rightarrow> (case x of (evm', ret, addr, left, err) \<Rightarrow> ret = [] \<and> left = 100 \<and> err = Some ErrInsufficientBalance) | _ \<Rightarrow> False"
    by code_simp
  then show ?thesis by (rule outcome_DoneE) auto
qed


text \<open>
  C13. Progress and preservation of the interpreter's loop. On a well-formed frame one turn of the loop
  returns: it ends the run with no more gas than before, or goes on with a well-formed frame whose stack
  is within the limit of 1024 words and which has strictly less gas.
\<close>

theorem step_progress:
  assumes "frame_ok L f" "unat (c_Gas (f_contract f)) \<le> fuel"
  shows "\<exists>x. step (Run fuel) f = Done x \<and>
    (case x of
       Inl f' \<Rightarrow> frame_ok L f' \<and> length (f_stack f') \<le> StackLimit \<and>
         unat (c_Gas (f_contract f')) < unat (c_Gas (f_contract f))
     | Inr (evm', c', ret, err) \<Rightarrow> evm_ok L evm' \<and> unat (c_Gas c') \<le> unat (c_Gas (f_contract f)))"
  using protected.step_ok [OF assms(1) protected.Run_ok assms(2)]
  by (auto simp: step_result_def split: sum.splits)

lemma sampleFrame_ok: "frame_ok sampleLength (sampleFrame [3, 4])"
  using sampleEVM_ok(1)
  by (simp add: frame_ok_def contract_ok_def sampleFrame_def SetCallCode_def NewContract_def sampleCode_def sampleLength_def
      NewMemory_def Memory_Len_def)

theorem step_progress_witness: "\<exists>x. step (Run 100000) (sampleFrame [3, 4]) = Done x"
  using step_progress [OF sampleFrame_ok, of 100000] by (auto simp: sampleFrame_def SetCallCode_def NewContract_def)

end
