(* ===== verification/Core_Transition.thy ===== *)
theory Core_Transition
  imports EVM_Properties
begin

text \<open>
  Applying one message to the state: the block gas pool (\<open>src/core/gaspool.go\<close>) and the state
  transition (\<open>src/core/state_transition.go\<close>), which buys gas, pays the intrinsic cost, runs the
  virtual machine, refunds the rest and pays the fee to the coinbase.

  \<open>st.state\<close> and \<open>evm.StateDB\<close> are the same object in the source; here it is the one of the machine.
\<close>

subsection \<open>Gas pool: gaspool.go\<close>

type_synonym GasPool = uint64

datatype core_error =
    ErrGasLimitReached
  | ErrNonceTooHigh
  | ErrNonceTooLow
  | errInsufficientBalanceForGas
  | VMError vm_error

definition AddGas :: "uint64 \<Rightarrow> GasPool \<Rightarrow> GasPool outcome" where
  "AddGas amount gp = (if gp > MaxUint64 - amount then Panic else Done (gp + amount))"

definition SubGas :: "uint64 \<Rightarrow> GasPool \<Rightarrow> core_error + GasPool" where
  "SubGas amount gp = (if gp < amount then Inl ErrGasLimitReached else Inr (gp - amount))"

subsection \<open>Messages and intrinsic gas: state_transition.go\<close>

record Message =
  msg_From :: Address
  msg_To :: "Address option"
  msg_GasPrice :: int
  msg_Gas :: uint64
  msg_Value :: int
  msg_Nonce :: uint64
  msg_CheckNonce :: bool
  msg_Data :: bytes

definition TxGas :: uint64 where "TxGas = 21000"
definition TxGasContractCreation :: uint64 where "TxGasContractCreation = 53000"
definition TxDataZeroGas :: uint64 where "TxDataZeroGas = 4"
definition TxDataNonZeroGas :: uint64 where "TxDataNonZeroGas = 68"

fun count_nonzero :: "bytes \<Rightarrow> uint64 \<Rightarrow> uint64" where
  "count_nonzero [] nz = nz"
| "count_nonzero (b # bs) nz = count_nonzero bs (if b \<noteq> 0 then nz + 1 else nz)"

definition IntrinsicGas :: "bytes \<Rightarrow> bool \<Rightarrow> vm_error + uint64" where
  "IntrinsicGas data contractCreation =
     (let gas = (if contractCreation then TxGasContractCreation else TxGas)
      in if data = [] then Inr gas
         else
           (let nz = count_nonzero data 0
            in if (MaxUint64 - gas) div TxDataNonZeroGas < nz then Inl ErrOutOfGas
               else
                 (let gas1 = gas + nz * TxDataNonZeroGas;
                      z = word_of_nat (length data) - nz
                  in if (MaxUint64 - gas1) div TxDataZeroGas < z then Inl ErrOutOfGas
                     else Inr (gas1 + z * TxDataZeroGas))))"

subsection \<open>State transition\<close>

record StateTransition =
  st_gp :: GasPool
  st_msg :: Message
  st_gas :: uint64
  st_gasPrice :: int
  st_initialGas :: uint64
  st_value :: int
  st_data :: bytes
  st_evm :: EVM

definition NewStateTransition :: "EVM \<Rightarrow> Message \<Rightarrow> GasPool \<Rightarrow> StateTransition" where
  "NewStateTransition evm msg gp =
     \<lparr>st_gp = gp, st_msg = msg, st_gas = 0, st_gasPrice = msg_GasPrice msg, st_initialGas = 0,
      st_value = msg_Value msg, st_data = msg_Data msg, st_evm = evm\<rparr>"

abbreviation st_state :: "StateTransition \<Rightarrow> StateDB" where
  "st_state st \<equiv> evm_StateDB (st_evm st)"

definition set_state :: "StateDB \<Rightarrow> StateTransition \<Rightarrow> StateTransition" where
  "set_state s st = st\<lparr>st_evm := (st_evm st)\<lparr>evm_StateDB := s\<rparr>\<rparr>"

definition to :: "StateTransition \<Rightarrow> Address" where
  "to st = (case msg_To (st_msg st) of None \<Rightarrow> 0 | Some a \<Rightarrow> a)"

definition useGas :: "uint64 \<Rightarrow> StateTransition \<Rightarrow> StateTransition \<times> core_error option" where
  "useGas amount st =
     (if st_gas st < amount then (st, Some (VMError ErrOutOfGas)) else (st\<lparr>st_gas := st_gas st - amount\<rparr>, None))"

definition buyGas :: "StateTransition \<Rightarrow> StateTransition \<times> core_error option" where
  "buyGas st =
     (let msg = st_msg st;
          mgval = uint (msg_Gas msg) * st_gasPrice st;
          (s1, bal) = GetBalance (msg_From msg) (st_state st);
          st1 = set_state s1 st
      in if bal < mgval then (st1, Some errInsufficientBalanceForGas)
         else
           (case SubGas (msg_Gas msg) (st_gp st1) of
              Inl err \<Rightarrow> (st1, Some err)
            | Inr gp \<Rightarrow>
                (set_state (SubBalance (msg_From msg) mgval s1)
                   (st1\<lparr>st_gp := gp, st_gas := st_gas st1 + msg_Gas msg, st_initialGas := msg_Gas msg\<rparr>), None)))"

definition preCheck :: "StateTransition \<Rightarrow> StateTransition \<times> core_error option" where
  "preCheck st =
     (let msg = st_msg st
      in if msg_CheckNonce msg
         then
           (let (s1, nonce) = GetNonce (msg_From msg) (st_state st);
                st1 = set_state s1 st
            in if nonce < msg_Nonce msg then (st1, Some ErrNonceTooHigh)
               else if nonce > msg_Nonce msg then (st1, Some ErrNonceTooLow)
               else buyGas st1)
         else buyGas st)"

definition gasUsed :: "StateTransition \<Rightarrow> uint64" where
  "gasUsed st = st_initialGas st - st_gas st"

definition refundGas :: "StateTransition \<Rightarrow> StateTransition outcome" where
  "refundGas st =
     (let half = gasUsed st div 2;
          refund = (if half > GetRefund (st_state st) then GetRefund (st_state st) else half);
          gas = st_gas st + refund;
          remaining = uint gas * st_gasPrice st
      in obind (AddGas gas (st_gp st))
           (\<lambda>gp. Done (set_state (AddBalance (msg_From (st_msg st)) remaining (st_state st))
                         (st\<lparr>st_gas := gas, st_gp := gp\<rparr>))))"

definition execute_message :: "runner \<Rightarrow> StateTransition \<Rightarrow> (StateTransition \<times> bytes \<times> vm_error option) outcome" where
  \<comment> \<open>create the contract or call the recipient, with the sender's nonce incremented\<close>
  "execute_message runner st =
     (let sender = msg_From (st_msg st)
      in if msg_To (st_msg st) = None
         then
           obind (Create runner (AccountRef sender) (st_data st) (st_gas st) (st_value st) (st_evm st))
             (\<lambda>(evm, ret, _, gas, vmerr). Done (st\<lparr>st_gas := gas, st_evm := evm\<rparr>, ret, vmerr))
         else
           (let (s1, nonce) = GetNonce sender (st_state st);
                st1 = set_state (SetNonce sender (nonce + 1) s1) st
            in obind (Call runner (AccountRef sender) (to st1) (st_data st1) (st_gas st1) (st_value st1) (st_evm st1))
                 (\<lambda>(evm, ret, gas, vmerr). Done (st1\<lparr>st_gas := gas, st_evm := evm\<rparr>, ret, vmerr))))"

definition pay_fees :: "StateTransition \<Rightarrow> StateTransition outcome" where
  "pay_fees st =
     obind (refundGas st)
       (\<lambda>st1. Done (set_state (AddBalance (ctx_Coinbase (evm_Context (st_evm st1)))
                                (uint (gasUsed st1) * st_gasPrice st1) (st_state st1)) st1))"

type_synonym transition_result = "StateTransition \<times> bytes \<times> uint64 \<times> bool \<times> core_error option"

definition TransitionDb :: "runner \<Rightarrow> StateTransition \<Rightarrow> transition_result outcome" where
  "TransitionDb runner st =
     (let (st1, err) = preCheck st
      in if err \<noteq> None then Done (st1, [], 0, False, err)
         else
           (case IntrinsicGas (st_data st1) (msg_To (st_msg st1) = None) of
              Inl e \<Rightarrow> Done (st1, [], 0, False, Some (VMError e))
            | Inr gas \<Rightarrow>
                (let (st2, err2) = useGas gas st1
                 in if err2 \<noteq> None then Done (st2, [], 0, False, err2)
                    else
                      obind (execute_message runner st2)
                        (\<lambda>(st3, ret, vmerr).
                           if vmerr = Some ErrInsufficientBalance
                           then Done (st3, [], 0, False, Some (VMError ErrInsufficientBalance))
                           else obind (pay_fees st3) (\<lambda>st4. Done (st4, ret, gasUsed st4, vmerr \<noteq> None, None))))))"

definition ApplyMessage :: "runner \<Rightarrow> EVM \<Rightarrow> Message \<Rightarrow> GasPool \<Rightarrow> transition_result outcome" where
  "ApplyMessage runner evm msg gp = TransitionDb runner (NewStateTransition evm msg gp)"

subsection \<open>Intrinsic gas is exact\<close>

definition zeros :: "bytes \<Rightarrow> nat" where
  "zeros data = length (filter (\<lambda>b. b = 0) data)"

definition nonzeros :: "bytes \<Rightarrow> nat" where
  "nonzeros data = length (filter (\<lambda>b. b \<noteq> 0) data)"

lemma zeros_nonzeros: "zeros data + nonzeros data = length data"
  using sum_length_filter_compl [of "\<lambda>b. b = 0" data] by (simp add: zeros_def nonzeros_def)

lemma count_nonzero_eq: "count_nonzero data nz = nz + word_of_nat (nonzeros data)"
  by (induction data nz rule: count_nonzero.induct) (auto simp: nonzeros_def)

lemma checked_product:
  fixes gas k n :: uint64
  assumes "0 < k"
  shows "(MaxUint64 - gas) div k < n \<longleftrightarrow> 2 ^ 64 \<le> unat gas + unat n * unat k"
proof -
  have "unat ((MaxUint64 - gas) div k) = (2 ^ 64 - 1 - unat gas) div unat k"
    by (simp add: unat_div_distrib unat_sub)
  moreover have "0 < unat k" using assms by (simp add: word_less_nat_alt)
  ultimately have "(MaxUint64 - gas) div k < n \<longleftrightarrow> 2 ^ 64 - 1 - unat gas < unat n * unat k"
    by (simp add: word_less_nat_alt div_less_iff_less_mult)
  moreover have "(2 ^ 64 - 1 - g < p) = (2 ^ 64 \<le> g + p)" if "g < 2 ^ 64" for g p :: nat using that by auto
  moreover have "unat gas < 2 ^ 64" by simp
  ultimately show ?thesis by blast
qed

text \<open>
  C38. The intrinsic gas is exact. For data of any length below \<open>2^64\<close>, \<open>IntrinsicGas\<close> returns the base price
  plus 68 for every non-zero byte and 4 for every zero byte when that number fits in 64 bits, and the
  out-of-gas error otherwise: the two overflow checks of the source never accept a wrapped sum and never
  reject one that fits.
\<close>

theorem IntrinsicGas_exact:
  assumes len: "length data < 2 ^ 64"
  shows "IntrinsicGas data creation =
    (let total = (if creation then 53000 else 21000) + 68 * nonzeros data + 4 * zeros data
     in if total < 2 ^ 64 then Inr (word_of_nat total) else Inl ErrOutOfGas)"
proof (cases "data = []")
  case True
  then show ?thesis by (simp add: IntrinsicGas_def zeros_def nonzeros_def TxGasContractCreation_def TxGas_def)
next
  case False
  define gas :: uint64 where "gas = (if creation then TxGasContractCreation else TxGas)"
  define nz :: uint64 where "nz = word_of_nat (nonzeros data)"
  define z :: uint64 where "z = word_of_nat (zeros data)"
  have small: "nonzeros data < 2 ^ 64" "zeros data < 2 ^ 64" using zeros_nonzeros [of data] len by linarith+
  have u: "unat nz = nonzeros data" "unat z = zeros data"
    using small by (simp_all add: nz_def z_def unsigned_of_nat take_bit_nat_eq_self)
  have base: "unat gas = (if creation then 53000 else 21000)"
    by (simp add: gas_def TxGasContractCreation_def TxGas_def)
  have "word_of_nat (length data) - nz = z"
    by (simp add: nz_def z_def flip: zeros_nonzeros [of data])
  then have eq: "IntrinsicGas data creation =
      (if (MaxUint64 - gas) div 68 < nz then Inl ErrOutOfGas
       else if (MaxUint64 - (gas + nz * 68)) div 4 < z then Inl ErrOutOfGas
       else Inr (gas + nz * 68 + z * 4))"
    using False by (simp add: IntrinsicGas_def Let_def count_nonzero_eq gas_def nz_def TxDataNonZeroGas_def TxDataZeroGas_def)
  let ?t = "unat gas + nonzeros data * 68"
  have 1: "(MaxUint64 - gas) div 68 < nz \<longleftrightarrow> 2 ^ 64 \<le> ?t" using checked_product [of 68 gas nz] by (simp add: u)
  have w: "gas + nz * 68 = word_of_nat ?t" by (simp add: nz_def mult.commute)
  have 2: "unat (gas + nz * 68) = ?t" if "?t < 2 ^ 64"
    using that by (simp only: w unsigned_of_nat) (simp add: take_bit_nat_eq_self)
  have 3: "(MaxUint64 - (gas + nz * 68)) div 4 < z \<longleftrightarrow> 2 ^ 64 \<le> ?t + zeros data * 4" if "?t < 2 ^ 64"
    using checked_product [of 4 "gas + nz * 68" z] 2 [OF that] by (simp add: u)
  have 4: "gas + nz * 68 + z * 4 = word_of_nat (?t + zeros data * 4)"
    by (simp add: w z_def mult.commute)
  have "IntrinsicGas data creation =
      (if ?t + zeros data * 4 < 2 ^ 64 then Inr (word_of_nat (?t + zeros data * 4)) else Inl ErrOutOfGas)"
    using 1 3 4 by (cases "?t < 2 ^ 64") (auto simp: eq)
  then show ?thesis by (simp add: base Let_def algebra_simps)
qed

theorem IntrinsicGas_exact_witness: "IntrinsicGas [0, 1, 2, 0, 0] False = Inr 21148"
  using IntrinsicGas_exact [of "[0, 1, 2, 0, 0]" False] by (simp add: zeros_def nonzeros_def)

subsection \<open>How much the sum of the balances grows\<close>

definition grows :: "int \<Rightarrow> StateDB \<Rightarrow> StateDB \<Rightarrow> bool" where
  "grows d s s' \<longleftrightarrow>
     (\<forall>a. 0 \<le> balance s' a) \<and>
     (\<exists>B. finite B \<and> (\<forall>C. finite C \<and> B \<subseteq> C \<longrightarrow> sum (balance s') C \<le> sum (balance s) C + d))"

lemma grows_trans:
  assumes "grows d s s'" "grows e s' s''" "f = d + e"
  shows "grows f s s''"
proof -
  obtain B where B: "finite B" "\<forall>C. finite C \<and> B \<subseteq> C \<longrightarrow> sum (balance s') C \<le> sum (balance s) C + d"
    using assms(1) by (auto simp: grows_def)
  obtain B' where B': "finite B'" "\<forall>C. finite C \<and> B' \<subseteq> C \<longrightarrow> sum (balance s'') C \<le> sum (balance s') C + e"
    using assms(2) by (auto simp: grows_def)
  have "sum (balance s'') C \<le> sum (balance s) C + f" if "finite C" "B \<union> B' \<subseteq> C" for C
    using that B(2) [rule_format, of C] B'(2) [rule_format, of C] assms(3) by simp
  then show ?thesis
    using assms(2) B(1) B'(1) unfolding grows_def by (intro conjI exI [of _ "B \<union> B'"]) auto
qed

lemma grows_same: "balance s' = balance s \<Longrightarrow> \<forall>a. 0 \<le> balance s a \<Longrightarrow> grows 0 s s'"
  by (auto simp: grows_def intro: exI [of _ "{}"])

lemma grows_credit:
  assumes "wf_db s" "\<forall>a. 0 \<le> balance s a" "0 \<le> n"
  shows "grows n s (AddBalance a n s)"
proof -
  have wf: "wf_state s" using assms(1) by (simp add: wf_db_def)
  have "0 \<le> balance (AddBalance a n s) b" for b using assms state_ledger.bal_credit [OF wf, of a n] by simp
  moreover have "sum (balance (AddBalance a n s)) C \<le> sum (balance s) C + n" if "finite C" "{a} \<subseteq> C" for C
    using that state_ledger.sum_bal_credit [OF wf, of C a n] by simp
  ultimately show ?thesis unfolding grows_def by (intro conjI exI [of _ "{a}"]) auto
qed

lemma grows_debit:
  assumes "wf_db s" "\<forall>a. 0 \<le> balance s a" "n \<le> balance s a"
  shows "grows (- n) s (SubBalance a n s)"
proof -
  have wf: "wf_state s" using assms(1) by (simp add: wf_db_def)
  have "0 \<le> balance (SubBalance a n s) b" for b using assms state_ledger.bal_debit [OF wf, of a n] by simp
  moreover have "sum (balance (SubBalance a n s)) C \<le> sum (balance s) C + (- n)" if "finite C" "{a} \<subseteq> C" for C
    using that state_ledger.sum_bal_debit [OF wf, of C a n] by simp
  ultimately show ?thesis unfolding grows_def by (intro conjI exI [of _ "{a}"]) auto
qed

lemma grows_no_minting: "no_minting ro s s' \<Longrightarrow> \<forall>a. 0 \<le> balance s a \<Longrightarrow> grows 0 s s'"
  by (simp add: grows_def no_minting_def)

lemma evm_ok_nonneg: "evm_ok L evm \<Longrightarrow> \<forall>a. 0 \<le> balance (evm_StateDB evm) a"
  using accounts_ok_balance by (auto simp: evm_ok_def)

subsection \<open>The phases of a transition\<close>

definition sane_message :: "Message \<Rightarrow> bool" where
  "sane_message msg \<longleftrightarrow>
     0 \<le> msg_GasPrice msg \<and> 0 \<le> msg_Value msg \<and> unat (msg_Gas msg) < 2 ^ 61 \<and> length (msg_Data msg) \<le> 2 ^ 40"

definition ready :: "(Hash \<Rightarrow> nat) \<Rightarrow> EVM \<Rightarrow> Message \<Rightarrow> StateTransition \<Rightarrow> bool" where
  \<comment> \<open>what stays true during the transition of \<open>msg\<close> on the machine \<open>evm\<close>\<close>
  "ready L evm msg st \<longleftrightarrow>
     st_msg st = msg \<and> st_gasPrice st = msg_GasPrice msg \<and> st_value st = msg_Value msg \<and> st_data st = msg_Data msg \<and>
     evm_ok L (st_evm st) \<and> \<not> guarded (st_evm st) \<and> evm_Context (st_evm st) = evm_Context evm"

definition bought :: "StateTransition \<Rightarrow> GasPool \<Rightarrow> bool" where
  "bought st gp \<longleftrightarrow>
     st_initialGas st = msg_Gas (st_msg st) \<and> unat (st_gas st) \<le> unat (msg_Gas (st_msg st)) \<and>
     unat (st_gp st) + unat (msg_Gas (st_msg st)) = unat gp"

lemma set_state_simps [simp]:
  "st_msg (set_state s st) = st_msg st" "st_gasPrice (set_state s st) = st_gasPrice st"
  "st_value (set_state s st) = st_value st" "st_data (set_state s st) = st_data st"
  "st_gas (set_state s st) = st_gas st" "st_initialGas (set_state s st) = st_initialGas st"
  "st_gp (set_state s st) = st_gp st" "st_evm (set_state s st) = (st_evm st)\<lparr>evm_StateDB := s\<rparr>"
  by (simp_all add: set_state_def)

lemma ready_state:
  "ready L evm msg st \<Longrightarrow> wf_db s \<Longrightarrow> accounts_ok L s \<Longrightarrow> ready L evm msg (set_state s st)"
  by (simp add: ready_def evm_ok_upd)

lemma ready_reader:
  assumes "ready L evm msg st" "extends (st_state st) s" "observation s = observation (st_state st)"
  shows "ready L evm msg (set_state s st)"
  using assms extends_wf accounts_ok_obs [OF assms(3)] by (intro ready_state) (auto simp: ready_def evm_ok_def)

lemma buyGas_ok:
  assumes r: "ready L evm msg st" and msg: "sane_message msg" and fresh: "st_gas st = 0"
  shows "\<exists>st' err. buyGas st = (st', err) \<and> ready L evm msg st' \<and>
    (err \<noteq> None \<longrightarrow> observation (st_state st') = observation (st_state st) \<and> st_gp st' = st_gp st) \<and>
    (err = None \<longrightarrow> bought st' (st_gp st) \<and>
       grows (- (uint (msg_Gas msg) * msg_GasPrice msg)) (st_state st) (st_state st'))"
proof -
  let ?a = "msg_From msg" and ?v = "uint (msg_Gas msg) * msg_GasPrice msg"
  let ?s1 = "fst (GetBalance ?a (st_state st))"
  have evm: "evm_ok L (st_evm st)" using r by (simp add: ready_def)
  note wf = evm_okD(1) [OF evm]
  have x1: "extends (st_state st) ?s1" by (simp add: reader_states op_extends wf)
  have r1: "ready L evm msg (set_state ?s1 st)" by (rule ready_reader [OF r x1]) simp
  have b1: "balance ?s1 = balance (st_state st)" by (rule balance_obs) simp
  have acc1: "accounts_ok L ?s1" by (rule accounts_ok_obs [OF _ evm_okD(2) [OF evm]]) simp
  have fields: "st_msg st = msg" "st_gasPrice st = msg_GasPrice msg" using r by (simp_all add: ready_def)
  show ?thesis
  proof (cases "snd (GetBalance ?a (st_state st)) < ?v")
    case True
    then show ?thesis using r1 by (simp add: buyGas_def fields Let_def case_prod_beta)
  next
    case False
    then have le: "?v \<le> balance ?s1 ?a" using b1 by (simp add: balance_def)
    show ?thesis
    proof (cases "st_gp st < msg_Gas msg")
      case True
      then show ?thesis using r1 False by (simp add: buyGas_def fields Let_def case_prod_beta SubGas_def)
    next
      case enough: False
      let ?s2 = "SubBalance ?a ?v ?s1"
      let ?st = "(set_state ?s1 st)\<lparr>st_gp := st_gp st - msg_Gas msg, st_gas := st_gas st + msg_Gas msg,
          st_initialGas := msg_Gas msg\<rparr>"
      have wf1: "wf_db ?s1" using extends_wf [OF x1] .
      have "wf_db ?s2" by (rule extends_wf [OF op_extends(3) [OF wf1]])
      moreover have "accounts_ok L ?s2" by (rule accounts_ok_writers(5) [OF wf1 acc1 le])
      ultimately have "ready L evm msg (set_state ?s2 ?st)" using r1 by (auto simp: ready_def evm_ok_def)
      moreover have "unat (st_gp st - msg_Gas msg) + unat (msg_Gas msg) = unat (st_gp st)"
        using enough by (intro unat_gas_left) (simp add: word_less_nat_alt)
      moreover have "grows (- ?v) (st_state st) ?s2"
      proof (rule grows_trans [OF grows_same [OF b1] grows_debit [OF wf1 _ le]])
        show "\<forall>a. 0 \<le> balance (st_state st) a" "\<forall>a. 0 \<le> balance ?s1 a"
          using evm_ok_nonneg [OF evm] by (simp_all add: b1)
      qed simp
      ultimately show ?thesis
        using enough False fresh by (simp add: buyGas_def fields Let_def case_prod_beta SubGas_def bought_def)
    qed
  qed
qed

lemma preCheck_ok:
  assumes r: "ready L evm msg st" and msg: "sane_message msg" and fresh: "st_gas st = 0"
  shows "\<exists>st' err. preCheck st = (st', err) \<and> ready L evm msg st' \<and>
    (err \<noteq> None \<longrightarrow> observation (st_state st') = observation (st_state st) \<and> st_gp st' = st_gp st) \<and>
    (err = None \<longrightarrow> bought st' (st_gp st) \<and>
       grows (- (uint (msg_Gas msg) * msg_GasPrice msg)) (st_state st) (st_state st'))"
proof (cases "msg_CheckNonce msg")
  case False
  then have "preCheck st = buyGas st" using r by (simp add: preCheck_def ready_def)
  then show ?thesis using buyGas_ok [OF assms] by simp
next
  case True
  let ?s1 = "fst (GetNonce (msg_From msg) (st_state st))" and ?n = "snd (GetNonce (msg_From msg) (st_state st))"
  let ?st = "set_state ?s1 st"
  have evm: "evm_ok L (st_evm st)" and m: "st_msg st = msg" using r by (simp_all add: ready_def)
  have "extends (st_state st) ?s1" by (simp add: reader_states op_extends evm_okD(1) [OF evm])
  then have r1: "ready L evm msg ?st" by (rule ready_reader [OF r]) simp
  have pre: "preCheck st = (if ?n < msg_Nonce msg then (?st, Some ErrNonceTooHigh)
      else if ?n > msg_Nonce msg then (?st, Some ErrNonceTooLow) else buyGas ?st)"
    using True by (simp add: preCheck_def m Let_def case_prod_beta)
  show ?thesis
  proof (cases "?n = msg_Nonce msg")
    case False
    then show ?thesis using pre r1 by (cases "?n < msg_Nonce msg") auto
  next
    case eq: True
    have b1: "balance ?s1 = balance (st_state st)" by (rule balance_obs) simp
    have g: "grows d ?s1 s' \<Longrightarrow> grows d (st_state st) s'" for d s' by (simp add: grows_def b1)
    show ?thesis
      using buyGas_ok [OF r1 msg] fresh pre eq g by auto
  qed
qed

lemma execute_ok:
  assumes r: "ready L evm msg st" and msg: "sane_message msg"
    and gas: "unat (st_gas st) \<le> unat (msg_Gas msg)" "unat (st_gas st) < fuel"
  shows "\<exists>st' ret vmerr. execute_message (Run fuel) st = Done (st', ret, vmerr) \<and> ready L evm msg st' \<and>
    unat (st_gas st') \<le> unat (st_gas st) \<and> st_gp st' = st_gp st \<and> st_initialGas st' = st_initialGas st \<and>
    grows 0 (st_state st) (st_state st')"
proof -
  have evm: "evm_ok L (st_evm st)" and g: "\<not> guarded (st_evm st)" using r by (simp_all add: ready_def)
  note wf = evm_okD(1) [OF evm] and run = money.Run_ok [of L fuel]
  have d: "st_data st = msg_Data msg" "st_value st = msg_Value msg" "st_msg st = msg" using r by (simp_all add: ready_def)
  have v: "0 \<le> msg_Value msg" using msg by (simp add: sane_message_def)
  have pre: "evm_ok L e \<Longrightarrow> call_pre L fuel e (msg_Data msg) (st_gas st)" for e
    using msg gas by (simp add: call_pre_def sane_message_def)
  have fin: "ready L evm msg (st\<lparr>st_gas := gas', st_evm := evm'\<rparr>) \<and> grows 0 (evm_StateDB e) (evm_StateDB evm')"
    if "evm_ok L evm'" "evm_rel no_minting L e evm'" "evm_ok L e" "evm_Context e = evm_Context evm" "\<not> guarded e" for evm' e gas'
  proof -
    have "no_minting (guarded e) (evm_StateDB e) (evm_StateDB evm')" using that(2) by (simp add: evm_rel_def trans_def)
    then have "grows 0 (evm_StateDB e) (evm_StateDB evm')" by (rule grows_no_minting [OF _ evm_ok_nonneg [OF that(3)]])
    moreover have "\<not> guarded evm'" "evm_Context evm' = evm_Context evm"
      using that by (simp_all add: evm_rel_def guarded_def)
    ultimately show ?thesis using r that(1) by (simp add: ready_def)
  qed
  have ctx: "evm_Context (st_evm st) = evm_Context evm" using r by (simp add: ready_def)
  let ?a = "msg_From msg"
  show ?thesis
  proof (cases "msg_To msg")
    case None
    from money.Create_ok [OF pre [OF evm] run g v, of "AccountRef ?a"]
    obtain evm' ret addr left err where c: "Create (Run fuel) (AccountRef ?a) (msg_Data msg) (st_gas st) (msg_Value msg) (st_evm st) =
        Done (evm', ret, addr, left, err)" "evm_ok L evm'" "evm_rel no_minting L (st_evm st) evm'" "unat left \<le> unat (st_gas st)"
      by (auto simp: create_ok_def)
    show ?thesis
      using c fin [OF c(2,3) evm ctx g, of left] None by (simp add: execute_message_def d)
  next
    case (Some b)
    let ?s1 = "fst (GetNonce ?a (st_state st))" and ?n = "snd (GetNonce ?a (st_state st))"
    let ?s2 = "SetNonce ?a (?n + 1) ?s1"
    have t1: "trans no_minting L False (st_state st) ?s1" by (rule money.T_readers(2) [OF wf])
    have t2: "trans no_minting L False (st_state st) ?s2"
      by (rule money.T_trans [OF wf t1 money.T_writers(2) [OF money.T_wf [OF t1]]])
    let ?e = "(st_evm st)\<lparr>evm_StateDB := ?s2\<rparr>"
    have e: "evm_ok L ?e" by (rule evm_ok_upd(1) [OF evm money.T_wf [OF t2] money.T_accounts [OF t2 evm_okD(2) [OF evm]]])
    have ge: "\<not> guarded ?e" using g by simp
    from money.Call_ok [OF pre [OF e] run v, of "AccountRef ?a" b] ge
    obtain evm' ret left err where c: "Call (Run fuel) (AccountRef ?a) b (msg_Data msg) (st_gas st) (msg_Value msg) ?e =
        Done (evm', ret, left, err)" "evm_ok L evm'" "evm_rel no_minting L ?e evm'" "unat left \<le> unat (st_gas st)"
      by (auto simp: call_ok_def)
    have "no_minting False (st_state st) ?s2" using t2 by (simp add: trans_def)
    then have "grows 0 (st_state st) ?s2" by (rule grows_no_minting [OF _ evm_ok_nonneg [OF evm]])
    then have "grows 0 (st_state st) (evm_StateDB evm')"
      using grows_trans [of 0 "st_state st" ?s2 0 "evm_StateDB evm'" 0] fin [OF c(2,3) e _ ge] ctx by simp
    moreover have "ready L evm msg (st\<lparr>st_gas := left, st_evm := evm'\<rparr>)" using fin [OF c(2,3) e _ ge] ctx by simp
    ultimately show ?thesis
      using c Some by (simp add: execute_message_def d Let_def case_prod_beta to_def set_state_def)
  qed
qed

lemma AddGas_Done: "unat gp + unat g < 2 ^ 64 \<Longrightarrow> AddGas g gp = Done (gp + g) \<and> unat (gp + g) = unat gp + unat g"
proof -
  assume lt: "unat gp + unat g < 2 ^ 64"
  then have "unat gp \<le> unat (MaxUint64 - g)" by (simp add: unat_sub)
  then have "\<not> MaxUint64 - g < gp" by (simp add: word_less_nat_alt)
  then show ?thesis using lt by (simp add: AddGas_def unat_add_uint64)
qed

lemma refund_bound:
  fixes gas init refund :: uint64
  assumes "unat gas \<le> unat init" "refund \<le> (init - gas) div 2"
  shows "unat (gas + refund) = unat gas + unat refund" "unat gas + unat refund \<le> unat init"
proof -
  have "unat refund \<le> unat ((init - gas) div 2)" using assms(2) by (simp only: word_le_nat_alt)
  also have "\<dots> \<le> unat init - unat gas"
    using unat_gas_left [OF assms(1)] by (simp add: unat_div_distrib)
  finally show le: "unat gas + unat refund \<le> unat init" using assms(1) by linarith
  have "unat init < 18446744073709551616" by simp
  then show "unat (gas + refund) = unat gas + unat refund" using le by (intro unat_add_uint64) linarith
qed

lemma ready_credit:
  assumes "ready L evm msg st" "0 \<le> n"
  shows "ready L evm msg (set_state (AddBalance a n (st_state st)) st)" "grows n (st_state st) (AddBalance a n (st_state st))"
proof -
  have evm: "evm_ok L (st_evm st)" using assms(1) by (simp add: ready_def)
  note wf = evm_okD(1) [OF evm] and nn = evm_ok_nonneg [OF evm]
  have "0 \<le> balance (st_state st) a + n" using nn assms(2) by (simp add: add_nonneg_nonneg)
  then have "accounts_ok L (AddBalance a n (st_state st))"
    by (rule accounts_ok_writers(4) [OF wf evm_okD(2) [OF evm]])
  then show "ready L evm msg (set_state (AddBalance a n (st_state st)) st)"
    by (intro ready_state [OF assms(1) extends_wf [OF op_extends(2) [OF wf]]])
  show "grows n (st_state st) (AddBalance a n (st_state st))" by (rule grows_credit [OF wf nn assms(2)])
qed

lemma pay_fees_ok:
  assumes r: "ready L evm msg st" and msg: "sane_message msg" and b: "bought st gp"
  shows "\<exists>st'. pay_fees st = Done st' \<and> ready L evm msg st' \<and> unat (gasUsed st') \<le> unat (msg_Gas msg) \<and>
    unat (st_gp st') + unat (gasUsed st') = unat gp \<and>
    grows (uint (msg_Gas msg) * msg_GasPrice msg) (st_state st) (st_state st')"
proof -
  define refund where "refund = (if gasUsed st div 2 > GetRefund (st_state st) then GetRefund (st_state st) else gasUsed st div 2)"
  have m: "st_msg st = msg" "st_gasPrice st = msg_GasPrice msg" and ctx: "evm_Context (st_evm st) = evm_Context evm"
    using r by (simp_all add: ready_def)
  have init: "st_initialGas st = msg_Gas msg" "unat (st_gas st) \<le> unat (msg_Gas msg)"
      "unat (st_gp st) + unat (msg_Gas msg) = unat gp"
    using b by (simp_all add: bought_def m)
  have "refund \<le> (msg_Gas msg - st_gas st) div 2" by (auto simp: refund_def gasUsed_def init)
  note gas = refund_bound [OF init(2) this]
  let ?gas = "st_gas st + refund" and ?p = "msg_GasPrice msg"
  have gp: "AddGas ?gas (st_gp st) = Done (st_gp st + ?gas)" "unat (st_gp st + ?gas) = unat (st_gp st) + unat ?gas"
  proof -
    have "unat gp < 2 ^ 64" by simp
    then have "unat (st_gp st) + unat ?gas < 2 ^ 64" using gas init(3) by linarith
    then show "AddGas ?gas (st_gp st) = Done (st_gp st + ?gas)" "unat (st_gp st + ?gas) = unat (st_gp st) + unat ?gas"
      using AddGas_Done by blast+
  qed
  let ?st1 = "st\<lparr>st_gas := ?gas, st_gp := st_gp st + ?gas\<rparr>"
  let ?rem = "uint ?gas * ?p" and ?fee = "uint (msg_Gas msg - ?gas) * ?p"
  have p: "0 \<le> ?p" using msg by (simp add: sane_message_def)
  have r1: "ready L evm msg ?st1" using r by (simp add: ready_def)
  note c1 = ready_credit [OF r1, of ?rem "msg_From msg"]
  let ?st2 = "set_state (AddBalance (msg_From msg) ?rem (st_state st)) ?st1"
  have r2: "ready L evm msg ?st2" using c1(1) p by simp
  note c2 = ready_credit [OF r2, of ?fee "ctx_Coinbase (evm_Context evm)"]
  let ?st3 = "set_state (AddBalance (ctx_Coinbase (evm_Context evm)) ?fee (st_state ?st2)) ?st2"
  have "pay_fees st = Done ?st3"
    by (simp add: pay_fees_def refundGas_def m Let_def gp(1) init gasUsed_def refund_def [symmetric, unfolded gasUsed_def init] ctx)
  moreover have "unat (msg_Gas msg - ?gas) + unat ?gas = unat (msg_Gas msg)" using gas by (intro unat_gas_left) simp
  moreover have "?rem + ?fee = uint (msg_Gas msg) * ?p"
  proof -
    have "uint (msg_Gas msg) = uint (msg_Gas msg - ?gas) + uint ?gas"
      unfolding uint_nat by (simp only: calculation(2) flip: of_nat_add)
    then show ?thesis by (simp only: distrib_right add.commute)
  qed
  moreover have "grows ?rem (st_state st) (st_state ?st2)" using c1(2) p by simp
  moreover have "grows ?fee (st_state ?st2) (st_state ?st3)" using c2(2) p by simp
  ultimately show ?thesis
    using c2(1) p gp(2) init(1,3) grows_trans [of ?rem "st_state st" "st_state ?st2" ?fee "st_state ?st3"]
    by (intro exI [of _ ?st3]) (simp add: gasUsed_def)
qed

subsection \<open>The whole transition\<close>

lemma preCheck_errors: "snd (preCheck st) \<noteq> Some (VMError e)"
  by (auto simp: preCheck_def buyGas_def SubGas_def Let_def case_prod_beta)

lemma ApplyMessage_ok:
  assumes evm: "evm_ok L evm" "\<not> guarded evm" and msg: "sane_message msg" and fuel: "unat (msg_Gas msg) < fuel"
  shows "\<exists>st ret used failed err. ApplyMessage (Run fuel) evm msg gp = Done (st, ret, used, failed, err) \<and>
    evm_ok L (st_evm st) \<and>
    (err = None \<longrightarrow> unat used \<le> unat (msg_Gas msg) \<and> unat (st_gp st) + unat used = unat gp \<and>
       grows 0 (evm_StateDB evm) (st_state st)) \<and>
    ((\<exists>e. err = Some (VMError e)) \<longrightarrow> unat (st_gp st) + unat (msg_Gas msg) = unat gp) \<and>
    (err \<noteq> None \<and> (\<forall>e. err \<noteq> Some (VMError e)) \<longrightarrow>
       observation (st_state st) = observation (evm_StateDB evm) \<and> st_gp st = gp)"
proof -
  let ?st0 = "NewStateTransition evm msg gp" and ?m = "uint (msg_Gas msg) * msg_GasPrice msg"
  have r0: "ready L evm msg ?st0" using evm by (simp add: ready_def NewStateTransition_def)
  have f0: "st_gas ?st0 = 0" "st_gp ?st0 = gp" "st_state ?st0 = evm_StateDB evm" by (simp_all add: NewStateTransition_def)
  obtain st1 err where p: "preCheck ?st0 = (st1, err)" "ready L evm msg st1"
      "err \<noteq> None \<longrightarrow> observation (st_state st1) = observation (evm_StateDB evm) \<and> st_gp st1 = gp"
      "err = None \<longrightarrow> bought st1 gp \<and> grows (- ?m) (evm_StateDB evm) (st_state st1)"
    using preCheck_ok [OF r0 msg f0(1)] f0 by auto
  have ev: "ready L evm msg st \<Longrightarrow> evm_ok L (st_evm st)" for st by (simp add: ready_def)
  have gp: "bought st gp \<Longrightarrow> ready L evm msg st \<Longrightarrow> unat (st_gp st) + unat (msg_Gas msg) = unat gp" for st
    by (simp add: bought_def ready_def)
  show ?thesis
  proof (cases err)
    case (Some e)
    then show ?thesis
      using p preCheck_errors [of ?st0] ev [OF p(2)] by (auto simp: ApplyMessage_def TransitionDb_def)
  next
    case None
    then have b1: "bought st1 gp" "grows (- ?m) (evm_StateDB evm) (st_state st1)" using p(4) by auto
    show ?thesis
    proof (cases "\<exists>gas. IntrinsicGas (st_data st1) (msg_To (st_msg st1) = None) = Inr gas \<and> \<not> st_gas st1 < gas")
      case False
      then show ?thesis
        using p(1,2) None ev [OF p(2)] gp [OF b1(1) p(2)]
        by (auto simp: ApplyMessage_def TransitionDb_def useGas_def split: sum.splits)
    next
      case True
      then obtain gas where gas: "IntrinsicGas (st_data st1) (msg_To (st_msg st1) = None) = Inr gas" "\<not> st_gas st1 < gas" by blast
      let ?st2 = "st1\<lparr>st_gas := st_gas st1 - gas\<rparr>"
      have r2: "ready L evm msg ?st2" using p(2) by (simp add: ready_def)
      have "unat (st_gas st1 - gas) + unat gas = unat (st_gas st1)" using gas(2) by (intro unat_gas_left) (simp add: word_less_nat_alt)
      moreover have "unat (st_gas st1) \<le> unat (msg_Gas msg)" using b1(1) p(2) by (simp add: bought_def ready_def)
      ultimately have le: "unat (st_gas ?st2) \<le> unat (msg_Gas msg)" "unat (st_gas ?st2) < fuel" using fuel by auto
      obtain st3 ret vmerr where x: "execute_message (Run fuel) ?st2 = Done (st3, ret, vmerr)" "ready L evm msg st3"
          "unat (st_gas st3) \<le> unat (st_gas ?st2)" "st_gp st3 = st_gp ?st2" "st_initialGas st3 = st_initialGas ?st2"
          "grows 0 (st_state ?st2) (st_state st3)"
        using execute_ok [OF r2 msg le] by blast
      have b3: "bought st3 gp" using b1(1) x le p(2) by (simp add: bought_def ready_def)
      from pay_fees_ok [OF x(2) msg b3] obtain st4 where f: "pay_fees st3 = Done st4" "ready L evm msg st4"
          "unat (gasUsed st4) \<le> unat (msg_Gas msg)" "unat (st_gp st4) + unat (gasUsed st4) = unat gp" "grows ?m (st_state st3) (st_state st4)"
        by blast
      have "grows (- ?m) (evm_StateDB evm) (st_state st3)" by (rule grows_trans [OF b1(2) x(6) [simplified]]) simp
      then have "grows 0 (evm_StateDB evm) (st_state st4)" by (rule grows_trans [OF _ f(5)]) simp
      then show ?thesis
        using p(1) None gas x(1) f gp [OF b3 x(2)] ev [OF x(2)] ev [OF f(2)]
        by (auto simp: ApplyMessage_def TransitionDb_def useGas_def)
    qed
  qed
qed

subsection \<open>A sample transfer\<close>

definition sampleMessage :: Message where
  "sampleMessage =
     \<lparr>msg_From = 1, msg_To = Some 77, msg_GasPrice = 0, msg_Gas = 21000, msg_Value = 4, msg_Nonce = 0,
      msg_CheckNonce = True, msg_Data = []\<rparr>"

lemma sampleMessage_sane: "sane_message sampleMessage" "sane_message (sampleMessage\<lparr>msg_Nonce := 5\<rparr>)"
  by (simp_all add: sane_message_def sampleMessage_def)

lemma sample_transfer:
  "\<exists>st. ApplyMessage (Run 21001) sampleEVM sampleMessage 100000 = Done (st, [], 21000, False, None) \<and>
     st_gp st = 79000 \<and> balance (st_state st) 77 = 4"
proof -
  have "case ApplyMessage (Run 21001) sampleEVM sampleMessage 100000 of
      Done x \<Rightarrow> (case x of (st, ret, used, failed, err) \<Rightarrow> ret = [] \<and> used = 21000 \<and> err = None \<and> \<not> failed \<and>
        st_gp st = 79000 \<and> snd (GetBalance 77 (st_state st)) = 4) | _ \<Rightarrow> False"
    by code_simp
  then show ?thesis by (rule outcome_DoneE) (auto simp: balance_def)
qed

lemma sample_future_nonce:
  "\<exists>st. ApplyMessage (Run 21001) sampleEVM (sampleMessage\<lparr>msg_Nonce := 5\<rparr>) 100000 = Done (st, [], 0, False, Some ErrNonceTooHigh)"
proof -
  have "case ApplyMessage (Run 21001) sampleEVM (sampleMessage\<lparr>msg_Nonce := 5\<rparr>) 100000 of
      Done x \<Rightarrow> (case x of (st, ret, used, failed, err) \<Rightarrow> ret = [] \<and> used = 0 \<and> \<not> failed \<and> err = Some ErrNonceTooHigh) | _ \<Rightarrow> False"
    by code_simp
  then show ?thesis by (rule outcome_DoneE) auto
qed

lemma sample_gas_fuel: "unat (msg_Gas sampleMessage) < 21001" "unat (msg_Gas (sampleMessage\<lparr>msg_Nonce := 5\<rparr>)) < 21001"
  by (simp_all add: sampleMessage_def)

text \<open>
  C10. Gas is accounted for exactly. On a well-formed machine, applying a message always returns, whatever
  code it runs; the gas pool never overflows. When no core error is returned, the gas used is at most the
  gas limit of the message, and the block's pool has shrunk by exactly the gas used, refund included.
\<close>

theorem ApplyMessage_gas:
  assumes "evm_ok L evm" "\<not> guarded evm" "sane_message msg" "unat (msg_Gas msg) < fuel"
  shows "\<exists>st ret used failed err. ApplyMessage (Run fuel) evm msg gp = Done (st, ret, used, failed, err) \<and>
    (err = None \<longrightarrow> unat used \<le> unat (msg_Gas msg) \<and> unat (st_gp st) + unat used = unat gp)"
  using ApplyMessage_ok [OF assms, of gp] by blast

theorem ApplyMessage_gas_witness:
  "\<exists>st used. ApplyMessage (Run 21001) sampleEVM sampleMessage 100000 = Done (st, [], used, False, None) \<and>
     unat (st_gp st) + unat used = 100000"
proof -
  obtain st where r: "ApplyMessage (Run 21001) sampleEVM sampleMessage 100000 = Done (st, [], 21000, False, None)"
    using sample_transfer by blast
  then show ?thesis
    using ApplyMessage_gas [OF sampleEVM_ok sampleMessage_sane(1) sample_gas_fuel(1), of 100000] by auto
qed

text \<open>
  C11. A transaction creates no money. When a message is applied without a core error, with whatever code, the
  purchase of gas, the execution, the refund and the fee of the coinbase together leave no balance negative
  and do not increase the sum of the balances over any large enough finite set of addresses.
\<close>

theorem ApplyMessage_no_money_created:
  assumes "evm_ok L evm" "\<not> guarded evm" "sane_message msg" "unat (msg_Gas msg) < fuel"
    and "ApplyMessage (Run fuel) evm msg gp = Done (st, ret, used, failed, None)"
  shows "(\<forall>a. 0 \<le> balance (st_state st) a) \<and>
    (\<exists>B. finite B \<and> (\<forall>C. finite C \<and> B \<subseteq> C \<longrightarrow> sum (balance (st_state st)) C \<le> sum (balance (evm_StateDB evm)) C))"
  using ApplyMessage_ok [OF assms(1-4), of gp] assms(5) by (simp add: grows_def)

theorem ApplyMessage_no_money_created_witness:
  "\<exists>st. ApplyMessage (Run 21001) sampleEVM sampleMessage 100000 = Done (st, [], 21000, False, None) \<and>
     balance (st_state st) 77 = 4 \<and> (\<forall>a. 0 \<le> balance (st_state st) a)"
proof -
  obtain st where r: "ApplyMessage (Run 21001) sampleEVM sampleMessage 100000 = Done (st, [], 21000, False, None)"
      "balance (st_state st) 77 = 4"
    using sample_transfer by blast
  then show ?thesis
    using ApplyMessage_no_money_created [OF sampleEVM_ok sampleMessage_sane(1) sample_gas_fuel(1) r(1)] by blast
qed

text \<open>
  C12. A message that is refused by the checks on nonce, funds and block gas has no effect: the accounts, the
  refund counter, the logs and the gas pool are unchanged. (A message refused later, for its intrinsic gas or
  for the funds to transfer, has already paid for its gas and keeps its share of the pool.)
\<close>

theorem ApplyMessage_refused:
  assumes "evm_ok L evm" "\<not> guarded evm" "sane_message msg" "unat (msg_Gas msg) < fuel"
    and "ApplyMessage (Run fuel) evm msg gp = Done (st, ret, used, failed, Some err)"
    and "err \<in> {ErrNonceTooHigh, ErrNonceTooLow, errInsufficientBalanceForGas, ErrGasLimitReached}"
  shows "observation (st_state st) = observation (evm_StateDB evm) \<and> st_gp st = gp"
  using ApplyMessage_ok [OF assms(1-4), of gp] assms(5,6) by auto

theorem ApplyMessage_refused_witness:
  "\<exists>st. ApplyMessage (Run 21001) sampleEVM (sampleMessage\<lparr>msg_Nonce := 5\<rparr>) 100000 = Done (st, [], 0, False, Some ErrNonceTooHigh) \<and>
     observation (st_state st) = observation (evm_StateDB sampleEVM) \<and> st_gp st = 100000"
proof -
  obtain st where r: "ApplyMessage (Run 21001) sampleEVM (sampleMessage\<lparr>msg_Nonce := 5\<rparr>) 100000 = Done (st, [], 0, False, Some ErrNonceTooHigh)"
    using sample_future_nonce by blast
  then show ?thesis
    using ApplyMessage_refused [OF sampleEVM_ok sampleMessage_sane(2) sample_gas_fuel(2) r] by blast
qed

end
