(* ===== verification/Trie_Encoding.thy ===== *)
theory Trie_Encoding
  imports Rlp
begin

text \<open>
  The three key encodings of the Merkle Patricia trie (\<open>src/core/trie/encoding.go\<close>): key bytes, one byte
  for each nibble with an optional terminator 16, and the compact form stored on disk. The conversions
  are translated with their panics and proved to undo each other.
\<close>

subsection \<open>Conversions: encoding.go\<close>

definition hasTerm :: "bytes \<Rightarrow> bool" where
  "hasTerm s \<longleftrightarrow> length s > 0 \<and> s ! (length s - 1) = 16"

fun prefixLen :: "bytes \<Rightarrow> bytes \<Rightarrow> nat" where
  "prefixLen (x # xs) (y # ys) = (if x \<noteq> y then 0 else Suc (prefixLen xs ys))"
| "prefixLen _ _ = 0"

fun decodeNibbles :: "bytes \<Rightarrow> bytes \<Rightarrow> bytes outcome" where
  \<comment> \<open>the contents of the slice \<open>bytes\<close> after the call\<close>
  "decodeNibbles [] bs = Done bs"
| "decodeNibbles [n] bs = Panic"
| "decodeNibbles (n # m # ns) [] = Panic"
| "decodeNibbles (n # m # ns) (b # bs) = obind (decodeNibbles ns bs) (\<lambda>r. Done (or (push_bit 4 n) m # r))"

definition keybytesToHex :: "bytes \<Rightarrow> bytes" where
  "keybytesToHex str = concat (map (\<lambda>b. [b div 16, b mod 16]) str) @ [16]"

definition hexToKeybytes :: "bytes \<Rightarrow> bytes outcome" where
  "hexToKeybytes hex =
     (let hex1 = (if hasTerm hex then take (length hex - 1) hex else hex)
      in if length hex1 mod 2 \<noteq> 0 then Panic
         else decodeNibbles hex1 (replicate ((length hex1 + 1) div 2) 0))"

definition hexToCompact :: "bytes \<Rightarrow> bytes outcome" where
  "hexToCompact hex =
     (let terminator = (if hasTerm hex then 1 else 0);
          hex1 = (if hasTerm hex then take (length hex - 1) hex else hex);
          flag = push_bit 5 terminator;
          (flag1, hex2) = (if length hex1 mod 2 = 1 then (or (or flag (push_bit 4 1)) (hex1 ! 0), drop 1 hex1) else (flag, hex1))
      in obind (decodeNibbles hex2 (replicate (length hex1 div 2) 0)) (\<lambda>r. Done (flag1 # r)))"

definition compactToHex :: "bytes \<Rightarrow> bytes outcome" where
  "compactToHex compact =
     (let base = keybytesToHex compact;
          base1 = take (length base - 1) base
      in case base1 of
           [] \<Rightarrow> Panic
         | b # _ \<Rightarrow>
             (let base2 = (if b \<ge> 2 then base1 @ [16] else base1);
                  chop = 2 - and b 1
              in Done (drop (unat chop) base2)))"

subsection \<open>Hex keys\<close>

definition nibbles :: "bytes \<Rightarrow> bool" where
  "nibbles ns \<longleftrightarrow> (\<forall>n \<in> set ns. n < 16)"

definition hexkey :: "bytes \<Rightarrow> bool" where
  \<comment> \<open>nibbles closed by the terminator: the keys of values\<close>
  "hexkey k \<longleftrightarrow> (\<exists>ns. k = ns @ [16] \<and> nibbles ns)"

lemma nibbles_simps [simp]:
  "nibbles []" "nibbles (n # ns) \<longleftrightarrow> n < 16 \<and> nibbles ns" "nibbles (xs @ ys) \<longleftrightarrow> nibbles xs \<and> nibbles ys"
  by (auto simp: nibbles_def)

lemma nibbles_take_drop: "nibbles ns \<Longrightarrow> nibbles (take i ns)" "nibbles ns \<Longrightarrow> nibbles (drop i ns)"
  by (auto simp: nibbles_def dest: in_set_takeD in_set_dropD)

lemma hasTerm_append [simp]: "hasTerm (xs @ [x]) \<longleftrightarrow> x = 16"
  by (simp add: hasTerm_def)

lemma not_hasTerm_nibbles: "nibbles ns \<Longrightarrow> \<not> hasTerm ns"
proof (cases ns rule: rev_cases)
  case (snoc ys y)
  assume "nibbles ns"
  then show ?thesis using snoc by auto
qed (simp add: hasTerm_def)

lemma hexkey_hasTerm: "hexkey k \<Longrightarrow> hasTerm k"
  by (auto simp: hexkey_def)

lemma hexkey_Cons: "hexkey (n # k) \<longleftrightarrow> n = 16 \<and> k = [] \<or> n < 16 \<and> hexkey k"
proof -
  have "hexkey (n # k) \<longleftrightarrow> (\<exists>ns. n # k = ns @ [16] \<and> nibbles ns)" by (simp add: hexkey_def)
  also have "\<dots> \<longleftrightarrow> n = 16 \<and> k = [] \<or> n < 16 \<and> (\<exists>ns. k = ns @ [16] \<and> nibbles ns)"
    by (auto simp: Cons_eq_append_conv)
  finally show ?thesis by (simp add: hexkey_def)
qed

lemma not_hexkey_Nil [simp]: "\<not> hexkey []"
  by (simp add: hexkey_def)

lemma hexkey_append: "nibbles ns \<Longrightarrow> hexkey (ns @ k) \<longleftrightarrow> hexkey k"
  by (induction ns) (auto simp: hexkey_Cons)

lemma byte_div_16: "b div 16 < (16 :: byte)"
proof -
  have "unat b < 256" using unsigned_less [of b] by simp
  then have "unat b div 16 < 16" by (simp add: less_mult_imp_div_less)
  then show ?thesis by (simp add: word_less_nat_alt unat_div)
qed

lemma byte_mod_16: "b mod 16 < (16 :: byte)"
  by (simp add: word_less_nat_alt unat_mod)

lemma nibbles_keybytes: "nibbles (concat (map (\<lambda>b. [b div 16, b mod 16]) str))"
  by (induction str) (simp_all add: byte_div_16 byte_mod_16)

lemma hexkey_keybytesToHex: "hexkey (keybytesToHex str)"
  using nibbles_keybytes by (auto simp: hexkey_def keybytesToHex_def)

subsection \<open>Packing nibbles\<close>

lemma nibble_bits: "n < 16 \<Longrightarrow> bit n i \<Longrightarrow> i < 4" for n :: byte
proof -
  assume n: "n < 16" and b: "bit n i"
  have "unat n < 2 ^ 4" using n by (simp add: word_less_nat_alt)
  then have "take_bit 4 (unat n) = unat n" by (simp add: take_bit_nat_eq_self)
  then have "take_bit 4 n = n" by (metis unsigned_take_bit_eq word_unat_eq_iff)
  then show ?thesis using b by (metis bit_take_bit_iff)
qed

lemma pack_div: "n < 16 \<Longrightarrow> m < 16 \<Longrightarrow> or (push_bit 4 n) m div 16 = n" for n m :: byte
proof -
  assume n: "n < 16" and m: "m < 16"
  have "drop_bit 4 (or (push_bit 4 n) m) = n"
    by (rule bit_word_eqI) (auto simp: bit_simps dest: nibble_bits [OF n] nibble_bits [OF m])
  then show ?thesis by (simp add: drop_bit_eq_div)
qed

lemma pack_mod: "n < 16 \<Longrightarrow> m < 16 \<Longrightarrow> or (push_bit 4 n) m mod 16 = m" for n m :: byte
proof -
  assume n: "n < 16" and m: "m < 16"
  have "take_bit 4 (or (push_bit 4 n) m) = m"
    by (rule bit_word_eqI) (auto simp: bit_simps dest: nibble_bits [OF m])
  then show ?thesis by (simp add: take_bit_eq_mod)
qed

lemma unpack_pack: "or (push_bit 4 (b div 16)) (b mod 16) = b" for b :: byte
proof -
  have "or (push_bit 4 (drop_bit 4 b)) (take_bit 4 b) = b"
    by (rule bit_word_eqI) (auto simp: bit_simps)
  then show ?thesis by (simp add: drop_bit_eq_div take_bit_eq_mod)
qed

lemma decodeNibbles_keybytes:
  "decodeNibbles (concat (map (\<lambda>b. [b div 16, b mod 16]) str)) (replicate (length str) 0) = Done str"
  by (induction str) (simp_all add: unpack_pack)

lemma unpack_decodeNibbles:
  "nibbles ns \<Longrightarrow> even (length ns) \<Longrightarrow>
   \<exists>bs. decodeNibbles ns (replicate (length ns div 2) 0) = Done bs \<and> concat (map (\<lambda>b. [b div 16, b mod 16]) bs) = ns"
proof (induction ns "replicate (length ns div 2) (0 :: byte)" rule: decodeNibbles.induct)
  case (4 n m ns b bs)
  then obtain r where "decodeNibbles ns (replicate (length ns div 2) 0) = Done r"
    "concat (map (\<lambda>b. [b div 16, b mod 16]) r) = ns"
    by auto
  then show ?case using 4(3) by (simp add: pack_div pack_mod)
qed simp_all

lemma length_concat_pairs: "length (concat (map (\<lambda>b. [f b, g b]) bs)) = 2 * length bs"
  by (induction bs) simp_all

subsection \<open>Round trips\<close>

lemma flag_simps:
  "n < 16 \<Longrightarrow> or 0x30 n div 16 = 3" "n < 16 \<Longrightarrow> or 0x30 n mod 16 = n"
  "n < 16 \<Longrightarrow> or 0x10 n div 16 = 1" "n < 16 \<Longrightarrow> or 0x10 n mod 16 = n" for n :: byte
  using pack_div [of 3 n] pack_mod [of 3 n] pack_div [of 1 n] pack_mod [of 1 n]
  by (simp_all add: push_bit_eq_mult word_less_nat_alt)

lemma compactToHex_pack:
  assumes "nibbles ns" "hex = (if t then ns @ [16] else ns)"
  shows "\<exists>c. hexToCompact hex = Done c \<and> c \<noteq> [] \<and> compactToHex c = Done hex"
proof -
  have tm: "hasTerm hex \<longleftrightarrow> t"
    using assms not_hasTerm_nibbles [OF assms(1)] by auto
  have strip: "(if hasTerm hex then take (length hex - 1) hex else hex) = ns"
    using tm assms(2) by auto
  show ?thesis
  proof (cases "even (length ns)")
    case True
    then obtain bs where bs: "decodeNibbles ns (replicate (length ns div 2) 0) = Done bs"
        "concat (map (\<lambda>b. [b div 16, b mod 16]) bs) = ns"
      using unpack_decodeNibbles [OF assms(1)] by blast
    then show ?thesis
      using True tm strip assms
      by (auto simp: hexToCompact_def compactToHex_def keybytesToHex_def even_iff_mod_2_eq_zero push_bit_eq_mult)
  next
    case False
    then obtain n ns' where n: "ns = n # ns'" by (cases ns) auto
    then obtain bs where bs: "decodeNibbles ns' (replicate (length ns' div 2) 0) = Done bs"
        "concat (map (\<lambda>b. [b div 16, b mod 16]) bs) = ns'"
      using False assms(1) unpack_decodeNibbles [of ns'] by auto
    have half: "length ns div 2 = length ns' div 2" "length ns mod 2 = 1"
      using False n by (auto simp: odd_iff_mod_2_eq_one)
    show ?thesis
      using n bs half tm strip assms
      by (auto simp: hexToCompact_def compactToHex_def keybytesToHex_def push_bit_eq_mult flag_simps Let_def word_le_nat_alt)
  qed
qed

text \<open>
  C26. The compact encoding loses nothing: every sequence of nibbles, with or without the terminator, is
  encoded without a panic, and decoding the result gives it back; likewise key bytes survive the
  conversion to nibbles and back.
\<close>

theorem compact_roundtrip:
  assumes "nibbles ns"
  shows "(\<exists>c. hexToCompact ns = Done c \<and> compactToHex c = Done ns) \<and>
    (\<exists>c. hexToCompact (ns @ [16]) = Done c \<and> compactToHex c = Done (ns @ [16])) \<and>
    hexToKeybytes (keybytesToHex str) = Done str"
proof (intro conjI)
  show "\<exists>c. hexToCompact ns = Done c \<and> compactToHex c = Done ns"
    using compactToHex_pack [OF assms, of ns False] by auto
  show "\<exists>c. hexToCompact (ns @ [16]) = Done c \<and> compactToHex c = Done (ns @ [16])"
    using compactToHex_pack [OF assms, of "ns @ [16]" True] by auto
  show "hexToKeybytes (keybytesToHex str) = Done str"
    using decodeNibbles_keybytes [of str]
    by (simp add: hexToKeybytes_def keybytesToHex_def length_concat_pairs)
qed

theorem compact_roundtrip_witness:
  "hexToCompact [1, 2, 3, 16] = Done [0x31, 0x23] \<and> compactToHex [0x31, 0x23] = Done [1, 2, 3, 16]"
proof -
  have "hexToCompact ([1, 2, 3] @ [16]) = Done [0x31, 0x23]" by code_simp
  then show ?thesis using compact_roundtrip [of "[1, 2, 3]"] by simp
qed

end
