(* ===== verification/Trie_Map.thy ===== *)
theory Trie_Map
  imports Trie_Encoding "HOL-Library.Sublist"
begin

text \<open>
  The abstract Merkle Patricia trie that the nodes in memory and in the database stand for: no flags, no
  references by hash. \<open>mget\<close> reads it as a finite map from keys to values, \<open>canonical\<close> is the minimal form
  that the comments of \<open>src/core/trie/trie.go\<close> describe (no empty fragment, no short node under a short node,
  at least two entries in a full node, values exactly behind the terminator). A canonical trie is determined
  by the map it represents.
\<close>

subsection \<open>Tries and their contents\<close>

datatype mpt = MNil | MShort bytes mpt | MFull "mpt list" | MValue bytes

lemma size_nth_mpt: "i < length cs \<Longrightarrow> size (cs ! i) < Suc (size_list size cs)" for cs :: "mpt list"
  using size_list_estimation' [OF nth_mem, of i cs "size (cs ! i)" size] by simp

function mget :: "mpt \<Rightarrow> bytes \<Rightarrow> bytes option" where
  "mget MNil key = None"
| "mget (MValue v) key = (if key = [] then Some v else None)"
| "mget (MShort k m) key = (if prefix k key then mget m (drop (length k) key) else None)"
| "mget (MFull cs) key =
     (case key of [] \<Rightarrow> None | x # key' \<Rightarrow> if unat x < length cs then mget (cs ! unat x) key' else None)"
  by pat_completeness auto
termination
  by (relation "measure (\<lambda>(m, key). size m)") (auto simp: size_nth_mpt)

definition entries :: "mpt list \<Rightarrow> nat" where
  "entries cs = length (filter (\<lambda>c. c \<noteq> MNil) cs)"

fun is_MValue :: "mpt \<Rightarrow> bool" where
  "is_MValue (MValue _) = True"
| "is_MValue _ = False"

fun canonical :: "mpt \<Rightarrow> bool" where
  "canonical MNil = False"
| "canonical (MValue v) = False"
| "canonical (MShort k m) =
     (k \<noteq> [] \<and> (case m of MValue v \<Rightarrow> v \<noteq> [] \<and> hexkey k | MFull cs \<Rightarrow> nibbles k \<and> canonical m | _ \<Rightarrow> False))"
| "canonical (MFull cs) =
     (length cs = 17 \<and> entries cs \<ge> 2 \<and>
      (\<forall>c \<in> set cs. c \<noteq> MNil \<and> \<not> is_MValue c \<longrightarrow> canonical c) \<and>
      (\<forall>i < 16. \<not> is_MValue (cs ! i)) \<and>
      (case cs ! 16 of MNil \<Rightarrow> True | MValue v \<Rightarrow> v \<noteq> [] | _ \<Rightarrow> False))"

definition subtrie :: "mpt \<Rightarrow> bool" where
  "subtrie m \<longleftrightarrow> m = MNil \<or> canonical m"

definition leaf :: "mpt \<Rightarrow> bool" where
  "leaf m \<longleftrightarrow> (case m of MNil \<Rightarrow> True | MValue v \<Rightarrow> v \<noteq> [] | _ \<Rightarrow> False)"

definition seat :: "bytes \<Rightarrow> mpt \<Rightarrow> bool" where
  \<comment> \<open>what may stand where the rest \<open>k\<close> of a key is looked up\<close>
  "seat k m \<longleftrightarrow> (if k = [] then leaf m else hexkey k \<and> subtrie m)"

lemma subtrie_MNil [simp]: "subtrie MNil" and leaf_MNil [simp]: "leaf MNil" and leaf_MValue [simp]: "leaf (MValue v) \<longleftrightarrow> v \<noteq> []"
  by (simp_all add: subtrie_def leaf_def)

lemma canonical_MFull:
  "canonical (MFull cs) \<longleftrightarrow> length cs = 17 \<and> entries cs \<ge> 2 \<and> (\<forall>i < 16. subtrie (cs ! i)) \<and> leaf (cs ! 16)"
proof -
  have "(\<forall>i < 16. subtrie (cs ! i)) \<and> leaf (cs ! 16) \<longleftrightarrow>
      (\<forall>c \<in> set cs. c \<noteq> MNil \<and> \<not> is_MValue c \<longrightarrow> canonical c) \<and> (\<forall>i < 16. \<not> is_MValue (cs ! i)) \<and>
      (case cs ! 16 of MNil \<Rightarrow> True | MValue v \<Rightarrow> v \<noteq> [] | _ \<Rightarrow> False)" (is "?a = ?b")
    if "length cs = 17"
  proof
    assume a: ?a
    have "canonical c" if c: "c \<in> set cs" "c \<noteq> MNil" "\<not> is_MValue c" for c
    proof -
      obtain i where i: "i < 17" "c = cs ! i" using c(1) \<open>length cs = 17\<close> by (metis in_set_conv_nth)
      then have "i < 16 \<or> i = 16" by linarith
      then show ?thesis using a c i by (auto simp: subtrie_def leaf_def split: mpt.splits)
    qed
    moreover have "\<not> is_MValue (cs ! i)" if "i < 16" for i
      using a that by (cases "cs ! i") (auto simp: subtrie_def)
    ultimately show ?b using a by (simp add: leaf_def)
  next
    assume b: ?b
    then show ?a using that by (auto simp: subtrie_def leaf_def)
  qed
  then show ?thesis by auto
qed

lemma canonical_MShort:
  "canonical (MShort k m) \<longleftrightarrow>
     k \<noteq> [] \<and> ((\<exists>v. m = MValue v \<and> v \<noteq> [] \<and> hexkey k) \<or> (\<exists>cs. m = MFull cs \<and> nibbles k \<and> canonical m))"
  by (cases m) auto

declare canonical.simps(3,4) [simp del]

lemma canonical_cases [consumes 1, case_names single path full]:
  assumes "canonical m"
  obtains k v where "m = MShort k (MValue v)" "v \<noteq> []" "hexkey k"
  | k cs where "m = MShort k (MFull cs)" "k \<noteq> []" "nibbles k" "canonical (MFull cs)"
  | cs where "m = MFull cs"
  using assms by (cases m) (auto simp: canonical_MShort)


lemma canonical_not [simp]: "canonical m \<Longrightarrow> m \<noteq> MNil" "canonical m \<Longrightarrow> m \<noteq> MValue v"
  by auto

lemma length_ge_2: "2 \<le> length xs \<Longrightarrow> \<exists>x y r. xs = x # y # r"
  by (cases xs; cases "tl xs") auto

lemma entries_nth:
  assumes "2 \<le> entries cs"
  obtains i j where "i < j" "j < length cs" "cs ! i \<noteq> MNil" "cs ! j \<noteq> MNil"
proof -
  define ix where "ix = filter (\<lambda>i. cs ! i \<noteq> MNil) [0..<length cs]"
  have "map ((!) cs) ix = filter (\<lambda>c. c \<noteq> MNil) (map ((!) cs) [0..<length cs])"
    unfolding ix_def filter_map o_def ..
  then have "filter (\<lambda>c. c \<noteq> MNil) cs = map ((!) cs) ix" by (simp only: map_nth)
  then have "2 \<le> length ix" using assms by (simp add: entries_def)
  then obtain i j r where r: "ix = i # j # r" using length_ge_2 by blast
  have "sorted_wrt (<) ix" unfolding ix_def by (intro sorted_wrt_filter) simp
  then have "i < j" by (simp add: r)
  moreover have "i \<in> set ix" "j \<in> set ix" using r by simp_all
  ultimately show ?thesis using that by (auto simp: ix_def)
qed

subsection \<open>The keys of a canonical trie\<close>

lemma byte_index: "i < 17 \<Longrightarrow> unat (word_of_nat i :: byte) = i"
  by (simp add: unsigned_of_nat take_bit_nat_eq_self)

lemma mget_MFull_nth: "i < 17 \<Longrightarrow> length cs = 17 \<Longrightarrow> mget (MFull cs) (word_of_nat i # key) = mget (cs ! i) key"
  by (simp add: byte_index)

lemma canonical_nonempty: "canonical m \<Longrightarrow> \<exists>key. mget m key \<noteq> None"
proof (induction m)
  case (MShort k m)
  show ?case
  proof (cases m)
    case (MValue v)
    then show ?thesis by (intro exI [of _ k]) simp
  next
    case (MFull cs)
    then obtain key where "mget m key \<noteq> None" using MShort by (auto simp: canonical_MShort)
    then show ?thesis by (intro exI [of _ "k @ key"]) simp
  qed (use MShort.prems in \<open>simp_all add: canonical_MShort\<close>)
next
  case (MFull cs)
  then have c: "length cs = 17" "\<forall>i < 16. subtrie (cs ! i)" "leaf (cs ! 16)" "2 \<le> entries cs" by (simp_all add: canonical_MFull)
  obtain i j where i: "i < j" "j < length cs" "cs ! i \<noteq> MNil" by (rule entries_nth [OF c(4)])
  then have "i < 16" using c(1) by linarith
  then have "canonical (cs ! i)" using c(2) i(3) by (auto simp: subtrie_def)
  then obtain key where "mget (cs ! i) key \<noteq> None" using MFull.IH [of "cs ! i"] i by auto
  then show ?case using i c(1) by (intro exI [of _ "word_of_nat i # key"]) (simp add: byte_index)
qed simp_all

lemma seat_nonempty: "i < 17 \<Longrightarrow> canonical (MFull cs) \<Longrightarrow> cs ! i \<noteq> MNil \<Longrightarrow> \<exists>key. mget (cs ! i) key \<noteq> None"
proof -
  assume a: "i < 17" "canonical (MFull cs)" "cs ! i \<noteq> MNil"
  then consider "i < 16" | "i = 16" by linarith
  then show ?thesis
  proof cases
    case 1
    then show ?thesis using a canonical_nonempty [of "cs ! i"] by (auto simp: canonical_MFull subtrie_def)
  next
    case 2
    then show ?thesis using a by (auto simp: canonical_MFull leaf_def split: mpt.splits)
  qed
qed

lemma canonical_MFull_diverges:
  assumes "canonical (MFull cs)"
  obtains x y kx ky where "x \<noteq> y" "mget (MFull cs) (x # kx) \<noteq> None" "mget (MFull cs) (y # ky) \<noteq> None"
proof -
  have l: "length cs = 17" "2 \<le> entries cs" using assms by (simp_all add: canonical_MFull)
  obtain i j where ij: "i < j" "j < length cs" "cs ! i \<noteq> MNil" "cs ! j \<noteq> MNil" by (rule entries_nth [OF l(2)])
  then have i17: "i < 17" and j17: "j < 17" using l(1) by simp_all
  obtain ki where "mget (cs ! i) ki \<noteq> None" using seat_nonempty [OF i17 assms ij(3)] by blast
  then have ki: "mget (MFull cs) (word_of_nat i # ki) \<noteq> None" by (simp only: mget_MFull_nth [OF i17 l(1)] not_False_eq_True)
  obtain kj where "mget (cs ! j) kj \<noteq> None" using seat_nonempty [OF j17 assms ij(4)] by blast
  then have kj: "mget (MFull cs) (word_of_nat j # kj) \<noteq> None" by (simp only: mget_MFull_nth [OF j17 l(1)] not_False_eq_True)
  have "(word_of_nat i :: byte) \<noteq> word_of_nat j"
    using ij(1) byte_index [OF i17] byte_index [OF j17] by auto
  then show ?thesis using that ki kj by blast
qed

lemma mget_hexkey: "subtrie m \<Longrightarrow> mget m key \<noteq> None \<Longrightarrow> hexkey key"
proof (induction m arbitrary: key)
  case (MShort k m)
  have p: "prefix k key" "mget m (drop (length k) key) \<noteq> None" using MShort.prems by (auto split: if_splits)
  then obtain r where r: "key = k @ r" by (auto elim: prefixE)
  show ?case
    using MShort p r by (auto simp: subtrie_def canonical_MShort hexkey_append split: if_splits)
next
  case (MFull cs)
  obtain x k where x: "key = x # k" "unat x < length cs" "mget (cs ! unat x) k \<noteq> None"
    using MFull.prems by (auto split: list.splits if_splits)
  have c: "length cs = 17" "\<forall>i < 16. subtrie (cs ! i)" "leaf (cs ! 16)" using MFull.prems by (simp_all add: subtrie_def canonical_MFull)
  consider "unat x = 16" | "unat x < 16" using x(2) c(1) by linarith
  then show ?case
  proof cases
    case 1
    then have "x = 16" by (simp add: word_unat_eq_iff)
    then show ?thesis using x c(3) by (auto simp: leaf_def hexkey_Cons split: mpt.splits if_splits)
  next
    case 2
    then have "hexkey k" using MFull.IH [of "cs ! unat x" k] x c by auto
    then show ?thesis using 2 x(1) by (simp add: hexkey_Cons word_less_nat_alt)
  qed
qed (simp_all add: subtrie_def)

subsection \<open>Uniqueness of the canonical form\<close>

declare mget.simps(3,4) [simp del]

lemma mget_MShort_prefix: "mget (MShort k m) key \<noteq> None \<Longrightarrow> prefix k key"
  by (auto simp: mget.simps split: if_splits)

lemma mget_MShort_append [simp]: "mget (MShort k m) (k @ r) = mget m r"
  by (simp add: mget.simps)

lemma mget_single: "mget (MShort k (MValue v)) key = (if key = k then Some v else None)"
  by (auto simp: mget.simps prefix_def)

lemma canonical_path_prefix:
  \<comment> \<open>no key fragment longer than that of the node is common to all keys\<close>
  assumes "canonical (MFull cs)" "\<And>r. mget (MFull cs) r \<noteq> None \<Longrightarrow> prefix p (k @ r)"
  shows "prefix p k"
proof -
  obtain x y kx ky where d: "x \<noteq> y" "mget (MFull cs) (x # kx) \<noteq> None" "mget (MFull cs) (y # ky) \<noteq> None"
    by (rule canonical_MFull_diverges [OF assms(1)])
  then have "prefix p (k @ x # kx)" "prefix p (k @ y # ky)" using assms(2) by blast+
  then show ?thesis using d(1) by (auto simp: prefix_append prefix_Cons)
qed

lemma single_not_branching:
  assumes "canonical (MFull cs)" "\<And>r. mget n (k @ r) = mget (MFull cs) r"
  shows "mget n \<noteq> mget (MShort l (MValue v))"
proof
  assume e: "mget n = mget (MShort l (MValue v))"
  obtain x y kx ky where d: "x \<noteq> y" "mget (MFull cs) (x # kx) \<noteq> None" "mget (MFull cs) (y # ky) \<noteq> None"
    by (rule canonical_MFull_diverges [OF assms(1)])
  then have "k @ x # kx = l" "k @ y # ky = l"
    using assms(2) [of "x # kx"] assms(2) [of "y # ky"] by (auto simp: e mget_single split: if_splits)
  then show False using d(1) by auto
qed

lemma path_not_full:
  assumes "canonical (MFull ds)" "k \<noteq> []"
  shows "mget (MShort k m) \<noteq> mget (MFull ds)"
proof
  assume "mget (MShort k m) = mget (MFull ds)"
  then have "prefix k ([] @ r)" if "mget (MFull ds) r \<noteq> None" for r
    using that mget_MShort_prefix [of k m r] by simp
  then show False using canonical_path_prefix [OF assms(1), of k "[]"] assms(2) by simp
qed

lemma canonical_MFull_children:
  assumes "canonical (MFull cs)" "canonical (MFull ds)" "mget (MFull cs) = mget (MFull ds)"
    and "\<And>c d. c \<in> set cs \<Longrightarrow> subtrie c \<Longrightarrow> subtrie d \<Longrightarrow> mget c = mget d \<Longrightarrow> c = d"
  shows "cs = ds"
proof (rule nth_equalityI)
  show l: "length cs = length ds" using assms(1,2) by (simp add: canonical_MFull)
  fix i
  assume i: "i < length cs"
  have l17: "length cs = 17" "length ds = 17" using assms(1,2) by (simp_all add: canonical_MFull)
  have g: "mget (cs ! i) = mget (ds ! i)"
  proof
    fix key
    show "mget (cs ! i) key = mget (ds ! i) key"
      using fun_cong [OF assms(3), of "word_of_nat i # key"] i l17 by (simp add: mget_MFull_nth)
  qed
  show "cs ! i = ds ! i"
  proof (cases "i = 16")
    case True
    then have "leaf (cs ! i)" "leaf (ds ! i)" using assms(1,2) by (simp_all add: canonical_MFull)
    then show ?thesis using fun_cong [OF g, of "[]"] by (auto simp: leaf_def split: mpt.splits)
  next
    case False
    then have "i < 16" using i l17 by linarith
    then show ?thesis using assms i g by (simp add: canonical_MFull)
  qed
qed

lemma canonical_same_shape [consumes 3, case_names single path full]:
  assumes "canonical m" "canonical n" "mget m = mget n"
  obtains "m = n"
  | k cs ds where "m = MShort k (MFull cs)" "n = MShort k (MFull ds)" "canonical (MFull cs)" "canonical (MFull ds)"
      "mget (MFull cs) = mget (MFull ds)"
  | cs ds where "m = MFull cs" "n = MFull ds"
  using assms(1)
proof (cases rule: canonical_cases)
  case (single k v)
  note m = this
  from assms(2) show ?thesis
  proof (cases rule: canonical_cases)
    case (single l w)
    then show ?thesis using that(1) m fun_cong [OF assms(3), of k] by (auto simp: mget_single split: if_splits)
  next
    case (path l ds)
    then show ?thesis using single_not_branching [of ds n l k v] assms(3) m by simp
  next
    case (full ds)
    then show ?thesis using single_not_branching [of ds n "[]" k v] assms m by simp
  qed
next
  case (path k cs)
  note m = this
  from assms(2) show ?thesis
  proof (cases rule: canonical_cases)
    case (single l w)
    then show ?thesis using single_not_branching [of cs m k l w] assms(3) m by simp
  next
    case (path l ds)
    have "prefix k (l @ r)" if "mget (MFull ds) r \<noteq> None" for r
      using that mget_MShort_prefix [of k "MFull cs" "l @ r"] assms(3) m path by simp
    then have "prefix k l" by (rule canonical_path_prefix [OF path(4)])
    moreover have "prefix l (k @ r)" if "mget (MFull cs) r \<noteq> None" for r
      using that mget_MShort_prefix [of l "MFull ds" "k @ r"] fun_cong [OF assms(3), of "k @ r"] m path by simp
    then have "prefix l k" by (rule canonical_path_prefix [OF m(4)])
    ultimately have "k = l" by (rule prefix_order.antisym)
    moreover have "mget (MFull cs) r = mget (MFull ds) r" for r
      using fun_cong [OF assms(3), of "k @ r"] m path \<open>k = l\<close> by simp
    ultimately show ?thesis using that(2) m path by blast
  next
    case (full ds)
    then show ?thesis using path_not_full [of ds k "MFull cs"] assms m by simp
  qed
next
  case (full cs)
  note m = this
  from assms(2) show ?thesis
  proof (cases rule: canonical_cases)
    case (single l w)
    then show ?thesis using single_not_branching [of cs m "[]" l w] assms m by simp
  next
    case (path l ds)
    then show ?thesis using path_not_full [of cs l "MFull ds"] assms m by simp
  next
    case (full ds)
    then show ?thesis using that(3) m by blast
  qed
qed

lemma subtrie_empty: "subtrie n \<Longrightarrow> mget n = mget MNil \<Longrightarrow> n = MNil"
  using canonical_nonempty [of n] by (auto simp: subtrie_def)

lemma canonical_unique: "subtrie m \<Longrightarrow> subtrie n \<Longrightarrow> mget m = mget n \<Longrightarrow> m = n"
proof (induction m arbitrary: n)
  case MNil
  then show ?case using subtrie_empty [of n] by metis
next
  case (MShort k m)
  have "canonical (MShort k m)" "canonical n"
    using MShort.prems subtrie_empty [of "MShort k m"] by (auto simp: subtrie_def)
  then show ?case
    using MShort.prems(3)
  proof (cases rule: canonical_same_shape)
    case (path l cs ds)
    then show ?thesis using MShort.IH [of "MFull ds"] by (simp add: subtrie_def)
  qed simp_all
next
  case (MFull cs)
  have c: "canonical (MFull cs)" "canonical n"
    using MFull.prems subtrie_empty [of "MFull cs"] by (auto simp: subtrie_def)
  then show ?case
    using MFull.prems(3)
  proof (cases rule: canonical_same_shape)
    case (full cs' ds)
    then show ?thesis using canonical_MFull_children [of cs ds] c MFull by auto
  qed simp_all
qed (simp add: subtrie_def)

end
