(* ===== verification/Trie_Node.thy ===== *)
theory Trie_Node
  imports Trie_Encoding
begin

text \<open>
  The nodes of the Merkle Patricia trie (\<open>src/core/trie/node.go\<close>): full nodes with 17 children, short nodes
  with a key fragment, references by hash to nodes that are not loaded, and values. The nil interface is
  \<open>NilNode\<close>. Nodes are encoded through the RLP writer; \<open>decodeNode\<close> parses the stored form, with the
  nesting of embedded nodes as fuel. Decoding is proved to return on every input with fuel above the length
  of the buffer, and to panic only where the source indexes an empty slice.
\<close>

subsection \<open>Nodes: node.go\<close>

record nodeFlag =
  nf_hash :: "bytes option"
  nf_gen :: "16 word"
  nf_dirty :: bool

datatype node =
    NilNode
  | FullNode "node list" nodeFlag
  | ShortNode bytes node nodeFlag
  | HashNode bytes
  | ValueNode bytes

definition canUnload_flag :: "nodeFlag \<Rightarrow> 16 word \<Rightarrow> 16 word \<Rightarrow> bool" where
  "canUnload_flag fl cachegen cachelimit \<longleftrightarrow> \<not> nf_dirty fl \<and> cachegen - nf_gen fl \<ge> cachelimit"

fun canUnload :: "node \<Rightarrow> 16 word \<Rightarrow> 16 word \<Rightarrow> bool" where
  "canUnload (FullNode _ fl) cachegen cachelimit = canUnload_flag fl cachegen cachelimit"
| "canUnload (ShortNode _ _ fl) cachegen cachelimit = canUnload_flag fl cachegen cachelimit"
| "canUnload _ _ _ = False"

fun node_cache :: "node \<Rightarrow> (bytes option \<times> bool) outcome" where
  \<comment> \<open>the call on the nil interface panics\<close>
  "node_cache (FullNode _ fl) = Done (nf_hash fl, nf_dirty fl)"
| "node_cache (ShortNode _ _ fl) = Done (nf_hash fl, nf_dirty fl)"
| "node_cache (HashNode _) = Done (None, True)"
| "node_cache (ValueNode _) = Done (None, True)"
| "node_cache NilNode = Panic"

fun node_rlp :: "node \<Rightarrow> rlp_value" where
  \<comment> \<open>what the RLP writer sees: the exported fields of a short node, the children of a full node\<close>
  "node_rlp NilNode = VList []"
| "node_rlp (FullNode cs _) = VList (map node_rlp cs)"
| "node_rlp (ShortNode k v _) = VList [VBytes k, node_rlp v]"
| "node_rlp (HashNode h) = VBytes h"
| "node_rlp (ValueNode v) = VBytes v"

subsection \<open>Decoding: node.go\<close>

datatype decode_cause =
    ErrNodeEOF | ErrNodeRlp rlp_error | ErrElementCount nat | ErrInvalidValueNode rlp_error
  | ErrOversized nat | ErrStringSize nat

datatype decode_context = InShort | InFull | InVal | InChild nat

type_synonym decodeError = "decode_cause \<times> decode_context list"

fun wrapError :: "decodeError \<Rightarrow> decode_context \<Rightarrow> decodeError" where
  "wrapError (what, stack) ctx = (what, stack @ [ctx])"

type_synonym decoder = "bytes option \<Rightarrow> bytes \<Rightarrow> (decodeError + node) outcome"

definition hashLen :: nat where "hashLen = 32"

definition decodeRef :: "decoder \<Rightarrow> bytes \<Rightarrow> (decodeError + node \<times> bytes) outcome" where
  "decodeRef dec buf =
     obind (Split buf)
       (\<lambda>r. case r of
          Inl e \<Rightarrow> Done (Inl (ErrNodeRlp e, []))
        | Inr (kind, val, rest) \<Rightarrow>
            if kind = KList
            then (let sz = length buf - length rest
                  in if sz > hashLen then Done (Inl (ErrOversized sz, []))
                     else obind (dec None buf)
                       (\<lambda>r. Done (case r of Inl e \<Rightarrow> Inl e | Inr n \<Rightarrow> Inr (n, rest))))
            else if kind = KString \<and> length val = 0 then Done (Inr (NilNode, rest))
            else if kind = KString \<and> length val = 32 then Done (Inr (HashNode val, rest))
            else Done (Inl (ErrStringSize (length val), [])))"

definition decodeShort :: "decoder \<Rightarrow> 16 word \<Rightarrow> bytes option \<Rightarrow> bytes \<Rightarrow> (decodeError + node) outcome" where
  "decodeShort dec cachegen hash elems =
     obind (SplitString elems)
       (\<lambda>r. case r of
          Inl e \<Rightarrow> Done (Inl (ErrNodeRlp e, []))
        | Inr (kbuf, rest) \<Rightarrow>
            (let flag = \<lparr>nf_hash = hash, nf_gen = cachegen, nf_dirty = False\<rparr>
             in obind (compactToHex kbuf)
               (\<lambda>key.
                  if hasTerm key
                  then obind (SplitString rest)
                    (\<lambda>r. Done (case r of
                       Inl e \<Rightarrow> Inl (ErrInvalidValueNode e, [])
                     | Inr (val, _) \<Rightarrow> Inr (ShortNode key (ValueNode val) flag)))
                  else obind (decodeRef dec rest)
                    (\<lambda>r. Done (case r of
                       Inl e \<Rightarrow> Inl (wrapError e InVal)
                     | Inr (n, _) \<Rightarrow> Inr (ShortNode key n flag))))))"

fun decodeFull_loop :: "decoder \<Rightarrow> nat \<Rightarrow> bytes \<Rightarrow> (decodeError + node list \<times> bytes) outcome" where
  \<comment> \<open>\<open>k\<close> children are still to be read\<close>
  "decodeFull_loop dec 0 elems = Done (Inr ([], elems))"
| "decodeFull_loop dec (Suc k) elems =
     obind (decodeRef dec elems)
       (\<lambda>r. case r of
          Inl e \<Rightarrow> Done (Inl (wrapError e (InChild (15 - k))))
        | Inr (cld, rest) \<Rightarrow>
            obind (decodeFull_loop dec k rest)
              (\<lambda>r. Done (case r of Inl e \<Rightarrow> Inl e | Inr (cs, rest') \<Rightarrow> Inr (cld # cs, rest'))))"

definition decodeFull :: "decoder \<Rightarrow> 16 word \<Rightarrow> bytes option \<Rightarrow> bytes \<Rightarrow> (decodeError + node) outcome" where
  "decodeFull dec cachegen hash elems =
     obind (decodeFull_loop dec 16 elems)
       (\<lambda>r. case r of
          Inl e \<Rightarrow> Done (Inl e)
        | Inr (cs, rest) \<Rightarrow>
            obind (SplitString rest)
              (\<lambda>r. Done (case r of
                 Inl e \<Rightarrow> Inl (ErrNodeRlp e, [])
               | Inr (val, _) \<Rightarrow>
                   Inr (FullNode (cs @ [if length val > 0 then ValueNode val else NilNode])
                     \<lparr>nf_hash = hash, nf_gen = cachegen, nf_dirty = False\<rparr>))))"

fun decodeNode :: "nat \<Rightarrow> 16 word \<Rightarrow> bytes option \<Rightarrow> bytes \<Rightarrow> (decodeError + node) outcome" where
  "decodeNode 0 cachegen hash buf = OutOfFuel"
| "decodeNode (Suc fuel) cachegen hash buf =
     (if length buf = 0 then Done (Inl (ErrNodeEOF, []))
      else obind (SplitList buf)
        (\<lambda>r. case r of
           Inl e \<Rightarrow> Done (Inl (ErrNodeRlp e, []))
         | Inr (elems, _) \<Rightarrow>
             obind (CountValues elems)
               (\<lambda>r. let c = (case r of Inl _ \<Rightarrow> 0 | Inr c \<Rightarrow> c); wrap = (\<lambda>ctx r. case r of Inl e \<Rightarrow> Inl (wrapError e ctx) | Inr n \<Rightarrow> Inr n)
                  in if c = 2
                     then obind (decodeShort (decodeNode fuel cachegen) cachegen hash elems) (\<lambda>r. Done (wrap InShort r))
                     else if c = 17
                     then obind (decodeFull (decodeNode fuel cachegen) cachegen hash elems) (\<lambda>r. Done (wrap InFull r))
                     else Done (Inl (ErrElementCount c, [])))))"

definition mustDecodeNode :: "bytes \<Rightarrow> bytes \<Rightarrow> 16 word \<Rightarrow> node outcome" where
  "mustDecodeNode hash buf cachegen =
     obind (decodeNode (Suc (length buf)) cachegen (Some hash) buf) (\<lambda>r. case r of Inl _ \<Rightarrow> Panic | Inr n \<Rightarrow> Done n)"

subsection \<open>Decoding returns\<close>

lemma Split_shorter:
  assumes "Split b = Done (Inr (k, c, rest))"
  shows "length c \<le> length b \<and> length rest < length b" "k = KList \<Longrightarrow> length c < length b"
proof -
  obtain ts cs where r: "readKind b = Done (Inr (k, ts, cs))" "c = take cs (drop ts b)" "rest = drop (ts + cs) b"
    using readKind_of_Split [OF assms] .
  then show "length c \<le> length b \<and> length rest < length b"
    using readKind_progress(1) [OF r(1)] by auto
  show "length c < length b" if "k = KList"
  proof -
    have "0 < ts"
      using r(1) that by (auto simp: readKind_def Let_def split: list.splits if_splits sum.splits)
    then show ?thesis using r readKind_progress(1) [OF r(1)] by (cases b) auto
  qed
qed

lemma Split_no_fuel: "Split b \<noteq> OutOfFuel" "SplitString b \<noteq> OutOfFuel" "SplitList b \<noteq> OutOfFuel"
proof -
  show s: "Split b \<noteq> OutOfFuel"
    using readKind_progress(2) [of b] by (cases "readKind b") (auto simp: Split_def)
  then show "SplitString b \<noteq> OutOfFuel" "SplitList b \<noteq> OutOfFuel"
    by (cases "Split b"; simp add: SplitString_def SplitList_def)+
qed

lemma SplitList_Split: "SplitList b = Done (Inr (c, rest)) \<longleftrightarrow> Split b = Done (Inr (KList, c, rest))"
  by (cases "Split b") (auto simp: SplitList_def split: sum.splits if_splits prod.splits)

lemma SplitString_Split:
  "SplitString b = Done (Inr (c, rest)) \<longleftrightarrow> (\<exists>k. k \<noteq> KList \<and> Split b = Done (Inr (k, c, rest)))"
  by (cases "Split b") (auto simp: SplitString_def split: sum.splits if_splits prod.splits)

lemma obind_OutOfFuel_iff: "obind m f = OutOfFuel \<longleftrightarrow> m = OutOfFuel \<or> (\<exists>x. m = Done x \<and> f x = OutOfFuel)"
  by (cases m) auto

lemma decodeRef_no_fuel:
  "(\<And>h b. length b \<le> length buf \<Longrightarrow> dec h b \<noteq> OutOfFuel) \<Longrightarrow> decodeRef dec buf \<noteq> OutOfFuel"
  by (auto simp: decodeRef_def Let_def obind_OutOfFuel_iff Split_no_fuel split: sum.splits if_splits)

lemma decodeRef_shorter: "decodeRef dec buf = Done (Inr (n, rest)) \<Longrightarrow> length rest < length buf"
  by (auto simp: decodeRef_def Let_def split_sum_ex split: if_split_asm dest!: Split_shorter(1))

lemma decodeFull_loop_no_fuel:
  "(\<And>h b. length b \<le> length elems \<Longrightarrow> dec h b \<noteq> OutOfFuel) \<Longrightarrow> decodeFull_loop dec k elems \<noteq> OutOfFuel"
proof (induction k arbitrary: elems)
  case (Suc k)
  have "decodeFull_loop dec k rest \<noteq> OutOfFuel" if "decodeRef dec elems = Done (Inr (n, rest))" for n rest
    using Suc.prems decodeRef_shorter [OF that] by (intro Suc.IH) simp
  then show ?case
    using decodeRef_no_fuel [OF Suc.prems] by (auto simp: obind_OutOfFuel_iff split: sum.splits)
qed simp

lemma compactToHex_no_fuel: "compactToHex c \<noteq> OutOfFuel"
  by (auto simp: compactToHex_def Let_def split: list.splits)

lemma decodeShort_no_fuel:
  assumes "\<And>h b. length b \<le> length elems \<Longrightarrow> dec h b \<noteq> OutOfFuel"
  shows "decodeShort dec g hash elems \<noteq> OutOfFuel"
proof -
  have "decodeRef dec rest \<noteq> OutOfFuel" if "SplitString elems = Done (Inr (kbuf, rest))" for kbuf rest
    using that assms by (intro decodeRef_no_fuel) (auto simp: SplitString_Split dest!: Split_shorter(1))
  then show ?thesis
    by (auto simp: decodeShort_def Let_def obind_OutOfFuel_iff Split_no_fuel compactToHex_no_fuel
        split: sum.splits if_splits)
qed

lemma decodeFull_no_fuel:
  assumes "\<And>h b. length b \<le> length elems \<Longrightarrow> dec h b \<noteq> OutOfFuel"
  shows "decodeFull dec g hash elems \<noteq> OutOfFuel"
  using decodeFull_loop_no_fuel [OF assms]
  by (auto simp: decodeFull_def obind_OutOfFuel_iff Split_no_fuel split: sum.splits)

lemma decodeNode_returns: "length buf < fuel \<Longrightarrow> decodeNode fuel g hash buf \<noteq> OutOfFuel"
proof (induction fuel arbitrary: hash buf)
  case (Suc fuel)
  have "decodeNode fuel g h b \<noteq> OutOfFuel"
    if "SplitList buf = Done (Inr (elems, rest))" "length b \<le> length elems" for elems rest h b
    using that Suc Split_shorter(2) [of buf KList elems rest] by (auto simp: SplitList_Split)
  then show ?case
    by (auto simp: Let_def CountValues_def obind_OutOfFuel_iff Split_no_fuel CountValues_loop_returns
        decodeShort_no_fuel decodeFull_no_fuel split: sum.splits if_splits)
qed simp

lemma decodeShort_loaded: "decodeShort dec g hash elems = Done (Inr n) \<Longrightarrow> \<exists>k v fl. n = ShortNode k v fl"
  by (auto simp: decodeShort_def Let_def split_sum_ex split: if_split_asm)

lemma decodeFull_loaded: "decodeFull dec g hash elems = Done (Inr n) \<Longrightarrow> \<exists>cs fl. n = FullNode cs fl"
  by (auto simp: decodeFull_def split_sum_ex)

lemma decodeNode_loaded:
  assumes "decodeNode fuel g hash buf = Done (Inr n)"
  shows "(\<exists>k v fl. n = ShortNode k v fl) \<or> (\<exists>cs fl. n = FullNode cs fl)"
proof (cases fuel)
  case (Suc f)
  obtain elems rest where "SplitList buf = Done (Inr (elems, rest))"
    using assms Suc by (auto simp: split_sum_ex split: if_split_asm)
  then obtain r where r: "CountValues elems = Done r"
      "decodeShort (decodeNode f g) g hash elems = Done (Inr n) \<or> decodeFull (decodeNode f g) g hash elems = Done (Inr n)"
    using assms Suc by (auto simp: Let_def split_sum_ex split: if_split_asm)
  then show ?thesis using decodeShort_loaded decodeFull_loaded by blast
qed (use assms in simp)

end
