(* ===== verification/Trie_Ops.thy ===== *)
theory Trie_Ops
  imports Trie_Node "HOL-Library.AList"
begin

text \<open>
  The operations of the trie (\<open>src/core/trie/trie.go\<close>) on nodes that are loaded on demand from the node
  database (\<open>src/core/trie/database.go\<close>). A trie holds a pointer to its database, which other tries share;
  here the database is an argument. Every recursion takes fuel, because a corrupt database can refer to
  itself; the parameter \<open>diskdb\<close> is the key-value store behind the cache.
\<close>

subsection \<open>The node database: database.go\<close>

record cachedNode =
  cn_blob :: "bytes option"
  cn_parents :: int
  cn_children :: "(Hash \<times> int) list"

record TrieDatabase =
  diskdb :: "bytes \<rightharpoonup> bytes"
  db_nodes :: "Hash \<rightharpoonup> cachedNode"
  db_preimages :: "Hash \<rightharpoonup> bytes"

definition NewDatabase :: "(bytes \<rightharpoonup> bytes) \<Rightarrow> TrieDatabase" where
  "NewDatabase disk =
     \<lparr>diskdb = disk, db_nodes = [0 \<mapsto> \<lparr>cn_blob = None, cn_parents = 0, cn_children = []\<rparr>], db_preimages = Map.empty\<rparr>"

definition db_insert :: "Hash \<Rightarrow> bytes \<Rightarrow> TrieDatabase \<Rightarrow> TrieDatabase" where
  "db_insert hash blob db =
     (if db_nodes db hash \<noteq> None then db
      else db\<lparr>db_nodes := (db_nodes db)(hash \<mapsto> \<lparr>cn_blob = Some blob, cn_parents = 0, cn_children = []\<rparr>)\<rparr>)"

definition insertPreimage :: "Hash \<Rightarrow> bytes \<Rightarrow> TrieDatabase \<Rightarrow> TrieDatabase" where
  "insertPreimage hash pre db =
     (if db_preimages db hash \<noteq> None then db else db\<lparr>db_preimages := (db_preimages db)(hash \<mapsto> pre)\<rparr>)"

definition Node :: "TrieDatabase \<Rightarrow> Hash \<Rightarrow> bytes option" where
  \<comment> \<open>\<open>None\<close>: no blob, or an error of the store\<close>
  "Node db hash = (case db_nodes db hash of Some n \<Rightarrow> cn_blob n | None \<Rightarrow> diskdb db (Hash_Bytes hash))"

definition secureKeyPrefix :: bytes where
  "secureKeyPrefix = map (\<lambda>c. word_of_nat (of_char c)) ''secure-key-''"

definition secureKey :: "bytes \<Rightarrow> bytes" where
  "secureKey key = secureKeyPrefix @ key"

definition db_preimage :: "TrieDatabase \<Rightarrow> Hash \<Rightarrow> bytes option" where
  "db_preimage db hash =
     (case db_preimages db hash of Some p \<Rightarrow> Some p | None \<Rightarrow> diskdb db (secureKey (Hash_Bytes hash)))"

definition db_reference :: "Hash \<Rightarrow> Hash \<Rightarrow> TrieDatabase \<Rightarrow> TrieDatabase outcome" where
  "db_reference child parent db =
     (case db_nodes db child of
        None \<Rightarrow> Done db
      | Some n \<Rightarrow>
          (case db_nodes db parent of
             None \<Rightarrow> Panic
           | Some p \<Rightarrow>
               if map_of (cn_children p) child \<noteq> None \<and> parent \<noteq> 0 then Done db
               else
                 (let nodes1 = (db_nodes db)(child \<mapsto> n\<lparr>cn_parents := cn_parents n + 1\<rparr>);
                      p1 = the (nodes1 parent);
                      count = (case map_of (cn_children p1) child of None \<Rightarrow> 0 | Some c \<Rightarrow> c)
                  in Done (db\<lparr>db_nodes := nodes1(parent \<mapsto> p1\<lparr>cn_children := AList.update child (count + 1) (cn_children p1)\<rparr>)\<rparr>))))"

subsection \<open>Tries: trie.go\<close>

record Trie =
  tr_root :: node
  tr_originalRoot :: Hash
  tr_cachegen :: "16 word"
  tr_cachelimit :: "16 word"

datatype trie_error = MissingNodeError Hash bytes

definition emptyRoot :: Hash where
  "emptyRoot = 0x56e81f171bcc55a6ff8345e692c0f86e5b48e01b996cadc001622fb5e363b421"

definition SetCacheLimit :: "16 word \<Rightarrow> Trie \<Rightarrow> Trie" where
  "SetCacheLimit l t = t\<lparr>tr_cachelimit := l\<rparr>"

definition newFlag :: "Trie \<Rightarrow> nodeFlag" where
  "newFlag t = \<lparr>nf_hash = None, nf_gen = tr_cachegen t, nf_dirty = True\<rparr>"

definition resolveHash :: "TrieDatabase \<Rightarrow> Trie \<Rightarrow> bytes \<Rightarrow> bytes \<Rightarrow> (trie_error + node) outcome" where
  "resolveHash db t n prfx =
     (let hash = BytesToHash n
      in case Node db hash of
           None \<Rightarrow> Done (Inl (MissingNodeError hash prfx))
         | Some enc \<Rightarrow> obind (mustDecodeNode n enc (tr_cachegen t)) (\<lambda>c. Done (Inr c)))"

definition resolve :: "TrieDatabase \<Rightarrow> Trie \<Rightarrow> node \<Rightarrow> bytes \<Rightarrow> (trie_error + node) outcome" where
  "resolve db t n prfx = (case n of HashNode h \<Rightarrow> resolveHash db t h prfx | _ \<Rightarrow> Done (Inr n))"

definition Trie_New :: "Hash \<Rightarrow> TrieDatabase \<Rightarrow> (trie_error + Trie) outcome" where
  "Trie_New root db =
     (let t = \<lparr>tr_root = NilNode, tr_originalRoot = root, tr_cachegen = 0, tr_cachelimit = 0\<rparr>
      in if root \<noteq> 0 \<and> root \<noteq> emptyRoot
         then obind (resolveHash db t (Hash_Bytes root) [])
           (\<lambda>r. Done (case r of Inl e \<Rightarrow> Inl e | Inr rootnode \<Rightarrow> Inr (t\<lparr>tr_root := rootnode\<rparr>)))
         else Done (Inr t))"

definition child_at :: "node list \<Rightarrow> byte \<Rightarrow> node outcome" where
  \<comment> \<open>\<open>n.Children[i]\<close>, with the bounds check of the array\<close>
  "child_at cs i = (if unat i < length cs then Done (cs ! unat i) else Panic)"

definition set_child :: "node list \<Rightarrow> byte \<Rightarrow> node \<Rightarrow> node list outcome" where
  "set_child cs i c = (if unat i < length cs then Done (cs[unat i := c]) else Panic)"

fun tryGet :: "nat \<Rightarrow> TrieDatabase \<Rightarrow> Trie \<Rightarrow> node \<Rightarrow> bytes \<Rightarrow> nat \<Rightarrow> (bytes option \<times> node \<times> bool \<times> trie_error option) outcome" where
  "tryGet 0 db t origNode key pos = OutOfFuel"
| "tryGet (Suc fuel) db t origNode key pos =
     (case origNode of
        NilNode \<Rightarrow> Done (None, NilNode, False, None)
      | ValueNode n \<Rightarrow> Done (Some n, ValueNode n, False, None)
      | ShortNode k val fl \<Rightarrow>
          if length key < pos + length k \<or> k \<noteq> take (length k) (drop pos key)
          then Done (None, origNode, False, None)
          else obind (tryGet fuel db t val key (pos + length k))
            (\<lambda>(v, newnode, didResolve, err).
               if err = None \<and> didResolve
               then Done (v, ShortNode k newnode (fl\<lparr>nf_gen := tr_cachegen t\<rparr>), didResolve, err)
               else Done (v, origNode, didResolve, err))
      | FullNode cs fl \<Rightarrow>
          if pos \<ge> length key then Panic
          else obind (child_at cs (key ! pos))
            (\<lambda>c. obind (tryGet fuel db t c key (pos + 1))
              (\<lambda>(v, newnode, didResolve, err).
                 if err = None \<and> didResolve
                 then obind (set_child cs (key ! pos) newnode)
                   (\<lambda>cs'. Done (v, FullNode cs' (fl\<lparr>nf_gen := tr_cachegen t\<rparr>), didResolve, err))
                 else Done (v, origNode, didResolve, err)))
      | HashNode h \<Rightarrow>
          obind (resolveHash db t h (take pos key))
            (\<lambda>r. case r of
               Inl err \<Rightarrow> Done (None, origNode, True, Some err)
             | Inr child \<Rightarrow>
                 obind (tryGet fuel db t child key pos) (\<lambda>(v, newnode, _, err). Done (v, newnode, True, err))))"

definition Trie_TryGet :: "nat \<Rightarrow> TrieDatabase \<Rightarrow> bytes \<Rightarrow> Trie \<Rightarrow> (Trie \<times> bytes option \<times> trie_error option) outcome" where
  "Trie_TryGet fuel db key t =
     obind (tryGet fuel db t (tr_root t) (keybytesToHex key) 0)
       (\<lambda>(v, newroot, didResolve, err).
          Done (if err = None \<and> didResolve then t\<lparr>tr_root := newroot\<rparr> else t, v, err))"

definition Get :: "nat \<Rightarrow> TrieDatabase \<Rightarrow> bytes \<Rightarrow> Trie \<Rightarrow> (Trie \<times> bytes option) outcome" where
  \<comment> \<open>the error is only logged\<close>
  "Get fuel db key t = obind (Trie_TryGet fuel db key t) (\<lambda>(t', res, err). Done (t', res))"

fun insert_node :: "nat \<Rightarrow> TrieDatabase \<Rightarrow> Trie \<Rightarrow> node \<Rightarrow> bytes \<Rightarrow> bytes \<Rightarrow> node \<Rightarrow> (bool \<times> node \<times> trie_error option) outcome" where
  "insert_node 0 db t n prfx key val = OutOfFuel"
| "insert_node (Suc fuel) db t n prfx key val =
     (if length key = 0
      then (case n of
              ValueNode v \<Rightarrow> (case val of ValueNode w \<Rightarrow> Done (v \<noteq> w, val, None) | _ \<Rightarrow> Panic)
            | _ \<Rightarrow> Done (True, val, None))
      else
        (case n of
           ShortNode k v fl \<Rightarrow>
             (let matchlen = prefixLen key k
              in if matchlen = length k
                 then obind (insert_node fuel db t v (prfx @ take matchlen key) (drop matchlen key) val)
                   (\<lambda>(dirty, nn, err).
                      if \<not> dirty \<or> err \<noteq> None then Done (False, n, err)
                      else Done (True, ShortNode k nn (newFlag t), None))
                 else obind (insert_node fuel db t NilNode (prfx @ take (matchlen + 1) k) (drop (matchlen + 1) k) v)
                   (\<lambda>(_, c1, err).
                      if err \<noteq> None then Done (False, NilNode, err)
                      else obind (set_child (replicate 17 NilNode) (k ! matchlen) c1)
                        (\<lambda>cs1.
                           if matchlen \<ge> length key then Panic
                           else obind (insert_node fuel db t NilNode (prfx @ take (matchlen + 1) key) (drop (matchlen + 1) key) val)
                             (\<lambda>(_, c2, err).
                                if err \<noteq> None then Done (False, NilNode, err)
                                else obind (set_child cs1 (key ! matchlen) c2)
                                  (\<lambda>cs2.
                                     let branch = FullNode cs2 (newFlag t)
                                     in if matchlen = 0 then Done (True, branch, None)
                                        else Done (True, ShortNode (take matchlen key) branch (newFlag t), None))))))
         | FullNode cs fl \<Rightarrow>
             obind (child_at cs (key ! 0))
               (\<lambda>c. obind (insert_node fuel db t c (prfx @ [key ! 0]) (drop 1 key) val)
                 (\<lambda>(dirty, nn, err).
                    if \<not> dirty \<or> err \<noteq> None then Done (False, n, err)
                    else obind (set_child cs (key ! 0) nn) (\<lambda>cs'. Done (True, FullNode cs' (newFlag t), None))))
         | NilNode \<Rightarrow> Done (True, ShortNode key val (newFlag t), None)
         | HashNode h \<Rightarrow>
             obind (resolveHash db t h prfx)
               (\<lambda>r. case r of
                  Inl err \<Rightarrow> Done (False, NilNode, Some err)
                | Inr rn \<Rightarrow>
                    obind (insert_node fuel db t rn prfx key val)
                      (\<lambda>(dirty, nn, err).
                         if \<not> dirty \<or> err \<noteq> None then Done (False, rn, err) else Done (True, nn, None)))
         | ValueNode _ \<Rightarrow> Panic))"

fun single_child :: "node list \<Rightarrow> nat \<Rightarrow> int \<Rightarrow> int" where
  \<comment> \<open>the loop of \<open>delete\<close>: the index of the only entry that is not nil, or -2\<close>
  "single_child [] i pos = pos"
| "single_child (cld # cs) i pos =
     (if cld \<noteq> NilNode then (if pos = -1 then single_child cs (i + 1) (int i) else -2)
      else single_child cs (i + 1) pos)"

definition concat_keys :: "bytes \<Rightarrow> bytes \<Rightarrow> bytes" where
  "concat_keys s1 s2 = s1 @ s2"

definition reduce :: "TrieDatabase \<Rightarrow> Trie \<Rightarrow> bytes \<Rightarrow> node list \<Rightarrow> (bool \<times> node \<times> trie_error option) outcome" where
  \<comment> \<open>the end of the case of full nodes: the node is replaced when a single entry is left\<close>
  "reduce db t prfx cs =
     (let pos = single_child cs 0 (-1)
      in if pos \<ge> 0
         then (let short = (True, ShortNode [word_of_int pos] (cs ! nat pos) (newFlag t), None)
               in if pos \<noteq> 16
                  then obind (resolve db t (cs ! nat pos) prfx)
                    (\<lambda>r. case r of
                       Inl err \<Rightarrow> Done (False, NilNode, Some err)
                     | Inr (ShortNode ck cv _) \<Rightarrow> Done (True, ShortNode (word_of_int pos # ck) cv (newFlag t), None)
                     | Inr _ \<Rightarrow> Done short)
                  else Done short)
         else Done (True, FullNode cs (newFlag t), None))"

fun delete_node :: "nat \<Rightarrow> TrieDatabase \<Rightarrow> Trie \<Rightarrow> node \<Rightarrow> bytes \<Rightarrow> bytes \<Rightarrow> (bool \<times> node \<times> trie_error option) outcome" where
  "delete_node 0 db t n prfx key = OutOfFuel"
| "delete_node (Suc fuel) db t n prfx key =
     (case n of
        ShortNode k v fl \<Rightarrow>
          (let matchlen = prefixLen key k
           in if matchlen < length k then Done (False, n, None)
              else if matchlen = length key then Done (True, NilNode, None)
              else obind (delete_node fuel db t v (prfx @ take (length k) key) (drop (length k) key))
                (\<lambda>(dirty, child, err).
                   if \<not> dirty \<or> err \<noteq> None then Done (False, n, err)
                   else (case child of
                           ShortNode ck cv _ \<Rightarrow> Done (True, ShortNode (concat_keys k ck) cv (newFlag t), None)
                         | _ \<Rightarrow> Done (True, ShortNode k child (newFlag t), None))))
      | FullNode cs fl \<Rightarrow>
          if key = [] then Panic
          else obind (child_at cs (key ! 0))
            (\<lambda>c. obind (delete_node fuel db t c (prfx @ [key ! 0]) (drop 1 key))
              (\<lambda>(dirty, nn, err).
                 if \<not> dirty \<or> err \<noteq> None then Done (False, n, err)
                 else obind (set_child cs (key ! 0) nn) (reduce db t prfx)))
      | ValueNode _ \<Rightarrow> Done (True, NilNode, None)
      | NilNode \<Rightarrow> Done (False, NilNode, None)
      | HashNode h \<Rightarrow>
          obind (resolveHash db t h prfx)
            (\<lambda>r. case r of
               Inl err \<Rightarrow> Done (False, NilNode, Some err)
             | Inr rn \<Rightarrow>
                 obind (delete_node fuel db t rn prfx key)
                   (\<lambda>(dirty, nn, err).
                      if \<not> dirty \<or> err \<noteq> None then Done (False, rn, err) else Done (True, nn, None))))"

definition Trie_TryDelete :: "nat \<Rightarrow> TrieDatabase \<Rightarrow> bytes \<Rightarrow> Trie \<Rightarrow> (Trie \<times> trie_error option) outcome" where
  "Trie_TryDelete fuel db key t =
     obind (delete_node fuel db t (tr_root t) [] (keybytesToHex key))
       (\<lambda>(_, n, err). Done (if err \<noteq> None then t else t\<lparr>tr_root := n\<rparr>, err))"

definition Trie_TryUpdate :: "nat \<Rightarrow> TrieDatabase \<Rightarrow> bytes \<Rightarrow> bytes \<Rightarrow> Trie \<Rightarrow> (Trie \<times> trie_error option) outcome" where
  "Trie_TryUpdate fuel db key val t =
     (let k = keybytesToHex key
      in if length val \<noteq> 0
         then obind (insert_node fuel db t (tr_root t) [] k (ValueNode val))
           (\<lambda>(_, n, err). Done (if err \<noteq> None then t else t\<lparr>tr_root := n\<rparr>, err))
         else obind (delete_node fuel db t (tr_root t) [] k)
           (\<lambda>(_, n, err). Done (if err \<noteq> None then t else t\<lparr>tr_root := n\<rparr>, err)))"

definition Update :: "nat \<Rightarrow> TrieDatabase \<Rightarrow> bytes \<Rightarrow> bytes \<Rightarrow> Trie \<Rightarrow> Trie outcome" where
  "Update fuel db key val t = obind (Trie_TryUpdate fuel db key val t) (\<lambda>(t', _). Done t')"

definition Delete :: "nat \<Rightarrow> TrieDatabase \<Rightarrow> bytes \<Rightarrow> Trie \<Rightarrow> Trie outcome" where
  "Delete fuel db key t = obind (Trie_TryDelete fuel db key t) (\<lambda>(t', _). Done t')"

end
