(* ===== verification/Trie_Repr.thy ===== *)
theory Trie_Repr
  imports Trie_Map Trie_Ops
begin

text \<open>
  The relation between the nodes of a trie in memory and the abstract trie they stand for. \<open>menc\<close> is the
  Merkle encoding of an abstract trie: children whose encoding has at least 32 bytes are replaced by their
  hash. \<open>stored\<close> says that the database holds the encoding of a node and of everything below it that is
  referred to by hash, and \<open>repr\<close> relates a node, partly loaded and with cached hashes, to its abstract trie.
  The main lemma is that decoding a stored encoding gives a node that represents the same trie. The hash
  function is the parameter \<open>K\<close>.
\<close>

subsection \<open>Merkle encoding of an abstract trie\<close>

definition compact :: "bytes \<Rightarrow> bytes" where
  "compact k = (case hexToCompact k of Done c \<Rightarrow> c | _ \<Rightarrow> [])"

definition ref_of :: "(bytes \<Rightarrow> Hash) \<Rightarrow> mpt \<Rightarrow> rlp_value \<Rightarrow> rlp_value" where
  "ref_of K m v =
     (case m of MNil \<Rightarrow> v | MValue _ \<Rightarrow> v
      | _ \<Rightarrow> if length (encoding v) < 32 then v else VBytes (Hash_Bytes (K (encoding v))))"

fun mval :: "(bytes \<Rightarrow> Hash) \<Rightarrow> mpt \<Rightarrow> rlp_value" where
  "mval K MNil = VBytes []"
| "mval K (MValue v) = VBytes v"
| "mval K (MShort k m) = VList [VBytes (compact k), ref_of K m (mval K m)]"
| "mval K (MFull cs) = VList (map (\<lambda>c. ref_of K c (mval K c)) cs)"

definition mref :: "(bytes \<Rightarrow> Hash) \<Rightarrow> mpt \<Rightarrow> rlp_value" where
  "mref K m = ref_of K m (mval K m)"

definition menc :: "(bytes \<Rightarrow> Hash) \<Rightarrow> mpt \<Rightarrow> bytes" where
  "menc K m = encoding (mval K m)"

definition mhash :: "(bytes \<Rightarrow> Hash) \<Rightarrow> mpt \<Rightarrow> Hash" where
  "mhash K m = (if m = MNil then emptyRoot else K (menc K m))"

definition big :: "(bytes \<Rightarrow> Hash) \<Rightarrow> mpt \<Rightarrow> bool" where
  "big K m \<longleftrightarrow> 32 \<le> length (menc K m)"

fun fits :: "(bytes \<Rightarrow> Hash) \<Rightarrow> mpt \<Rightarrow> bool" where
  \<comment> \<open>no encoding exceeds the address space\<close>
  "fits K (MShort k m) \<longleftrightarrow> length (menc K (MShort k m)) < 2 ^ 64 \<and> fits K m"
| "fits K (MFull cs) \<longleftrightarrow> length (menc K (MFull cs)) < 2 ^ 64 \<and> (\<forall>c \<in> set cs. fits K c)"
| "fits K _ \<longleftrightarrow> True"

subsection \<open>Representation\<close>

fun avail :: "(bytes \<Rightarrow> Hash) \<Rightarrow> TrieDatabase \<Rightarrow> mpt \<Rightarrow> bool" where
  \<comment> \<open>every node that is referred to by hash is in the database\<close>
  "avail K db (MShort k m) \<longleftrightarrow>
     (big K (MShort k m) \<longrightarrow> Node db (K (menc K (MShort k m))) = Some (menc K (MShort k m))) \<and> avail K db m"
| "avail K db (MFull cs) \<longleftrightarrow>
     (big K (MFull cs) \<longrightarrow> Node db (K (menc K (MFull cs))) = Some (menc K (MFull cs))) \<and> (\<forall>c \<in> set cs. avail K db c)"
| "avail K db _ \<longleftrightarrow> True"

definition stored :: "(bytes \<Rightarrow> Hash) \<Rightarrow> TrieDatabase \<Rightarrow> mpt \<Rightarrow> bool" where
  "stored K db m \<longleftrightarrow> canonical m \<and> fits K m \<and> avail K db m \<and> Node db (K (menc K m)) = Some (menc K m)"

definition flag_ok :: "(bytes \<Rightarrow> Hash) \<Rightarrow> TrieDatabase \<Rightarrow> bool \<Rightarrow> nodeFlag \<Rightarrow> mpt \<Rightarrow> bool" where
  \<comment> \<open>a cached hash is the hash of the node; only the root may have one although it is small; a clean node
    is in the database unless it is embedded in its parent\<close>
  "flag_ok K db rt fl m \<longleftrightarrow>
     (case nf_hash fl of
        None \<Rightarrow> nf_dirty fl \<or> \<not> rt \<and> \<not> big K m
      | Some h \<Rightarrow> h = Hash_Bytes (K (menc K m)) \<and> (rt \<or> big K m) \<and> (\<not> nf_dirty fl \<longrightarrow> stored K db m))"

inductive repr :: "(bytes \<Rightarrow> Hash) \<Rightarrow> TrieDatabase \<Rightarrow> bool \<Rightarrow> node \<Rightarrow> mpt \<Rightarrow> bool" for K db where
  repr_nil: "repr K db rt NilNode MNil"
| repr_value: "repr K db rt (ValueNode v) (MValue v)"
| repr_short: "repr K db False n m \<Longrightarrow> flag_ok K db rt fl (MShort k m) \<Longrightarrow> repr K db rt (ShortNode k n fl) (MShort k m)"
| repr_full: "list_all2 (repr K db False) cs ms \<Longrightarrow> flag_ok K db rt fl (MFull ms) \<Longrightarrow> repr K db rt (FullNode cs fl) (MFull ms)"
| repr_hash: "stored K db m \<Longrightarrow> rt \<or> big K m \<Longrightarrow> repr K db rt (HashNode (Hash_Bytes (K (menc K m)))) m"

inductive_cases repr_NilNode: "repr K db rt NilNode m"
inductive_cases repr_ValueNode: "repr K db rt (ValueNode v) m"
inductive_cases repr_ShortNode: "repr K db rt (ShortNode k n fl) m"
inductive_cases repr_FullNode: "repr K db rt (FullNode cs fl) m"
inductive_cases repr_HashNode: "repr K db rt (HashNode h) m"

lemmas repr_elims = repr_NilNode repr_ValueNode repr_ShortNode repr_FullNode

lemma flag_ok_new [simp]: "flag_ok K db rt (newFlag t) m"
  by (simp add: flag_ok_def newFlag_def)

lemma flag_ok_gen [simp]: "flag_ok K db rt (fl\<lparr>nf_gen := g\<rparr>) m \<longleftrightarrow> flag_ok K db rt fl m"
  by (simp add: flag_ok_def split: option.split)

lemma stored_not_leaf: "stored K db m \<Longrightarrow> m \<noteq> MNil \<and> m \<noteq> MValue v"
  by (auto simp: stored_def)

lemma repr_MNil_iff [simp]: "repr K db rt n MNil \<longleftrightarrow> n = NilNode" "repr K db rt NilNode m \<longleftrightarrow> m = MNil"
  by (auto intro: repr_nil elim: repr_NilNode, erule repr.cases) (auto dest: stored_not_leaf)

lemma repr_MValue_iff [simp]: "repr K db rt n (MValue v) \<longleftrightarrow> n = ValueNode v"
  by (auto intro: repr_value, erule repr.cases) (auto dest: stored_not_leaf)

subsection \<open>Decoding what was stored\<close>

lemma hexToCompact_fragment:
  assumes "nibbles k \<or> hexkey k"
  shows "hexToCompact k = Done (compact k) \<and> compact k \<noteq> [] \<and> compactToHex (compact k) = Done k"
proof -
  obtain ns t where "nibbles ns" "k = (if t then ns @ [16] else ns)"
    using assms by (metis (full_types) hexkey_def)
  from compactToHex_pack [OF this] show ?thesis by (auto simp: compact_def)
qed

lemma canonical_fragment: "canonical (MShort k m) \<Longrightarrow> nibbles k \<or> hexkey k"
  by (auto simp: canonical_MShort)

lemma self_delimiting_mref [simp]: "self_delimiting (mref K m)"
  by (cases m) (auto simp: mref_def ref_of_def)

lemma mref_small:
  "mref K MNil = VBytes []" "mref K (MValue v) = VBytes v"
  "canonical m \<Longrightarrow> mref K m = (if big K m then VBytes (Hash_Bytes (K (menc K m))) else mval K m)"
  by (auto simp: mref_def ref_of_def big_def menc_def split: mpt.splits)

lemma menc_simps:
  "menc K (MShort k m) = enc_list (enc_str (compact k) @ encoding (mref K m))"
  "menc K (MFull cs) = enc_list (concat (map (\<lambda>c. encoding (mref K c)) cs))"
  by (simp_all add: menc_def mref_def comp_def)

lemma mref_embedded: "canonical m \<Longrightarrow> \<not> big K m \<Longrightarrow> encoding (mref K m) = menc K m"
  by (simp add: mref_small menc_def)

lemma length_enc_list_content: "length c < length (enc_list c)"
  by (simp add: enc_list_def puthead_def Let_def)

lemma length_enc_str_content: "length c \<le> length (enc_str c)"
  by (simp add: enc_str_def)

lemma Hash_Bytes_not_Nil [simp]: "Hash_Bytes h \<noteq> []"
proof
  assume "Hash_Bytes h = []"
  then have "length (Hash_Bytes h) = 0" by (simp only: list.size(3))
  then show False by simp
qed

definition decodes :: "(bytes \<Rightarrow> Hash) \<Rightarrow> TrieDatabase \<Rightarrow> decoder \<Rightarrow> mpt \<Rightarrow> bool" where
  "decodes K db dec m \<longleftrightarrow> (\<forall>rest. \<exists>n. dec None (menc K m @ rest) = Done (Inr n) \<and> repr K db False n m)"

lemma decodeRef_mref:
  assumes "subtrie m" "fits K m" "avail K db m" "canonical m \<Longrightarrow> \<not> big K m \<Longrightarrow> decodes K db dec m"
  shows "\<exists>n. decodeRef dec (encoding (mref K m) @ rest) = Done (Inr (n, rest)) \<and> repr K db False n m"
proof (cases "m = MNil")
  case True
  then show ?thesis using Split_enc_str [of "[]" rest] by (simp add: mref_small decodeRef_def)
next
  case False
  then have c: "canonical m" using assms(1) by (simp add: subtrie_def)
  show ?thesis
  proof (cases "big K m")
    case True
    then have "stored K db m"
      using c assms(2,3) by (cases m) (auto simp: stored_def)
    then have "repr K db False (HashNode (Hash_Bytes (K (menc K m)))) m" using True by (intro repr_hash) simp_all
    then show ?thesis
      using True c Split_enc_str [of "Hash_Bytes (K (menc K m))" rest]
      by (simp add: mref_small decodeRef_def)
  next
    case small: False
    obtain n where n: "dec None (menc K m @ rest) = Done (Inr n)" "repr K db False n m"
      using assms(4) [OF c small] by (auto simp: decodes_def)
    obtain e where e: "menc K m = enc_list e" using c by (cases m) (auto simp: menc_simps)
    then have "length e < 2 ^ 64" using small length_enc_list_content [of e] by (simp add: big_def)
    then have "Split (menc K m @ rest) = Done (Inr (KList, e, rest))" by (simp add: e Split_enc_list)
    then show ?thesis
      using n small c by (simp add: mref_small decodeRef_def hashLen_def big_def Let_def menc_def)
  qed
qed

lemma decodeShort_menc:
  assumes "canonical (MShort k m)" "fits K (MShort k m)" "avail K db m"
    and dec: "canonical m \<Longrightarrow> \<not> big K m \<Longrightarrow> decodes K db dec m"
    and fl: "flag_ok K db rt \<lparr>nf_hash = hash, nf_gen = g, nf_dirty = False\<rparr> (MShort k m)"
  shows "\<exists>n. decodeShort dec g hash (enc_str (compact k) @ encoding (mref K m)) = Done (Inr n) \<and> repr K db rt n (MShort k m)"
proof -
  have k: "compactToHex (compact k) = Done k" using hexToCompact_fragment [OF canonical_fragment [OF assms(1)]] by simp
  have l: "length (enc_str (compact k) @ encoding (mref K m)) < 2 ^ 64"
    using assms(2) length_enc_list_content [of "enc_str (compact k) @ encoding (mref K m)"] by (simp add: menc_simps)
  have s: "SplitString (enc_str (compact k) @ rest) = Done (Inr (compact k, rest))" for rest
    using l length_enc_str_content [of "compact k"] by (simp add: SplitString_def Split_enc_str)
  consider v where "m = MValue v" "hexkey k" | cs where "m = MFull cs" "nibbles k" "canonical m"
    using assms(1) by (auto simp: canonical_MShort)
  then show ?thesis
  proof cases
    case 1
    then have "SplitString (encoding (mref K m)) = Done (Inr (v, []))"
      using l length_enc_str_content [of v] Split_enc_str [of v "[]"] by (simp add: mref_small SplitString_def)
    then show ?thesis
      using 1 k s fl hexkey_hasTerm [of k] by (auto simp: decodeShort_def intro!: repr_short)
  next
    case 2
    then have "subtrie m" "fits K m" using assms(2) by (simp_all add: subtrie_def)
    from decodeRef_mref [OF this assms(3) dec, of "[]"] obtain n
      where "decodeRef dec (encoding (mref K m)) = Done (Inr (n, []))" "repr K db False n m" by auto
    then show ?thesis
      using 2 k s fl not_hasTerm_nibbles [of k] by (auto simp: decodeShort_def intro!: repr_short)
  qed
qed

lemma decodeFull_loop_mrefs:
  assumes "\<forall>c \<in> set cs. subtrie c \<and> fits K c \<and> avail K db c \<and> (canonical c \<longrightarrow> \<not> big K c \<longrightarrow> decodes K db dec c)"
  shows "\<exists>ns. decodeFull_loop dec (length cs) (concat (map (\<lambda>c. encoding (mref K c)) cs) @ rest) = Done (Inr (ns, rest)) \<and>
    list_all2 (repr K db False) ns cs"
  using assms
proof (induction cs)
  case (Cons c cs)
  let ?rest = "concat (map (\<lambda>c. encoding (mref K c)) cs) @ rest"
  obtain ns where ns: "decodeFull_loop dec (length cs) ?rest = Done (Inr (ns, rest))" "list_all2 (repr K db False) ns cs"
    using Cons by auto
  obtain n where "decodeRef dec (encoding (mref K c) @ ?rest) = Done (Inr (n, ?rest))" "repr K db False n c"
    using decodeRef_mref [of c K db dec ?rest] Cons.prems by auto
  then show ?case using ns by (intro exI [of _ "n # ns"]) simp
qed simp

lemma decodeFull_menc:
  assumes "canonical (MFull cs)" "fits K (MFull cs)" "\<forall>c \<in> set cs. avail K db c"
    and dec: "\<forall>c \<in> set cs. canonical c \<longrightarrow> \<not> big K c \<longrightarrow> decodes K db dec c"
    and fl: "flag_ok K db rt \<lparr>nf_hash = hash, nf_gen = g, nf_dirty = False\<rparr> (MFull cs)"
  shows "\<exists>n. decodeFull dec g hash (concat (map (\<lambda>c. encoding (mref K c)) cs)) = Done (Inr n) \<and> repr K db rt n (MFull cs)"
proof -
  have c: "length cs = 17" "\<forall>i < 16. subtrie (cs ! i)" "leaf (cs ! 16)" using assms(1) by (simp_all add: canonical_MFull)
  then have "drop 16 cs = [cs ! 16]" using Cons_nth_drop_Suc [of 16 cs] by simp
  then have split: "take 16 cs @ [cs ! 16] = cs" using append_take_drop_id [of 16 cs] by simp
  let ?enc = "\<lambda>cs. concat (map (\<lambda>c. encoding (mref K c)) cs)"
  have enc: "?enc cs = ?enc (take 16 cs) @ encoding (mref K (cs ! 16))"
    by (subst split [symmetric]) (simp only: map_append concat_append list.map concat.simps append_Nil2)
  have "\<forall>c \<in> set (take 16 cs). subtrie c" using c(1,2) by (auto simp: in_set_conv_nth)
  then have "\<exists>ns. decodeFull_loop dec (length (take 16 cs)) (?enc (take 16 cs) @ encoding (mref K (cs ! 16))) =
      Done (Inr (ns, encoding (mref K (cs ! 16)))) \<and> list_all2 (repr K db False) ns (take 16 cs)"
    using assms(2,3) dec by (intro decodeFull_loop_mrefs) (auto dest: in_set_takeD)
  then obtain ns where ns: "decodeFull_loop dec 16 (?enc cs) = Done (Inr (ns, encoding (mref K (cs ! 16))))"
      "list_all2 (repr K db False) ns (take 16 cs)"
    using c(1) enc by auto
  define v where "v = (case cs ! 16 of MValue v \<Rightarrow> v | _ \<Rightarrow> [])"
  have v: "mref K (cs ! 16) = VBytes v" "cs ! 16 = (if v = [] then MNil else MValue v)"
    using c(3) by (auto simp: leaf_def v_def mref_small split: mpt.splits)
  have "length (enc_str v) < 2 ^ 64"
    using assms(2) length_enc_list_content [of "?enc cs"] v by (simp add: menc_simps enc)
  then have "SplitString (encoding (mref K (cs ! 16))) = Done (Inr (v, []))"
    using length_enc_str_content [of v] Split_enc_str [of v "[]"] by (simp add: v(1) SplitString_def)
  then have d: "decodeFull dec g hash (?enc cs) = Done (Inr (FullNode (ns @ [if length v > 0 then ValueNode v else NilNode])
      \<lparr>nf_hash = hash, nf_gen = g, nf_dirty = False\<rparr>))"
    using ns(1) by (simp add: decodeFull_def)
  have "list_all2 (repr K db False) (ns @ [if length v > 0 then ValueNode v else NilNode]) (take 16 cs @ [cs ! 16])"
    using ns(2) v(2) by (intro list_all2_appendI) auto
  then have "list_all2 (repr K db False) (ns @ [if length v > 0 then ValueNode v else NilNode]) cs"
    by (simp only: split)
  then show ?thesis using d fl by (blast intro: repr_full)
qed

lemma SplitList_menc:
  "length (enc_list c) < 2 ^ 64 \<Longrightarrow> SplitList (enc_list c @ rest) = Done (Inr (c, rest))"
  using length_enc_list_content [of c] by (simp add: SplitList_def Split_enc_list)

lemma CountValues_concat:
  "\<forall>v \<in> set vs. self_delimiting v \<Longrightarrow> length (concat (map encoding vs)) < 2 ^ 64 \<Longrightarrow>
   CountValues (concat (map encoding vs)) = Done (Inr (length vs))"
  using CountValues_loop_concat [of vs 0] by (simp add: CountValues_def)

lemma decodeNode_menc:
  assumes "canonical m" "fits K m" "avail K db m" "length (menc K m) < fuel"
    and "flag_ok K db rt \<lparr>nf_hash = hash, nf_gen = g, nf_dirty = False\<rparr> m"
  shows "\<exists>n. decodeNode fuel g hash (menc K m @ rest) = Done (Inr n) \<and> repr K db rt n m"
  using assms
proof (induction fuel arbitrary: m hash rest rt)
  case (Suc fuel)
  have ne: "menc K m \<noteq> []" using Suc.prems(1) by (cases m) (auto simp: menc_simps enc_list_def puthead_def Let_def)
  have dec: "decodes K db (decodeNode fuel g) c"
    if "canonical c" "fits K c" "avail K db c" "length (menc K c) < length (menc K m)" "\<not> big K c" for c
    unfolding decodes_def using that Suc.prems(4) by (auto intro!: Suc.IH simp: flag_ok_def)
  show ?case
  proof (cases m)
    case (MShort k c)
    let ?elems = "enc_str (compact k) @ encoding (mref K c)"
    have "length (menc K c) < length (menc K m)" if "canonical c" "\<not> big K c"
      using mref_embedded [OF that] length_enc_list_content [of ?elems] by (simp add: MShort menc_simps(1))
    then obtain n where n: "decodeShort (decodeNode fuel g) g hash ?elems = Done (Inr n)" "repr K db rt n m"
      using decodeShort_menc [of k c K db "decodeNode fuel g" rt hash g] Suc.prems dec [of c] MShort by auto
    have "CountValues ?elems = Done (Inr 2)"
      using CountValues_concat [of "[VBytes (compact k), mref K c]"] Suc.prems(2) length_enc_list_content [of ?elems]
      by (simp add: MShort menc_simps)
    then show ?thesis
      using n ne SplitList_menc [of ?elems rest] Suc.prems(2) by (simp add: MShort menc_simps)
  next
    case (MFull cs)
    let ?elems = "concat (map (\<lambda>c. encoding (mref K c)) cs)"
    have "length (menc K c) < length (menc K m)" if "canonical c" "\<not> big K c" "c \<in> set cs" for c
      using mref_embedded [OF that(1,2)] length_enc_list_content [of ?elems]
        length_concat_member [OF that(3), of "\<lambda>c. encoding (mref K c)"]
      by (simp add: MFull menc_simps(2))
    then obtain n where n: "decodeFull (decodeNode fuel g) g hash ?elems = Done (Inr n)" "repr K db rt n m"
      using decodeFull_menc [of cs K db "decodeNode fuel g" rt hash g] Suc.prems dec MFull by auto
    have "CountValues ?elems = Done (Inr 17)"
      using CountValues_concat [of "map (mref K) cs"] Suc.prems(1,2) length_enc_list_content [of ?elems]
      by (simp add: MFull menc_simps comp_def canonical_MFull)
    then show ?thesis
      using n ne SplitList_menc [of ?elems rest] Suc.prems(2) by (simp add: MFull menc_simps)
  qed (use Suc.prems in simp_all)
qed simp

lemma resolveHash_stored:
  assumes "stored K db m" "rt \<or> big K m"
  shows "\<exists>n. resolveHash db t (Hash_Bytes (K (menc K m))) prfx = Done (Inr n) \<and> repr K db rt n m \<and> \<not> (\<exists>h. n = HashNode h)"
proof -
  have "flag_ok K db rt \<lparr>nf_hash = Some (Hash_Bytes (K (menc K m))), nf_gen = tr_cachegen t, nf_dirty = False\<rparr> m"
    using assms by (simp add: flag_ok_def)
  then obtain n where n: "decodeNode (Suc (length (menc K m))) (tr_cachegen t) (Some (Hash_Bytes (K (menc K m)))) (menc K m) = Done (Inr n)"
      "repr K db rt n m"
    using decodeNode_menc [of m K db "Suc (length (menc K m))" rt "Some (Hash_Bytes (K (menc K m)))" "tr_cachegen t" "[]"] assms(1)
    by (auto simp: stored_def)
  then show ?thesis
    using assms(1) decodeNode_loaded [OF n(1)] by (auto simp: resolveHash_def mustDecodeNode_def stored_def)
qed

end
