(* ===== verification/Trie_Refine.thy ===== *)
theory Trie_Refine
  imports Trie_Repr
begin

text \<open>
  The operations of \<open>src/core/trie/trie.go\<close> refine a finite map. On a node that represents a canonical
  trie, lookup, insertion and deletion return without error and without a panic, whatever part of the trie
  is still in the database; the new node represents the canonical trie of the updated map. Fuel of twice the
  length of the key and two more is enough: each step consumes a nibble or loads one node.
\<close>

subsection \<open>Keys and positions\<close>

lemma prefix_take_iff: "prefix k key \<longleftrightarrow> take (length k) key = k"
  by (metis append_eq_conv_conj prefix_def take_is_prefix)

lemma prefixLen_le: "prefixLen a b \<le> length a" "prefixLen a b \<le> length b"
  by (induction a b rule: prefixLen.induct) auto

lemma prefixLen_full: "prefixLen a b = length b \<longleftrightarrow> prefix b a"
  by (induction a b rule: prefixLen.induct) auto

lemma prefixLen_take: "take (prefixLen a b) a = take (prefixLen a b) b"
  by (induction a b rule: prefixLen.induct) auto

lemma prefixLen_differ: "prefixLen a b < length a \<Longrightarrow> prefixLen a b < length b \<Longrightarrow> a ! prefixLen a b \<noteq> b ! prefixLen a b"
  by (induction a b rule: prefixLen.induct) auto

lemma prefixLen_self: "prefixLen a b = length a \<longleftrightarrow> prefix a b"
  by (induction a b rule: prefixLen.induct) auto

lemma hexkey_prefix: "hexkey k \<Longrightarrow> hexkey key \<Longrightarrow> prefix k key \<Longrightarrow> k = key"
proof (induction k arbitrary: key)
  case (Cons x k)
  then show ?case by (cases key) (auto simp: hexkey_Cons)
qed simp

lemma nibbles_prefix: "nibbles k \<Longrightarrow> hexkey key \<Longrightarrow> \<not> prefix key k"
  by (auto simp: prefix_def hexkey_def nibbles_def)

lemma fragment_prefix: "nibbles k \<or> hexkey k \<Longrightarrow> hexkey key \<Longrightarrow> prefix key k \<Longrightarrow> k = key"
  using hexkey_prefix nibbles_prefix by blast

lemma seat_MShort:
  assumes "canonical (MShort k m)" "hexkey (k @ r)"
  shows "seat r m"
  using assms hexkey_prefix [of k "k @ r"] hexkey_append [of k r]
  by (auto simp: canonical_MShort seat_def subtrie_def leaf_def)

lemma hexkey_index: "hexkey (x # r) \<Longrightarrow> unat x < 17 \<and> (unat x = 16 \<longleftrightarrow> r = [])"
  by (auto simp: hexkey_Cons word_less_nat_alt)

lemma seat_MFull:
  assumes "canonical (MFull cs)" "hexkey (x # r)"
  shows "unat x < 17" "seat r (cs ! unat x)"
  using assms hexkey_index [OF assms(2)] by (auto simp: canonical_MFull seat_def hexkey_Cons word_less_nat_alt)

lemma seat_MValue [simp]: "seat k (MValue v) \<longleftrightarrow> k = [] \<and> v \<noteq> []"
  by (auto simp: seat_def subtrie_def)

lemma seat_branch: "m = MShort a b \<or> m = MFull c \<Longrightarrow> seat k m \<longleftrightarrow> hexkey k \<and> canonical m"
  by (auto simp: seat_def subtrie_def leaf_def)

lemma seat_Cons: "hexkey key \<Longrightarrow> seat key m \<longleftrightarrow> subtrie m"
  by (cases key) (auto simp: seat_def)

subsection \<open>Lookup\<close>

definition is_hash :: "node \<Rightarrow> bool" where
  "is_hash n \<longleftrightarrow> (case n of HashNode _ \<Rightarrow> True | _ \<Rightarrow> False)"

definition cost :: "node \<Rightarrow> bytes \<Rightarrow> nat" where
  "cost n key = 2 * length key + (if is_hash n then 2 else 1)"

lemma is_hash_simps [simp]:
  "is_hash (HashNode h)" "\<not> is_hash NilNode" "\<not> is_hash (ValueNode v)" "\<not> is_hash (ShortNode k c fl)" "\<not> is_hash (FullNode cs fl)"
  by (simp_all add: is_hash_def)

lemma is_hash_iff: "is_hash n \<longleftrightarrow> (\<exists>h. n = HashNode h)"
  by (cases n) auto

lemma cost_le: "cost n key \<le> 2 * length key + 2"
  by (simp add: cost_def)

lemma repr_resolve:
  assumes "repr K db rt (HashNode h) m"
  shows "\<exists>n. resolveHash db t h prfx = Done (Inr n) \<and> repr K db rt n m \<and> \<not> is_hash n"
  using assms resolveHash_stored [of K db m rt t prfx] by (auto elim!: repr_HashNode simp: is_hash_iff)

lemma tryGet_repr:
  assumes "repr K db rt n m" "seat (drop pos key) m" "pos \<le> length key" "cost n (drop pos key) \<le> fuel"
  shows "\<exists>n' r. tryGet fuel db t n key pos = Done (mget m (drop pos key), n', r, None) \<and> repr K db rt n' m"
  using assms
proof (induction fuel arbitrary: n m pos rt)
  case 0
  then show ?case by (simp add: cost_def split: if_splits)
next
  case (Suc fuel)
  show ?case
  proof (cases n)
    case NilNode
    then show ?thesis using Suc.prems by auto
  next
    case (ValueNode v)
    then have "m = MValue v" using Suc.prems(1) by (auto elim: repr_ValueNode)
    then show ?thesis using ValueNode Suc.prems by (auto intro: repr_value)
  next
    case (HashNode h)
    then obtain c where c: "resolveHash db t h (take pos key) = Done (Inr c)" "repr K db rt c m" "\<not> is_hash c"
      using repr_resolve Suc.prems(1) by blast
    moreover have "cost c (drop pos key) \<le> fuel" using Suc.prems(4) HashNode c(3) by (simp add: cost_def)
    ultimately show ?thesis
      using Suc.IH [OF c(2) Suc.prems(2,3)] HashNode by fastforce
  next
    case (ShortNode k c fl)
    then obtain mc where m: "m = MShort k mc" "repr K db False c mc" "flag_ok K db rt fl m"
      using Suc.prems(1) by (auto elim: repr_ShortNode)
    have can: "canonical m" "hexkey (drop pos key)" using Suc.prems(2) m(1) seat_branch by blast+
    show ?thesis
    proof (cases "prefix k (drop pos key)")
      case False
      then show ?thesis
        using ShortNode m(1) Suc.prems by (auto simp: mget.simps prefix_take_iff)
    next
      case True
      then obtain r where r: "drop pos key = k @ r" by (auto elim: prefixE)
      then have len: "length key - pos = length k + length r" by (metis length_append length_drop)
      have d: "drop (pos + length k) key = r" using r by (metis add.commute append_eq_conv_conj drop_drop)
      have "k \<noteq> []" using can m(1) by (simp add: canonical_MShort)
      have le: "pos + length k \<le> length key" using len Suc.prems(3) by linarith
      from \<open>k \<noteq> []\<close> have "cost c r \<le> fuel" using Suc.prems(4) ShortNode r by (cases k) (auto simp: cost_def)
      then obtain n' b where "tryGet fuel db t c key (pos + length k) = Done (mget mc r, n', b, None)" "repr K db False n' mc"
        using Suc.IH [of False c mc "pos + length k"] seat_MShort [of k mc r] can m(1,2) r d le by auto
      then show ?thesis
        using ShortNode m r le Suc.prems(1) by (auto intro!: repr_short)
    qed
  next
    case (FullNode cs fl)
    then obtain ms where m: "m = MFull ms" "list_all2 (repr K db False) cs ms" "flag_ok K db rt fl m"
      using Suc.prems(1) by (auto elim: repr_FullNode)
    have can: "canonical m" "hexkey (drop pos key)" using Suc.prems(2) m(1) seat_branch by blast+
    then obtain x r where r: "drop pos key = x # r" by (cases "drop pos key") auto
    then have pos: "pos < length key" "key ! pos = x" "drop (Suc pos) key = r"
      by (metis drop_eq_Nil list.discI not_less, metis drop_eq_Nil hd_drop_conv_nth list.discI list.sel(1) not_less, metis drop_Suc list.sel(3) tl_drop)
    have ms: "length ms = 17" "length cs = 17" using can(1) m(1) list_all2_lengthD [OF m(2)] by (auto simp: canonical_MFull)
    have x: "unat x < 17" "seat r (ms ! unat x)" using seat_MFull [of ms x r] can m(1) r by auto
    have "repr K db False (cs ! unat x) (ms ! unat x)" using m(2) x(1) ms by (simp add: list_all2_nthD)
    moreover have "cost (cs ! unat x) r \<le> fuel" using Suc.prems(4) FullNode r by (simp add: cost_def split: if_splits)
    ultimately obtain n' b where n': "tryGet fuel db t (cs ! unat x) key (Suc pos) = Done (mget (ms ! unat x) r, n', b, None)"
        "repr K db False n' (ms ! unat x)"
      using Suc.IH [of False "cs ! unat x" "ms ! unat x" "Suc pos"] x(2) pos by auto
    moreover have "list_all2 (repr K db False) (cs[unat x := n']) ms"
      using list_all2_update_cong [OF m(2) n'(2), of "unat x"] by simp
    ultimately show ?thesis
      using FullNode m pos ms x(1) r Suc.prems(1)
      by (auto simp: child_at_def set_child_def mget.simps intro!: repr_full)
  qed
qed

subsection \<open>Insertion\<close>

definition is_full :: "mpt \<Rightarrow> bool" where
  "is_full m \<longleftrightarrow> (case m of MFull _ \<Rightarrow> True | _ \<Rightarrow> False)"

lemma is_full_iff: "is_full m \<longleftrightarrow> (\<exists>cs. m = MFull cs)"
  by (cases m) (auto simp: is_full_def)

definition hang :: "bytes \<Rightarrow> mpt \<Rightarrow> mpt" where
  \<comment> \<open>the trie below which \<open>m\<close> is reached by \<open>k\<close>\<close>
  "hang k m = (if k = [] then m else MShort k m)"

lemma mget_hang: "mget (hang k m) key = (if prefix k key then mget m (drop (length k) key) else None)"
  by (simp add: hang_def mget.simps)

lemma mget_hang_Cons: "mget (MShort (x # k) m) key = (case key of [] \<Rightarrow> None | y # r \<Rightarrow> if x = y then mget (hang k m) r else None)"
  by (auto simp: mget_hang mget.simps(3) split: list.splits)

lemma mget_MShort_hang: "k \<noteq> [] \<Longrightarrow> mget (MShort (k @ l) m) = mget (MShort k (hang l m))"
  by (rule ext) (auto simp: mget.simps(3) mget_hang prefix_def)

lemma insert_NilNode:
  assumes "0 < fuel"
  shows "\<exists>n. insert_node fuel db t NilNode prfx k v = Done (True, n, None) \<and>
     (\<forall>m. repr K db False v m \<longrightarrow> repr K db False n (hang k m))"
  using assms by (cases fuel) (auto simp: hang_def intro!: repr_short)

lemma hexkey_split: "hexkey (p @ x # k) \<longleftrightarrow> nibbles p \<and> hexkey (x # k)"
  by (induction p) (auto simp: hexkey_Cons)

lemma seat_hang:
  assumes "canonical (MShort (p @ x # k) m)"
  shows "if x = 16 then k = [] \<and> leaf (hang k m) else x < 16 \<and> canonical (hang k m)"
  using assms by (auto simp: canonical_MShort hang_def hexkey_split hexkey_Cons leaf_def split: if_splits)

definition branch :: "byte \<Rightarrow> mpt \<Rightarrow> byte \<Rightarrow> mpt \<Rightarrow> mpt list" where
  "branch x m y n = (replicate 17 MNil)[unat x := m, unat y := n]"

lemma entries_update2:
  assumes "i < length cs" "j < length cs" "i \<noteq> j" "cs ! i \<noteq> MNil" "cs ! j \<noteq> MNil"
  shows "2 \<le> entries cs"
proof -
  have "{i, j} \<subseteq> {k. k < length cs \<and> cs ! k \<noteq> MNil}" using assms by auto
  then have "card {i, j} \<le> card {k. k < length cs \<and> cs ! k \<noteq> MNil}" by (intro card_mono) auto
  then show ?thesis using assms(3) by (simp add: entries_def length_filter_conv_card)
qed

lemma canonical_branch:
  assumes "x \<noteq> y" "if x = 16 then leaf m else x < 16 \<and> canonical m" "if y = 16 then leaf n else y < 16 \<and> canonical n"
    and "m \<noteq> MNil" "n \<noteq> MNil"
  shows "canonical (MFull (branch x m y n))"
proof -
  have xy: "unat x < 17" "unat y < 17" "unat x \<noteq> unat y"
    using assms by (auto simp: word_less_nat_alt word_unat_eq_iff split: if_splits)
  have 16: "unat x = 16 \<longleftrightarrow> x = 16" "unat y = 16 \<longleftrightarrow> y = 16" by (simp_all add: word_unat_eq_iff)
  have nth: "branch x m y n ! i = (if i = unat y then n else if i = unat x then m else MNil)" if "i < 17" for i
    using that xy by (auto simp: branch_def nth_list_update)
  have "2 \<le> entries (branch x m y n)"
    using entries_update2 [of "unat x" "branch x m y n" "unat y"] nth xy assms by (auto simp: branch_def)
  moreover have "subtrie (branch x m y n ! i)" if "i < 16" for i
    using that nth [of i] assms(2,3) 16 by (auto simp: subtrie_def split: if_splits)
  moreover have "leaf (branch x m y n ! 16)"
    using nth [of 16] assms(2,3) 16 by (auto split: if_splits)
  ultimately show ?thesis by (simp add: canonical_MFull branch_def)
qed

lemma mget_branch:
  assumes "x \<noteq> y" "unat x < 17" "unat y < 17"
  shows "mget (MFull (branch x m y n)) key =
    (case key of [] \<Rightarrow> None | z # r \<Rightarrow> if z = x then mget m r else if z = y then mget n r else None)"
proof (cases key)
  case (Cons z r)
  have "unat x \<noteq> unat y" using assms(1) by (simp add: word_unat_eq_iff)
  then show ?thesis
    using assms Cons by (auto simp: mget.simps(4) branch_def nth_list_update word_unat_eq_iff)
qed (simp add: mget.simps)

lemma mget_MShort_upd: "mget m' = (mget m)(r := z) \<Longrightarrow> mget (MShort k m') = (mget (MShort k m))(k @ r := z)"
  by (rule ext) (auto simp: mget.simps(3) prefix_def)

lemma mget_MFull_upd:
  assumes "length cs = 17" "unat x < 17" "mget c = (mget (cs ! unat x))(r := z)"
  shows "mget (MFull (cs[unat x := c])) = (mget (MFull cs))(x # r := z)"
proof
  fix key
  show "mget (MFull (cs[unat x := c])) key = ((mget (MFull cs))(x # r := z)) key"
    using assms by (cases key) (auto simp: mget.simps(4) nth_list_update word_unat_eq_iff)
qed

lemma canonical_MShort_same_shape:
  assumes "canonical (MShort k m)" "seat r m'" "hexkey (k @ r)" "m' \<noteq> MNil" "is_full m \<longrightarrow> is_full m'"
  shows "canonical (MShort k m')"
proof -
  consider v where "m = MValue v" "hexkey k" | "is_full m" "nibbles k" "k \<noteq> []"
    using assms(1) by (auto simp: canonical_MShort is_full_iff)
  then show ?thesis
  proof cases
    case 1
    then have "r = []" using hexkey_prefix [of k "k @ r"] assms(3) by simp
    then show ?thesis using 1 assms(2,4) by (auto simp: seat_def leaf_def canonical_MShort split: mpt.splits)
  next
    case 2
    then obtain cs where "m' = MFull cs" using assms(5) by (auto simp: is_full_iff)
    then show ?thesis using 2 assms(2) by (auto simp: canonical_MShort seat_branch)
  qed
qed

lemma canonical_MFull_upd:
  assumes "canonical (MFull cs)" "hexkey (x # r)" "seat r c" "2 \<le> entries (cs[unat x := c])"
  shows "canonical (MFull (cs[unat x := c]))"
proof -
  have "if unat x = 16 then leaf c else unat x < 16 \<and> subtrie c"
    using assms(2,3) hexkey_index [OF assms(2)] by (auto simp: seat_def split: if_splits)
  then show ?thesis
    using assms(1,4) by (auto simp: canonical_MFull nth_list_update split: if_splits)
qed

lemma entries_split: "entries (a @ x # b) = entries a + (if x = MNil then 0 else 1) + entries b"
  by (simp add: entries_def)

lemma entries_upd:
  assumes "i < length cs"
  shows "entries (cs[i := c]) + (if cs ! i = MNil then 0 else 1) = entries cs + (if c = MNil then 0 else 1)"
  using arg_cong [OF id_take_nth_drop [OF assms], of entries]
  by (simp add: upd_conv_take_nth_drop [OF assms] entries_split)

definition inserted :: "(bytes \<Rightarrow> Hash) \<Rightarrow> TrieDatabase \<Rightarrow> bool \<Rightarrow> bytes \<Rightarrow> bytes \<Rightarrow> mpt \<Rightarrow> (bool \<times> node \<times> trie_error option) outcome \<Rightarrow> bool" where
  "inserted K db rt key v m out \<longleftrightarrow>
     (\<exists>dirty n' m'. out = Done (dirty, n', None) \<and> repr K db rt n' m' \<and> seat key m' \<and> mget m' = (mget m)(key \<mapsto> v) \<and>
        (\<not> dirty \<longrightarrow> m' = m) \<and> (is_full m \<longrightarrow> is_full m'))"

lemma insertedI:
  "out = Done (dirty, n', None) \<Longrightarrow> repr K db rt n' m' \<Longrightarrow> seat key m' \<Longrightarrow> mget m' = (mget m)(key \<mapsto> v) \<Longrightarrow>
   (\<not> dirty \<longrightarrow> m' = m) \<Longrightarrow> (is_full m \<longrightarrow> is_full m') \<Longrightarrow> inserted K db rt key v m out"
  unfolding inserted_def by blast

lemma insertedE:
  assumes "inserted K db rt key v m out"
  obtains dirty n' m' where "out = Done (dirty, n', None)" "repr K db rt n' m'" "seat key m'" "mget m' = (mget m)(key \<mapsto> v)"
    "\<not> dirty \<longrightarrow> m' = m" "is_full m \<longrightarrow> is_full m'" "m' \<noteq> MNil"
proof -
  obtain dirty n' m' where *: "out = Done (dirty, n', None)" "repr K db rt n' m'" "seat key m'" "mget m' = (mget m)(key \<mapsto> v)"
    "\<not> dirty \<longrightarrow> m' = m" "is_full m \<longrightarrow> is_full m'"
    using assms unfolding inserted_def by blast
  moreover have "m' \<noteq> MNil" using fun_cong [OF *(4), of key] by auto
  ultimately show ?thesis using that by blast
qed

lemma insert_split:
  \<comment> \<open>the key leaves the fragment of a short node after \<open>p\<close>: the node is split\<close>
  assumes "canonical (MShort (p @ x # k) mc)" "hexkey (p @ y # key)" "x \<noteq> y" "v \<noteq> []" "repr K db False c mc" "0 < fuel"
  shows "inserted K db rt (p @ y # key) v (MShort (p @ x # k) mc)
    (insert_node (Suc fuel) db t (ShortNode (p @ x # k) c fl) prfx (p @ y # key) (ValueNode v))"
proof -
  have pl: "prefixLen (p @ y # key) (p @ x # k) = length p"
    using assms(3) by (induction p) auto
  have cv: "canonical (MShort (p @ y # key) (MValue v))" using assms(2,4) by (simp add: canonical_MShort)
  let ?m1 = "hang k mc" and ?m2 = "hang key (MValue v)"
  have s1: "if x = 16 then k = [] \<and> leaf ?m1 else x < 16 \<and> canonical ?m1" by (rule seat_hang [OF assms(1)])
  have s2: "if y = 16 then key = [] \<and> leaf ?m2 else y < 16 \<and> canonical ?m2" by (rule seat_hang [OF cv])
  have ne: "?m1 \<noteq> MNil" "?m2 \<noteq> MNil" using assms(1) by (auto simp: hang_def canonical_MShort)
  have xy: "unat x < 17" "unat y < 17" using s1 s2 by (auto simp: word_less_nat_alt split: if_splits)
  obtain n1 where n1: "insert_node fuel db t NilNode (prfx @ take (length p + 1) (p @ x # k)) k c = Done (True, n1, None)" "repr K db False n1 ?m1"
    using insert_NilNode [OF assms(6)] assms(5) by metis
  obtain n2 where n2: "insert_node fuel db t NilNode (prfx @ take (length p + 1) (p @ y # key)) key (ValueNode v) = Done (True, n2, None)"
      "repr K db False n2 ?m2"
    using insert_NilNode [OF assms(6)] repr_value by metis
  define cs where "cs = (replicate 17 NilNode)[unat x := n1, unat y := n2]"
  have "list_all2 (repr K db False) (replicate 17 NilNode) (replicate 17 MNil)" by (simp add: list_all2_same list_all2_conv_all_nth)
  then have "list_all2 (repr K db False) cs (branch x ?m1 y ?m2)"
    unfolding cs_def branch_def using n1(2) n2(2) by (intro list_all2_update_cong)
  then have rb: "repr K db rt' (FullNode cs (newFlag t)) (MFull (branch x ?m1 y ?m2))" for rt' by (intro repr_full) simp_all
  have out: "insert_node (Suc fuel) db t (ShortNode (p @ x # k) c fl) prfx (p @ y # key) (ValueNode v) =
      Done (True, if p = [] then FullNode cs (newFlag t) else ShortNode p (FullNode cs (newFlag t)) (newFlag t), None)"
    using n1(1) n2(1) xy by (simp add: pl Let_def set_child_def cs_def)
  have can: "canonical (MFull (branch x ?m1 y ?m2))"
    using s1 s2 ne assms(3) by (intro canonical_branch) (auto split: if_splits)
  have p: "nibbles p" using assms(2) by (simp add: hexkey_split)
  show ?thesis
  proof (rule insertedI [OF out])
    show "repr K db rt (if p = [] then FullNode cs (newFlag t) else ShortNode p (FullNode cs (newFlag t)) (newFlag t))
        (hang p (MFull (branch x ?m1 y ?m2)))"
      using rb by (simp add: hang_def repr_short)
    show "seat (p @ y # key) (hang p (MFull (branch x ?m1 y ?m2)))"
      using can assms(2) p by (auto simp: hang_def seat_def subtrie_def canonical_MShort)
    show "mget (hang p (MFull (branch x ?m1 y ?m2))) = (mget (MShort (p @ x # k) mc))(p @ y # key \<mapsto> v)"
    proof
      fix q
      show "mget (hang p (MFull (branch x ?m1 y ?m2))) q = ((mget (MShort (p @ x # k) mc))(p @ y # key \<mapsto> v)) q"
      proof (cases "prefix p q")
        case True
        then obtain r where q: "q = p @ r" by (auto elim: prefixE)
        show ?thesis
          using assms(3) xy unfolding q mget_hang
          by (cases r) (auto simp: mget_branch mget_hang mget.simps(3) prefix_def)
      next
        case False
        then show ?thesis by (auto simp: mget_hang mget.simps(3) prefix_def)
      qed
    qed
  qed (simp_all add: is_full_def)
qed

lemma prefixLen_split:
  assumes "\<not> prefix k key" "\<not> prefix key k"
  obtains p x k1 y key1 where "k = p @ x # k1" "key = p @ y # key1" "x \<noteq> y"
proof -
  obtain p where "\<exists>x k1 y key1. k = p @ x # k1 \<and> key = p @ y # key1 \<and> x \<noteq> y"
    using parallel_decomp [of k key] assms by (auto simp: parallel_def)
  then show ?thesis using that by blast
qed

lemma insert_short:
  assumes "canonical (MShort k mc)" "hexkey (k @ r)" "repr K db rt (ShortNode k c fl) (MShort k mc)"
    and "inserted K db False r v mc (insert_node fuel db t c (prfx @ k) r (ValueNode v))"
  shows "inserted K db rt (k @ r) v (MShort k mc) (insert_node (Suc fuel) db t (ShortNode k c fl) prfx (k @ r) (ValueNode v))"
proof -
  have k: "k \<noteq> []" using assms(1) by (simp add: canonical_MShort)
  have pl: "prefixLen (k @ r) k = length k" by (simp add: prefixLen_full)
  obtain dirty n' mc' where i: "insert_node fuel db t c (prfx @ k) r (ValueNode v) = Done (dirty, n', None)"
      "repr K db False n' mc'" "seat r mc'" "mget mc' = (mget mc)(r \<mapsto> v)" "\<not> dirty \<longrightarrow> mc' = mc" "is_full mc \<longrightarrow> is_full mc'" "mc' \<noteq> MNil"
    by (rule insertedE [OF assms(4)])
  have can: "canonical (MShort k mc')"
    by (rule canonical_MShort_same_shape [OF assms(1) i(3) assms(2) i(7,6)])
  show ?thesis
  proof (cases dirty)
    case True
    then have out: "insert_node (Suc fuel) db t (ShortNode k c fl) prfx (k @ r) (ValueNode v) = Done (True, ShortNode k n' (newFlag t), None)"
      using i(1) k by (simp add: pl Let_def)
    show ?thesis
      by (rule insertedI [OF out repr_short [OF i(2)]])
        (use can assms(2) mget_MShort_upd [OF i(4)] in \<open>simp_all add: seat_branch is_full_def\<close>)
  next
    case False
    then have out: "insert_node (Suc fuel) db t (ShortNode k c fl) prfx (k @ r) (ValueNode v) = Done (False, ShortNode k c fl, None)"
      using i(1) k by (simp add: pl Let_def)
    show ?thesis
      by (rule insertedI [OF out assms(3)])
        (use assms(1,2) mget_MShort_upd [OF i(4), of k] i(5) False in \<open>simp_all add: seat_branch is_full_def\<close>)
  qed
qed

lemma insert_full:
  assumes "canonical (MFull ms)" "hexkey (x # r)" "repr K db rt (FullNode cs fl) (MFull ms)" "list_all2 (repr K db False) cs ms"
    and "inserted K db False r v (ms ! unat x) (insert_node fuel db t (cs ! unat x) (prfx @ [x]) r (ValueNode v))"
  shows "inserted K db rt (x # r) v (MFull ms) (insert_node (Suc fuel) db t (FullNode cs fl) prfx (x # r) (ValueNode v))"
proof -
  have l: "length ms = 17" "length cs = 17" "2 \<le> entries ms"
    using assms(1) list_all2_lengthD [OF assms(4)] by (auto simp: canonical_MFull)
  have x: "unat x < 17" using hexkey_index [OF assms(2)] by simp
  obtain dirty n' mc' where i: "insert_node fuel db t (cs ! unat x) (prfx @ [x]) r (ValueNode v) = Done (dirty, n', None)"
      "repr K db False n' mc'" "seat r mc'" "mget mc' = (mget (ms ! unat x))(r \<mapsto> v)" "\<not> dirty \<longrightarrow> mc' = ms ! unat x"
      "is_full (ms ! unat x) \<longrightarrow> is_full mc'" "mc' \<noteq> MNil"
    by (rule insertedE [OF assms(5)])
  have "2 \<le> entries (ms[unat x := mc'])" using entries_upd [of "unat x" ms mc'] l x i(7) by (simp split: if_splits)
  then have can: "canonical (MFull (ms[unat x := mc']))" by (rule canonical_MFull_upd [OF assms(1,2) i(3)])
  have get: "mget (MFull (ms[unat x := mc'])) = (mget (MFull ms))(x # r \<mapsto> v)"
    by (rule mget_MFull_upd [OF l(1) x i(4)])
  show ?thesis
  proof (cases dirty)
    case True
    then have out: "insert_node (Suc fuel) db t (FullNode cs fl) prfx (x # r) (ValueNode v) =
        Done (True, FullNode (cs[unat x := n']) (newFlag t), None)"
      using i(1) x l by (simp add: child_at_def set_child_def)
    show ?thesis
      by (rule insertedI [OF out repr_full [OF list_all2_update_cong [OF assms(4) i(2)]]])
        (use can assms(2) get in \<open>simp_all add: seat_branch is_full_def\<close>)
  next
    case False
    then have out: "insert_node (Suc fuel) db t (FullNode cs fl) prfx (x # r) (ValueNode v) = Done (False, FullNode cs fl, None)"
      using i(1) x l by (simp add: child_at_def)
    show ?thesis
      by (rule insertedI [OF out assms(3)])
        (use assms(1,2) get i(5) False in \<open>simp_all add: seat_branch is_full_def\<close>)
  qed
qed

lemma insert_repr:
  assumes "repr K db rt n m" "seat key m" "v \<noteq> []" "cost n key \<le> fuel"
  shows "inserted K db rt key v m (insert_node fuel db t n prfx key (ValueNode v))"
  using assms
proof (induction fuel arbitrary: n m key rt prfx)
  case 0
  then show ?case by (simp add: cost_def split: if_splits)
next
  case (Suc fuel)
  show ?case
  proof (cases "key = []")
    case True
    then have "m = MNil \<or> (\<exists>w. m = MValue w)" using Suc.prems(2) by (auto simp: seat_def leaf_def split: mpt.splits)
    then show ?thesis
      using True Suc.prems
      by (auto intro!: insertedI [where m' = "MValue v"] repr_value simp: is_full_def leaf_def fun_eq_iff)
  next
    case False
    then have hex: "hexkey key" and sub: "subtrie m" using Suc.prems(2) by (simp_all add: seat_def)
    show ?thesis
    proof (cases n)
      case NilNode
      then have "m = MNil" using Suc.prems(1) by simp
      then show ?thesis
        using NilNode False hex Suc.prems(3)
        by (intro insertedI [where m' = "MShort key (MValue v)"])
          (auto simp: is_full_def seat_branch canonical_MShort mget_single intro!: repr_short repr_value)
    next
      case (ValueNode w)
      then show ?thesis using Suc.prems(1) sub by (auto simp: subtrie_def elim: repr_ValueNode)
    next
      case (HashNode h)
      then obtain c where c: "resolveHash db t h prfx = Done (Inr c)" "repr K db rt c m" "\<not> is_hash c"
        using repr_resolve Suc.prems(1) by blast
      moreover have "cost c key \<le> fuel" using Suc.prems(4) HashNode c(3) by (simp add: cost_def)
      ultimately have "inserted K db rt key v m (insert_node fuel db t c prfx key (ValueNode v))"
        using Suc.IH Suc.prems(2,3) by blast
      then obtain dirty n' m' where i: "insert_node fuel db t c prfx key (ValueNode v) = Done (dirty, n', None)" "repr K db rt n' m'"
          "seat key m'" "mget m' = (mget m)(key \<mapsto> v)" "\<not> dirty \<longrightarrow> m' = m" "is_full m \<longrightarrow> is_full m'"
        by (rule insertedE)
      have out: "insert_node (Suc fuel) db t n prfx key (ValueNode v) = Done (dirty, if dirty then n' else c, None)"
        using HashNode False c(1) i(1) by simp
      show ?thesis
        by (rule insertedI [OF out, of K db rt m']) (use i c(2) in auto)
    next
      case (ShortNode k c fl)
      then obtain mc where m: "m = MShort k mc" "repr K db False c mc" using Suc.prems(1) by (auto elim: repr_ShortNode)
      then have can: "canonical (MShort k mc)" using sub by (simp add: subtrie_def)
      show ?thesis
      proof (cases "prefix k key")
        case True
        then obtain r where r: "key = k @ r" by (auto elim: prefixE)
        have "k \<noteq> []" using can by (simp add: canonical_MShort)
        then have "cost c r \<le> fuel" using Suc.prems(4) ShortNode r by (cases k) (auto simp: cost_def)
        then have "inserted K db False r v mc (insert_node fuel db t c (prfx @ k) r (ValueNode v))"
          using Suc.IH m(2) seat_MShort [of k mc r] can hex r Suc.prems(3) by blast
        then show ?thesis
          using insert_short [OF can, of r] hex r m ShortNode Suc.prems(1) by simp
      next
        case no: False
        then have no': "\<not> prefix key k" using fragment_prefix [OF canonical_fragment [OF can] hex] by auto
        obtain p x k1 y key1 where d: "k = p @ x # k1" "key = p @ y # key1" "x \<noteq> y" by (rule prefixLen_split [OF no no'])
        then have "0 < fuel" using Suc.prems(4) ShortNode by (simp add: cost_def)
        then show ?thesis using insert_split [of p x k1 mc y key1 v K db c fuel rt t fl prfx] can hex d Suc.prems(3) m ShortNode by simp
      qed
    next
      case (FullNode cs fl)
      then obtain ms where m: "m = MFull ms" "list_all2 (repr K db False) cs ms" using Suc.prems(1) by (auto elim: repr_FullNode)
      then have can: "canonical (MFull ms)" using sub by (simp add: subtrie_def)
      obtain x r where r: "key = x # r" using False by (cases key) auto
      have x: "unat x < 17" "seat r (ms ! unat x)" using seat_MFull [OF can] hex r by auto
      have "length ms = 17" using can by (simp add: canonical_MFull)
      then have "repr K db False (cs ! unat x) (ms ! unat x)" using m(2) x(1) by (simp add: list_all2_nthD2)
      moreover have "cost (cs ! unat x) r \<le> fuel" using Suc.prems(4) FullNode r by (simp add: cost_def split: if_splits)
      ultimately have "inserted K db False r v (ms ! unat x) (insert_node fuel db t (cs ! unat x) (prfx @ [x]) r (ValueNode v))"
        using Suc.IH x(2) Suc.prems(3) by blast
      then show ?thesis using insert_full [OF can, of x r] hex r m FullNode Suc.prems(1) by simp
    qed
  qed
qed

end
