(* ===== verification/Trie_Delete.thy ===== *)
theory Trie_Delete
  imports Trie_Refine
begin

text \<open>
  Deletion (\<open>delete\<close> of \<open>src/core/trie/trie.go\<close>) refines the removal of a key from a finite map and reduces
  the trie to its canonical form on the way up: a full node left with one entry becomes a short node, and
  adjacent short nodes are merged. The comment that the child of a short node \<^emph>\<open>can never be nil here\<close> is a
  consequence.
\<close>

subsection \<open>Counting the entries that are left\<close>

lemma single_child_nil: "(\<forall>c \<in> set cs. c = NilNode) \<Longrightarrow> single_child cs i p = p"
  by (induction cs arbitrary: i) auto

lemma single_child_two: "p \<noteq> -1 \<Longrightarrow> \<exists>c \<in> set cs. c \<noteq> NilNode \<Longrightarrow> single_child cs i p = -2"
  by (induction cs arbitrary: i) auto

lemma single_child_first:
  "(\<forall>c \<in> set a. c = NilNode) \<Longrightarrow> c \<noteq> NilNode \<Longrightarrow>
   single_child (a @ c # b) i (-1) = single_child b (i + length a + 1) (int (i + length a))"
  by (induction a arbitrary: i) (auto simp: add.assoc)

lemma single_child_cases:
  assumes "\<exists>c \<in> set cs. c \<noteq> NilNode"
  obtains (one) j where "j < length cs" "single_child cs 0 (-1) = int j" "cs ! j \<noteq> NilNode" "\<And>i. i < length cs \<Longrightarrow> i \<noteq> j \<Longrightarrow> cs ! i = NilNode"
  | (more) i j where "single_child cs 0 (-1) = -2" "i < j" "j < length cs" "cs ! i \<noteq> NilNode" "cs ! j \<noteq> NilNode"
proof -
  obtain a c b where s: "cs = a @ c # b" "c \<noteq> NilNode" "\<forall>c \<in> set a. c = NilNode"
    using split_list_first_prop [OF assms] by auto
  have e: "single_child cs 0 (-1) = single_child b (length a + 1) (int (length a))"
    using single_child_first [OF s(3,2), of b 0] s(1) by simp
  show ?thesis
  proof (cases "\<forall>c \<in> set b. c = NilNode")
    case True
    have "cs ! i = NilNode" if "i < length cs" "i \<noteq> length a" for i
      using that True s(3) unfolding s(1) by (auto simp: nth_append nth_Cons' not_less)
    then show ?thesis using one [of "length a"] e True s single_child_nil [of b] by simp
  next
    case False
    then obtain k where k: "k < length b" "b ! k \<noteq> NilNode" by (auto simp: in_set_conv_nth)
    have "single_child cs 0 (-1) = -2" using e False single_child_two [of "int (length a)" b] by auto
    then show ?thesis using more [of "length a" "length a + 1 + k"] k s(1,2) by (simp add: nth_append)
  qed
qed

subsection \<open>Reduction to canonical form\<close>

lemma repr_nil_nth:
  "list_all2 (repr K db False) cs ms \<Longrightarrow> i < length ms \<Longrightarrow> cs ! i = NilNode \<longleftrightarrow> ms ! i = MNil"
  using list_all2_nthD2 [of "repr K db False" cs ms i] by auto

lemma repr_some_nil:
  assumes "list_all2 (repr K db False) cs ms" "0 < entries ms"
  shows "\<exists>c \<in> set cs. c \<noteq> NilNode"
proof -
  obtain m where "m \<in> set ms" "m \<noteq> MNil" using assms(2) by (auto simp: entries_def filter_empty_conv)
  then obtain i where "i < length ms" "ms ! i \<noteq> MNil" by (auto simp: in_set_conv_nth)
  then show ?thesis using assms(1) repr_nil_nth list_all2_lengthD by (metis nth_mem)
qed

lemma mget_only_child:
  assumes "length ms = 17" "j < 17" "\<And>i. i < 17 \<Longrightarrow> i \<noteq> j \<Longrightarrow> ms ! i = MNil"
  shows "mget (MFull ms) = mget (MShort [word_of_nat j] (ms ! j))"
proof
  fix key
  show "mget (MFull ms) key = mget (MShort [word_of_nat j] (ms ! j)) key"
  proof (cases key)
    case (Cons x r)
    have "mget (ms ! unat x) r = None" if "unat x < 17" "unat x \<noteq> j" using assms(3) [OF that] by simp
    moreover have "x = word_of_nat j \<longleftrightarrow> unat x = j" using byte_index [OF assms(2)] by (metis word_unat_eq_iff)
    ultimately show ?thesis using Cons assms(1,2) by (auto simp: mget.simps(3,4))
  qed (simp add: mget.simps)
qed

lemma mget_MShort_MShort: "mget (MShort (k @ l) m) = mget (MShort k (MShort l m))"
  by (rule ext) (auto simp: mget.simps(3) prefix_def)

definition reduced :: "(bytes \<Rightarrow> Hash) \<Rightarrow> TrieDatabase \<Rightarrow> bool \<Rightarrow> mpt \<Rightarrow> (bool \<times> node \<times> trie_error option) outcome \<Rightarrow> bool" where
  "reduced K db rt m out \<longleftrightarrow>
     (\<exists>n' m'. out = Done (True, n', None) \<and> repr K db rt n' m' \<and> canonical m' \<and> mget m' = mget m \<and> \<not> is_hash n')"

lemma reducedI:
  "out = Done (True, n', None) \<Longrightarrow> repr K db rt n' m' \<Longrightarrow> canonical m' \<Longrightarrow> mget m' = mget m \<Longrightarrow> \<not> is_hash n' \<Longrightarrow>
   reduced K db rt m out"
  unfolding reduced_def by blast

lemma reduce_one:
  assumes "list_all2 (repr K db False) cs ms" "length ms = 17" "\<forall>i < 16. subtrie (ms ! i)" "leaf (ms ! 16)"
    and j: "j < 17" "single_child cs 0 (-1) = int j" "ms ! j \<noteq> MNil" "\<And>i. i < 17 \<Longrightarrow> i \<noteq> j \<Longrightarrow> ms ! i = MNil"
  shows "reduced K db rt (MFull ms) (reduce db t prfx cs)"
proof -
  have get: "mget (MFull ms) = mget (MShort [word_of_nat j] (ms ! j))" by (rule mget_only_child [OF assms(2) j(1,4)])
  have r: "repr K db False (cs ! j) (ms ! j)" using assms(1,2) j(1) by (simp add: list_all2_nthD2)
  have b: "(word_of_int (int j) :: byte) = word_of_nat j" by simp
  have nib: "j < 16 \<Longrightarrow> (word_of_nat j :: byte) < 16" using byte_index [OF j(1)] by (simp add: word_less_nat_alt)
  show ?thesis
  proof (cases "j = 16")
    case True
    then obtain v where v: "ms ! j = MValue v" "v \<noteq> []" using assms(4) j(3) by (auto simp: leaf_def split: mpt.splits)
    have "reduce db t prfx cs = Done (True, ShortNode [word_of_nat j] (cs ! j) (newFlag t), None)"
      using True j(2) by (simp add: reduce_def Let_def)
    moreover have "canonical (MShort [word_of_nat j] (ms ! j))" using v True by (simp add: canonical_MShort hexkey_Cons)
    ultimately show ?thesis by - (rule reducedI [OF _ repr_short [OF r flag_ok_new]], simp_all add: get)
  next
    case False
    then have j16: "j < 16" using j(1) by simp
    then have can: "canonical (ms ! j)" using assms(3) j(3) by (auto simp: subtrie_def)
    obtain c where c: "resolve db t (cs ! j) prfx = Done (Inr c)" "repr K db False c (ms ! j)" "\<not> is_hash c"
    proof (cases "cs ! j")
      case (HashNode h)
      then show ?thesis using that repr_resolve [of K db False h "ms ! j" t prfx] r by (auto simp: resolve_def)
    qed (use that r in \<open>auto simp: resolve_def\<close>)
    from can show ?thesis
    proof (cases "ms ! j")
      case (MShort k m)
      then obtain n fl where n: "c = ShortNode k n fl" "repr K db False n m"
        using c(2,3) by (auto elim: repr.cases)
      have "reduce db t prfx cs = Done (True, ShortNode (word_of_nat j # k) n (newFlag t), None)"
        using False j(2) c(1) n(1) by (simp add: reduce_def Let_def)
      moreover have "canonical (MShort (word_of_nat j # k) m)"
        using can MShort nib [OF j16] by (auto simp: canonical_MShort hexkey_Cons)
      moreover have "mget (MShort (word_of_nat j # k) m) = mget (MFull ms)"
        using get MShort mget_MShort_MShort [of "[word_of_nat j]" k m] by simp
      ultimately show ?thesis by - (rule reducedI [OF _ repr_short [OF n(2) flag_ok_new]], simp_all)
    next
      case (MFull ds)
      then obtain ns fl where n: "c = FullNode ns fl" using c(2,3) by (auto elim: repr.cases)
      have "reduce db t prfx cs = Done (True, ShortNode [word_of_nat j] (cs ! j) (newFlag t), None)"
        using False j(2) c(1) n by (simp add: reduce_def Let_def)
      moreover have "canonical (MShort [word_of_nat j] (ms ! j))"
        using can MFull nib [OF j16] by (auto simp: canonical_MShort)
      ultimately show ?thesis by - (rule reducedI [OF _ repr_short [OF r flag_ok_new]], simp_all add: get)
    qed simp_all
  qed
qed

lemma reduce_repr:
  assumes "list_all2 (repr K db False) cs ms" "length ms = 17" "\<forall>i < 16. subtrie (ms ! i)" "leaf (ms ! 16)" "0 < entries ms"
  shows "reduced K db rt (MFull ms) (reduce db t prfx cs)"
proof -
  have l: "length cs = 17" using list_all2_lengthD [OF assms(1)] assms(2) by simp
  show ?thesis
  proof (cases rule: single_child_cases [OF repr_some_nil [OF assms(1,5)]])
    case (1 j)
    then show ?thesis
      using repr_nil_nth [OF assms(1)] assms(2) l by (intro reduce_one [OF assms(1-4), of j]) auto
  next
    case (2 i j)
    have "2 \<le> entries ms"
      using 2 l assms(2) repr_nil_nth [OF assms(1)] by (intro entries_update2 [of i ms j]) auto
    then have "canonical (MFull ms)" using assms by (simp add: canonical_MFull)
    moreover have "reduce db t prfx cs = Done (True, FullNode cs (newFlag t), None)" using 2 by (simp add: reduce_def)
    ultimately show ?thesis
      by - (rule reducedI [OF _ repr_full [OF assms(1) flag_ok_new]], simp_all)
  qed
qed

subsection \<open>Deletion\<close>

definition dropped :: "(bytes \<Rightarrow> Hash) \<Rightarrow> TrieDatabase \<Rightarrow> bool \<Rightarrow> bytes \<Rightarrow> mpt \<Rightarrow> (bool \<times> node \<times> trie_error option) outcome \<Rightarrow> bool" where
  "dropped K db rt key m out \<longleftrightarrow>
     (\<exists>dirty n' m'. out = Done (dirty, n', None) \<and> repr K db rt n' m' \<and> seat key m' \<and> mget m' = (mget m)(key := None) \<and>
        (\<not> dirty \<longrightarrow> m' = m) \<and> (dirty \<longrightarrow> \<not> is_hash n'))"

lemma droppedI:
  "out = Done (dirty, n', None) \<Longrightarrow> repr K db rt n' m' \<Longrightarrow> seat key m' \<Longrightarrow> mget m' = (mget m)(key := None) \<Longrightarrow>
   (\<not> dirty \<longrightarrow> m' = m) \<Longrightarrow> (dirty \<longrightarrow> \<not> is_hash n') \<Longrightarrow> dropped K db rt key m out"
  unfolding dropped_def by blast

lemma droppedE:
  assumes "dropped K db rt key m out"
  obtains dirty n' m' where "out = Done (dirty, n', None)" "repr K db rt n' m'" "seat key m'" "mget m' = (mget m)(key := None)"
    "\<not> dirty \<longrightarrow> m' = m" "dirty \<longrightarrow> \<not> is_hash n'"
  using assms unfolding dropped_def by blast

lemma delete_keeps_some:
  assumes "canonical (MFull cs)" "subtrie m'" "mget m' = (mget (MFull cs))(key := None)"
  shows "canonical m'"
proof -
  obtain x y kx ky where d: "x \<noteq> y" "mget (MFull cs) (x # kx) \<noteq> None" "mget (MFull cs) (y # ky) \<noteq> None"
    by (rule canonical_MFull_diverges [OF assms(1)])
  have "m' \<noteq> MNil"
  proof
    assume "m' = MNil"
    then have "((mget (MFull cs))(key := None)) q = None" for q using assms(3) by (metis mget.simps(1))
    from this [of "x # kx"] this [of "y # ky"] show False using d by (auto split: if_splits)
  qed
  then show ?thesis using assms(2) by (simp add: subtrie_def)
qed

lemma canonical_merge: "canonical (MShort l m) \<Longrightarrow> nibbles k \<Longrightarrow> canonical (MShort (k @ l) m)"
  by (auto simp: canonical_MShort hexkey_append)

lemma delete_short_below:
  \<comment> \<open>the key goes on below the fragment of a short node\<close>
  assumes "canonical (MShort k (MFull ds))" "hexkey r" "repr K db rt (ShortNode k c fl) (MShort k (MFull ds))"
    and "dropped K db False r (MFull ds) (delete_node fuel db t c (prfx @ k) r)"
  shows "dropped K db rt (k @ r) (MShort k (MFull ds)) (delete_node (Suc fuel) db t (ShortNode k c fl) prfx (k @ r))"
proof -
  have k: "nibbles k" "k \<noteq> []" "canonical (MFull ds)" and r: "r \<noteq> []" using assms(1,2) by (auto simp: canonical_MShort)
  have hex: "hexkey (k @ r)" using assms(2) k(1) by (simp add: hexkey_append)
  have pl: "prefixLen (k @ r) k = length k" by (simp add: prefixLen_full)
  obtain dirty n' m' where d: "delete_node fuel db t c (prfx @ k) r = Done (dirty, n', None)" "repr K db False n' m'" "seat r m'"
      "mget m' = (mget (MFull ds))(r := None)" "\<not> dirty \<longrightarrow> m' = MFull ds" "dirty \<longrightarrow> \<not> is_hash n'"
    by (rule droppedE [OF assms(4)])
  note get = mget_MShort_upd [OF d(4), of k]
  have can: "canonical m'" using delete_keeps_some [OF k(3) _ d(4)] d(3) assms(2) by (simp add: seat_Cons)
  show ?thesis
  proof (cases dirty)
    case False
    then have out: "delete_node (Suc fuel) db t (ShortNode k c fl) prfx (k @ r) = Done (False, ShortNode k c fl, None)"
      using d(1) r by (simp add: pl Let_def)
    show ?thesis
      by (rule droppedI [OF out assms(3)]) (use assms(1) hex get d(5) False in \<open>simp_all add: seat_branch\<close>)
  next
    case True
    from can show ?thesis
    proof (cases m')
      case (MShort l m2)
      then obtain n2 fl2 where n2: "n' = ShortNode l n2 fl2" "repr K db False n2 m2" using d(2,6) True by (auto elim: repr.cases)
      have out: "delete_node (Suc fuel) db t (ShortNode k c fl) prfx (k @ r) = Done (True, ShortNode (k @ l) n2 (newFlag t), None)"
        using d(1) r True n2(1) by (simp add: pl Let_def concat_keys_def)
      show ?thesis
        by (rule droppedI [OF out repr_short [OF n2(2) flag_ok_new]])
          (use canonical_merge [OF _ k(1)] can MShort hex get mget_MShort_MShort [of k l m2] in \<open>simp_all add: seat_branch\<close>)
    next
      case (MFull es)
      then obtain ns fl2 where n2: "n' = FullNode ns fl2" using d(2,6) True by (auto elim: repr.cases)
      have out: "delete_node (Suc fuel) db t (ShortNode k c fl) prfx (k @ r) = Done (True, ShortNode k n' (newFlag t), None)"
        using d(1) r True n2(1) by (simp add: pl Let_def)
      show ?thesis
        by (rule droppedI [OF out repr_short [OF d(2) flag_ok_new]])
          (use can MFull hex get k in \<open>simp_all add: seat_branch canonical_MShort\<close>)
    qed simp_all
  qed
qed

lemma delete_full:
  assumes "canonical (MFull ms)" "hexkey (x # r)" "repr K db rt (FullNode cs fl) (MFull ms)" "list_all2 (repr K db False) cs ms"
    and "dropped K db False r (ms ! unat x) (delete_node fuel db t (cs ! unat x) (prfx @ [x]) r)"
  shows "dropped K db rt (x # r) (MFull ms) (delete_node (Suc fuel) db t (FullNode cs fl) prfx (x # r))"
proof -
  have l: "length ms = 17" "length cs = 17" "2 \<le> entries ms"
    using assms(1) list_all2_lengthD [OF assms(4)] by (auto simp: canonical_MFull)
  have x: "unat x < 17" using hexkey_index [OF assms(2)] by simp
  obtain dirty n' m' where d: "delete_node fuel db t (cs ! unat x) (prfx @ [x]) r = Done (dirty, n', None)" "repr K db False n' m'" "seat r m'"
      "mget m' = (mget (ms ! unat x))(r := None)" "\<not> dirty \<longrightarrow> m' = ms ! unat x" "dirty \<longrightarrow> \<not> is_hash n'"
    by (rule droppedE [OF assms(5)])
  have get: "mget (MFull (ms[unat x := m'])) = (mget (MFull ms))(x # r := None)" by (rule mget_MFull_upd [OF l(1) x d(4)])
  show ?thesis
  proof (cases dirty)
    case False
    then have out: "delete_node (Suc fuel) db t (FullNode cs fl) prfx (x # r) = Done (False, FullNode cs fl, None)"
      using d(1) x l by (simp add: child_at_def)
    show ?thesis
      by (rule droppedI [OF out assms(3)]) (use assms(1,2) get d(5) False in \<open>simp_all add: seat_branch\<close>)
  next
    case True
    have seats: "\<forall>i < 16. subtrie (ms[unat x := m'] ! i)" "leaf (ms[unat x := m'] ! 16)"
      using assms(1) l(1) d(3) hexkey_index [OF assms(2)] by (auto simp: canonical_MFull nth_list_update seat_def split: if_splits)
    have "0 < entries (ms[unat x := m'])" using entries_upd [of "unat x" ms m'] l x by (simp split: if_splits)
    then have "reduced K db rt (MFull (ms[unat x := m'])) (reduce db t prfx (cs[unat x := n']))"
      using l seats by (intro reduce_repr list_all2_update_cong assms(4) d(2)) simp_all
    then obtain n2 m2 where r2: "reduce db t prfx (cs[unat x := n']) = Done (True, n2, None)" "repr K db rt n2 m2" "canonical m2"
        "mget m2 = mget (MFull (ms[unat x := m']))" "\<not> is_hash n2"
      unfolding reduced_def by blast
    have out: "delete_node (Suc fuel) db t (FullNode cs fl) prfx (x # r) = Done (True, n2, None)"
      using d(1) True x l r2(1) by (simp add: child_at_def set_child_def)
    show ?thesis
      by (rule droppedI [OF out r2(2)]) (use r2 get assms(2) in \<open>simp_all add: seat_Cons subtrie_def\<close>)
  qed
qed

lemma delete_repr:
  assumes "repr K db rt n m" "seat key m" "cost n key \<le> fuel"
  shows "dropped K db rt key m (delete_node fuel db t n prfx key)"
  using assms
proof (induction fuel arbitrary: n m key rt prfx)
  case 0
  then show ?case by (simp add: cost_def split: if_splits)
next
  case (Suc fuel)
  show ?case
  proof (cases n)
    case NilNode
    then show ?thesis using Suc.prems by (auto intro!: droppedI [where m' = MNil])
  next
    case (ValueNode v)
    then have "m = MValue v" "key = []" using Suc.prems(1,2) by (auto elim: repr_ValueNode)
    then show ?thesis using ValueNode by (auto intro!: droppedI [where m' = MNil] simp: seat_def fun_eq_iff)
  next
    case (HashNode h)
    then obtain c where c: "resolveHash db t h prfx = Done (Inr c)" "repr K db rt c m" "\<not> is_hash c"
      using repr_resolve Suc.prems(1) by blast
    moreover have "cost c key \<le> fuel" using Suc.prems(3) HashNode c(3) by (simp add: cost_def)
    ultimately have "dropped K db rt key m (delete_node fuel db t c prfx key)" using Suc.IH Suc.prems(2) by blast
    then obtain dirty n' m' where d: "delete_node fuel db t c prfx key = Done (dirty, n', None)" "repr K db rt n' m'" "seat key m'"
        "mget m' = (mget m)(key := None)" "\<not> dirty \<longrightarrow> m' = m" "dirty \<longrightarrow> \<not> is_hash n'"
      by (rule droppedE)
    have out: "delete_node (Suc fuel) db t n prfx key = Done (dirty, if dirty then n' else c, None)"
      using HashNode c(1) d(1) by simp
    show ?thesis by (rule droppedI [OF out, of K db rt m']) (use d c(2) in auto)
  next
    case (ShortNode k c fl)
    then obtain mc where m: "m = MShort k mc" "repr K db False c mc" using Suc.prems(1) by (auto elim: repr_ShortNode)
    then have can: "canonical (MShort k mc)" and hex: "hexkey key" using Suc.prems(2) by (auto simp: seat_branch)
    show ?thesis
    proof (cases "prefix k key")
      case False
      then have "prefixLen key k < length k" using prefixLen_le(2) [of key k] prefixLen_full [of key k] by linarith
      then have out: "delete_node (Suc fuel) db t n prfx key = Done (False, n, None)" using ShortNode by (simp add: Let_def)
      show ?thesis
        by (rule droppedI [OF out Suc.prems(1,2)]) (use False m(1) in \<open>auto simp: fun_eq_iff mget.simps(3)\<close>)
    next
      case True
      then obtain r where r: "key = k @ r" by (auto elim: prefixE)
      have pl: "prefixLen key k = length k" using True by (simp add: prefixLen_full)
      have seat: "seat r mc" using seat_MShort [OF can] hex r by simp
      show ?thesis
      proof (cases "r = []")
        case True
        then obtain v where "mc = MValue v"
          using seat can by (auto simp: seat_def leaf_def canonical_MShort split: mpt.splits)
        moreover have out: "delete_node (Suc fuel) db t n prfx key = Done (True, NilNode, None)"
          using ShortNode pl r True by (simp add: Let_def)
        ultimately show ?thesis
          using True r m(1) hex by (intro droppedI [OF out, where m' = MNil]) (auto simp: fun_eq_iff mget_single seat_Cons)
      next
        case below: False
        then obtain ds where ds: "mc = MFull ds" "hexkey r" using seat can by (auto simp: seat_def canonical_MShort subtrie_def)
        have "k \<noteq> []" using can by (simp add: canonical_MShort)
        then have "cost c r \<le> fuel" using Suc.prems(3) ShortNode r by (cases k) (auto simp: cost_def)
        then have "dropped K db False r (MFull ds) (delete_node fuel db t c (prfx @ k) r)" using Suc.IH m(2) seat ds(1) by blast
        then show ?thesis using delete_short_below [of k ds r K db rt c fl fuel t prfx] can ds m r ShortNode Suc.prems(1) by simp
      qed
    qed
  next
    case (FullNode cs fl)
    then obtain ms where m: "m = MFull ms" "list_all2 (repr K db False) cs ms" using Suc.prems(1) by (auto elim: repr_FullNode)
    then have can: "canonical (MFull ms)" and hex: "hexkey key" using Suc.prems(2) by (auto simp: seat_branch)
    obtain x r where r: "key = x # r" using hex by (cases key) auto
    have x: "unat x < 17" "seat r (ms ! unat x)" using seat_MFull [OF can] hex r by auto
    have "length ms = 17" using can by (simp add: canonical_MFull)
    then have "repr K db False (cs ! unat x) (ms ! unat x)" using m(2) x(1) by (simp add: list_all2_nthD2)
    moreover have "cost (cs ! unat x) r \<le> fuel" using Suc.prems(3) FullNode r by (simp add: cost_def split: if_splits)
    ultimately have "dropped K db False r (ms ! unat x) (delete_node fuel db t (cs ! unat x) (prfx @ [x]) r)"
      using Suc.IH x(2) by blast
    then show ?thesis using delete_full [OF can, of x r] hex r m FullNode Suc.prems(1) by simp
  qed
qed

end
