(* ===== verification/Trie_Hasher.thy ===== *)
theory Trie_Hasher
  imports Trie_Delete
begin

text \<open>
  Hashing and committing (\<open>src/core/trie/hasher.go\<close>, \<open>Hash\<close> and \<open>Commit\<close> of \<open>src/core/trie/trie.go\<close>). The
  hasher walks the nodes that have no usable cached hash, replaces children by their hashes, and in commit
  mode writes the encodings and the reference counts into the node database. The buffers of the pooled hasher
  are local, so a hasher is its cache generation, cache limit and leaf callback; Keccak-256 is the parameter
  \<open>K\<close>. A nil database (\<open>Hash\<close>) is \<open>None\<close>. The callback acts on the database through its closure.
\<close>

subsection \<open>The hasher: hasher.go\<close>

type_synonym LeafCallback = "bytes \<Rightarrow> Hash \<Rightarrow> TrieDatabase \<Rightarrow> TrieDatabase"

record hasher =
  h_keccak :: "bytes \<Rightarrow> Hash"
  h_cachegen :: "16 word"
  h_cachelimit :: "16 word"
  h_onleaf :: "LeafCallback option"

fun reference_children :: "node list \<Rightarrow> Hash \<Rightarrow> TrieDatabase \<Rightarrow> TrieDatabase outcome" where
  "reference_children [] hash db = Done db"
| "reference_children (c # cs) hash db =
     obind (case c of HashNode child \<Rightarrow> db_reference (BytesToHash child) hash db | _ \<Rightarrow> Done db)
       (reference_children cs hash)"

fun leaf_children :: "LeafCallback \<Rightarrow> node list \<Rightarrow> Hash \<Rightarrow> TrieDatabase \<Rightarrow> TrieDatabase" where
  "leaf_children f [] hash db = db"
| "leaf_children f (c # cs) hash db =
     leaf_children f cs hash (case c of ValueNode child \<Rightarrow> f child hash db | _ \<Rightarrow> db)"

definition direct_children :: "node \<Rightarrow> node list" where
  \<comment> \<open>the child of a short node, the first 16 of a full node\<close>
  "direct_children n = (case n of ShortNode _ v _ \<Rightarrow> [v] | FullNode cs _ \<Rightarrow> take 16 cs | _ \<Rightarrow> [])"

definition store :: "hasher \<Rightarrow> node \<Rightarrow> TrieDatabase option \<Rightarrow> bool \<Rightarrow> (node \<times> TrieDatabase option) outcome" where
  "store h n odb force =
     (if n = NilNode \<or> is_hash n then Done (n, odb)
      else
        (case EncodeToBytes (node_rlp n) of
           Inl _ \<Rightarrow> Panic
         | Inr tmp \<Rightarrow>
             if length tmp < 32 \<and> \<not> force then Done (n, odb)
             else obind (node_cache n)
               (\<lambda>(cached, _).
                  let hash = (case cached of Some x \<Rightarrow> x | None \<Rightarrow> Hash_Bytes (h_keccak h tmp))
                  in case odb of
                       None \<Rightarrow> Done (HashNode hash, None)
                     | Some db \<Rightarrow>
                         (let key = BytesToHash hash
                          in obind (reference_children (direct_children n) key (db_insert key tmp db))
                            (\<lambda>db1.
                               let db2 = (case h_onleaf h of None \<Rightarrow> db1 | Some f \<Rightarrow> leaf_children f (direct_children n) key db1)
                               in Done (HashNode hash, Some db2))))))"

definition set_cached :: "node \<Rightarrow> bool \<Rightarrow> node \<Rightarrow> node" where
  \<comment> \<open>the end of \<open>hash\<close>: the hash is remembered, in commit mode the node becomes clean\<close>
  "set_cached hashed commit cn =
     (let cachedHash = (case hashed of HashNode x \<Rightarrow> Some x | _ \<Rightarrow> None);
          upd = (\<lambda>fl. fl\<lparr>nf_hash := cachedHash, nf_dirty := (if commit then False else nf_dirty fl)\<rparr>)
      in case cn of
           ShortNode k v fl \<Rightarrow> ShortNode k v (upd fl)
         | FullNode cs fl \<Rightarrow> FullNode cs (upd fl)
         | _ \<Rightarrow> cn)"

type_synonym hashed = "node \<times> node \<times> TrieDatabase option"

definition hash_with :: "hasher \<Rightarrow> (TrieDatabase option \<Rightarrow> hashed outcome) \<Rightarrow> node \<Rightarrow> TrieDatabase option \<Rightarrow> bool \<Rightarrow> hashed outcome" where
  \<comment> \<open>the body of \<open>hash\<close>; \<open>children\<close> is \<open>hashChildren\<close> on the same node\<close>
  "hash_with h children n odb force =
     obind (node_cache n)
       (\<lambda>(hash, dirty).
          if hash \<noteq> None \<and> odb = None then Done (HashNode (the hash), n, odb)
          else if hash \<noteq> None \<and> canUnload n (h_cachegen h) (h_cachelimit h) then Done (HashNode (the hash), HashNode (the hash), odb)
          else if hash \<noteq> None \<and> \<not> dirty then Done (HashNode (the hash), n, odb)
          else obind (children odb)
            (\<lambda>(collapsed, cached, odb1).
               obind (store h collapsed odb1 force)
                 (\<lambda>(hashed, odb2). Done (hashed, set_cached hashed (odb \<noteq> None) cached, odb2))))"

fun hashChildren :: "hasher \<Rightarrow> node \<Rightarrow> TrieDatabase option \<Rightarrow> hashed outcome"
  and hash_slots :: "hasher \<Rightarrow> node list \<Rightarrow> nat \<Rightarrow> TrieDatabase option \<Rightarrow> (node list \<times> node list \<times> TrieDatabase option) outcome" where
  "hashChildren h (ShortNode k v fl) odb =
     obind (hexToCompact k)
       (\<lambda>ck. obind (case v of
               ValueNode _ \<Rightarrow> Done (v, v, odb)
             | _ \<Rightarrow> hash_with h (\<lambda>d. hashChildren h v d) v odb False)
          (\<lambda>(cv, sv, odb1).
             Done (ShortNode ck (if cv = NilNode then ValueNode [] else cv) fl, ShortNode k sv fl, odb1)))"
| "hashChildren h (FullNode cs fl) odb =
     obind (hash_slots h cs 0 odb) (\<lambda>(ccs, scs, odb1). Done (FullNode ccs fl, FullNode scs fl, odb1))"
| "hashChildren h n odb = Done (n, n, odb)"
| "hash_slots h [] i odb = Done ([], [], odb)"
| "hash_slots h (c # cs) i odb =
     obind (if i < 16
            then (if c \<noteq> NilNode then hash_with h (\<lambda>d. hashChildren h c d) c odb False else Done (ValueNode [], NilNode, odb))
            else Done (if c = NilNode then ValueNode [] else c, c, odb))
       (\<lambda>(cc, sc, odb1).
          obind (hash_slots h cs (i + 1) odb1) (\<lambda>(ccs, scs, odb2). Done (cc # ccs, sc # scs, odb2)))"

definition hash_node :: "hasher \<Rightarrow> node \<Rightarrow> TrieDatabase option \<Rightarrow> bool \<Rightarrow> hashed outcome" where
  "hash_node h n odb force = hash_with h (hashChildren h n) n odb force"

subsection \<open>Hash and Commit: trie.go\<close>

definition newHasher :: "(bytes \<Rightarrow> Hash) \<Rightarrow> 16 word \<Rightarrow> 16 word \<Rightarrow> LeafCallback option \<Rightarrow> hasher" where
  "newHasher K cachegen cachelimit onleaf =
     \<lparr>h_keccak = K, h_cachegen = cachegen, h_cachelimit = cachelimit, h_onleaf = onleaf\<rparr>"

definition hashRoot :: "(bytes \<Rightarrow> Hash) \<Rightarrow> TrieDatabase option \<Rightarrow> LeafCallback option \<Rightarrow> Trie \<Rightarrow> hashed outcome" where
  "hashRoot K odb onleaf t =
     (if tr_root t = NilNode then Done (HashNode (Hash_Bytes emptyRoot), NilNode, odb)
      else hash_node (newHasher K (tr_cachegen t) (tr_cachelimit t) onleaf) (tr_root t) odb True)"

definition node_hash :: "node \<Rightarrow> Hash outcome" where
  \<comment> \<open>the type assertion \<open>hash.(hashNode)\<close>\<close>
  "node_hash n = (case n of HashNode x \<Rightarrow> Done (BytesToHash x) | _ \<Rightarrow> Panic)"

definition Trie_Hash :: "(bytes \<Rightarrow> Hash) \<Rightarrow> Trie \<Rightarrow> (Trie \<times> Hash) outcome" where
  "Trie_Hash K t =
     obind (hashRoot K None None t)
       (\<lambda>(hash, cached, _). obind (node_hash hash) (\<lambda>x. Done (t\<lparr>tr_root := cached\<rparr>, x)))"

definition Trie_Commit :: "(bytes \<Rightarrow> Hash) \<Rightarrow> LeafCallback option \<Rightarrow> Trie \<Rightarrow> TrieDatabase \<Rightarrow> (Trie \<times> TrieDatabase \<times> Hash) outcome" where
  "Trie_Commit K onleaf t db =
     obind (hashRoot K (Some db) onleaf t)
       (\<lambda>(hash, cached, odb).
          obind (node_hash hash)
            (\<lambda>x. Done (t\<lparr>tr_root := cached, tr_cachegen := tr_cachegen t + 1\<rparr>, the odb, x)))"

subsection \<open>What the database holds\<close>

definition same_blobs :: "TrieDatabase \<Rightarrow> TrieDatabase \<Rightarrow> bool" where
  "same_blobs d d' \<longleftrightarrow> diskdb d' = diskdb d \<and> (\<forall>x. map_option cn_blob (db_nodes d' x) = map_option cn_blob (db_nodes d x))"

definition leaf_ok :: "LeafCallback option \<Rightarrow> bool" where
  \<comment> \<open>the callback only counts references\<close>
  "leaf_ok onleaf \<longleftrightarrow> (\<forall>f l x d. onleaf = Some f \<longrightarrow> same_blobs d (f l x d))"

definition grown :: "TrieDatabase \<Rightarrow> TrieDatabase \<Rightarrow> bool" where
  "grown d d' \<longleftrightarrow> (\<forall>x e. Node d x = Some e \<longrightarrow> Node d' x = Some e)"

definition room :: "(bytes \<Rightarrow> Hash) \<Rightarrow> bytes set \<Rightarrow> TrieDatabase \<Rightarrow> bool" where
  \<comment> \<open>the encodings \<open>A\<close> collide neither with each other nor with what the database holds\<close>
  "room K A d \<longleftrightarrow> inj_on K A \<and>
     (\<forall>e \<in> A. (Node d (K e) = None \<or> Node d (K e) = Some e) \<and> (db_nodes d (K e) \<noteq> None \<longrightarrow> Node d (K e) = Some e))"

fun encs :: "(bytes \<Rightarrow> Hash) \<Rightarrow> mpt \<Rightarrow> bytes set" where
  "encs K (MShort k m) = {menc K (MShort k m)} \<union> encs K m"
| "encs K (MFull cs) = {menc K (MFull cs)} \<union> (\<Union>c \<in> set cs. encs K c)"
| "encs K _ = {}"

lemma same_blobs_refl [simp]: "same_blobs d d"
  by (simp add: same_blobs_def)

lemma same_blobs_trans: "same_blobs a b \<Longrightarrow> same_blobs b c \<Longrightarrow> same_blobs a c"
  by (simp add: same_blobs_def)

lemma same_blobs_dom: "same_blobs d d' \<Longrightarrow> db_nodes d' x = None \<longleftrightarrow> db_nodes d x = None"
  by (metis same_blobs_def option.map_disc_iff)

lemma same_blobs_Node: "same_blobs d d' \<Longrightarrow> Node d' x = Node d x"
proof -
  assume a: "same_blobs d d'"
  then have "map_option cn_blob (db_nodes d' x) = map_option cn_blob (db_nodes d x)" "diskdb d' = diskdb d"
    by (simp_all add: same_blobs_def)
  then show ?thesis by (auto simp: Node_def split: option.splits)
qed

lemma same_blobs_room: "same_blobs d d' \<Longrightarrow> room K A d \<Longrightarrow> room K A d'"
  by (simp add: room_def same_blobs_Node same_blobs_dom)

lemma grown_refl [simp]: "grown d d"
  by (simp add: grown_def)

lemma grown_trans: "grown a b \<Longrightarrow> grown b c \<Longrightarrow> grown a c"
  by (simp add: grown_def)

lemma same_blobs_grown: "same_blobs d d' \<Longrightarrow> grown d d'"
  by (simp add: grown_def same_blobs_Node)

lemma reference_blobs:
  assumes "db_nodes d parent \<noteq> None"
  shows "\<exists>d'. db_reference child parent d = Done d' \<and> same_blobs d d'"
proof (cases "db_nodes d child")
  case (Some n)
  obtain p where "db_nodes d parent = Some p" using assms by blast
  then show ?thesis using Some by (auto simp: db_reference_def Let_def same_blobs_def)
qed (simp add: db_reference_def)

lemma reference_children_blobs:
  "db_nodes d parent \<noteq> None \<Longrightarrow> \<exists>d'. reference_children cs parent d = Done d' \<and> same_blobs d d'"
proof (induction cs arbitrary: d)
  case (Cons c cs)
  obtain d1 where d1: "(case c of HashNode child \<Rightarrow> db_reference (BytesToHash child) parent d | _ \<Rightarrow> Done d) = Done d1" "same_blobs d d1"
    using reference_blobs [OF Cons.prems] by (cases c) auto
  then have "db_nodes d1 parent \<noteq> None" using Cons.prems same_blobs_dom [OF d1(2), of parent] by simp
  then show ?case using Cons.IH [of d1] d1 same_blobs_trans by fastforce
qed simp

lemma leaf_children_blobs: "leaf_ok (Some f) \<Longrightarrow> same_blobs d (leaf_children f cs x d)"
proof (induction cs arbitrary: d)
  case (Cons c cs)
  have "same_blobs d (case c of ValueNode child \<Rightarrow> f child x d | _ \<Rightarrow> d)"
    using Cons.prems by (cases c) (auto simp: leaf_ok_def)
  then show ?case unfolding leaf_children.simps by (rule same_blobs_trans) (rule Cons.IH [OF Cons.prems])
qed simp

lemma db_insert_room:
  assumes "room K A d" "e \<in> A"
  shows "grown d (db_insert (K e) e d)" "room K A (db_insert (K e) e d)"
    "Node (db_insert (K e) e d) (K e) = Some e" "db_nodes (db_insert (K e) e d) (K e) \<noteq> None"
proof -
  have e: "Node d (K e) = None \<or> Node d (K e) = Some e" "db_nodes d (K e) \<noteq> None \<longrightarrow> Node d (K e) = Some e"
    using assms by (auto simp: room_def)
  have n: "Node (db_insert (K e) e d) x = (if x = K e then Some e else Node d x)" for x
    using e(2) by (auto simp: db_insert_def Node_def split: option.splits)
  then show "Node (db_insert (K e) e d) (K e) = Some e" by simp
  show "db_nodes (db_insert (K e) e d) (K e) \<noteq> None" by (auto simp: db_insert_def)
  show "grown d (db_insert (K e) e d)" using e n by (auto simp: grown_def)
  have dom: "db_nodes (db_insert (K e) e d) x \<noteq> None \<longleftrightarrow> x = K e \<or> db_nodes d x \<noteq> None" for x
    by (auto simp: db_insert_def)
  show "room K A (db_insert (K e) e d)"
    using assms unfolding room_def n dom by (auto dest: inj_onD)
qed

lemma avail_grown: "avail K d m \<Longrightarrow> grown d d' \<Longrightarrow> avail K d' m"
  by (induction m) (auto simp: grown_def)

lemma stored_grown: "stored K d m \<Longrightarrow> grown d d' \<Longrightarrow> stored K d' m"
  by (auto simp: stored_def grown_def intro: avail_grown)

lemma flag_ok_grown: "flag_ok K d rt fl m \<Longrightarrow> grown d d' \<Longrightarrow> flag_ok K d' rt fl m"
  by (auto simp: flag_ok_def stored_grown split: option.splits)

lemma repr_grown: "repr K d rt n m \<Longrightarrow> grown d d' \<Longrightarrow> repr K d' rt n m"
proof (induction rule: repr.induct)
  case (repr_full cs ms rt fl)
  have "list_all2 (repr K d' False) cs ms"
    using repr_full.IH repr_full.prems by (auto elim: list_all2_mono)
  then show ?case using repr_full.hyps repr_full.prems flag_ok_grown by (blast intro: repr.repr_full)
qed (auto intro: repr.intros flag_ok_grown stored_grown)

end
