(* ===== verification/Trie_Root.thy ===== *)
theory Trie_Root
  imports Trie_Hasher
begin

text \<open>
  Correctness of hashing and committing. On a node that represents an abstract trie, the hasher returns the
  hash of its Merkle encoding, whatever part of the trie is loaded, cached or dirty; in commit mode the
  database afterwards holds every node that is referred to by hash, and loses nothing. The only hypothesis on
  the hash function is that the encodings at hand do not collide.
\<close>

subsection \<open>Storing one node\<close>

definition hashed_as :: "(bytes \<Rightarrow> Hash) \<Rightarrow> bool \<Rightarrow> mpt \<Rightarrow> node \<Rightarrow> bool" where
  "hashed_as K rt m hn \<longleftrightarrow>
     (if rt \<or> big K m then hn = HashNode (Hash_Bytes (K (menc K m))) else node_rlp hn = mval K m \<and> hn \<noteq> NilNode \<and> \<not> is_hash hn)"

definition progressed :: "(bytes \<Rightarrow> Hash) \<Rightarrow> bytes set \<Rightarrow> TrieDatabase option \<Rightarrow> TrieDatabase \<Rightarrow> TrieDatabase option \<Rightarrow> TrieDatabase \<Rightarrow> bool" where
  "progressed K A odb d odb' d' \<longleftrightarrow>
     odb = None \<and> odb' = None \<and> d' = d \<or> odb = Some d \<and> odb' = Some d' \<and> room K A d \<and> room K A d' \<and> grown d d'"

lemma progressed_grown: "progressed K A odb d odb' d' \<Longrightarrow> grown d d'"
  by (auto simp: progressed_def)

lemma progressed_trans:
  "progressed K A odb d odb1 d1 \<Longrightarrow> progressed K A odb1 d1 odb2 d2 \<Longrightarrow> progressed K A odb d odb2 d2"
  by (auto simp: progressed_def intro: grown_trans)

definition starts :: "(bytes \<Rightarrow> Hash) \<Rightarrow> bytes set \<Rightarrow> TrieDatabase option \<Rightarrow> TrieDatabase \<Rightarrow> bool" where
  "starts K A odb d \<longleftrightarrow> odb = None \<or> odb = Some d \<and> room K A d"

lemma progressed_refl: "starts K A odb d \<Longrightarrow> progressed K A odb d odb d"
  by (auto simp: starts_def progressed_def)

lemma progressed_starts: "progressed K A odb d odb' d' \<Longrightarrow> starts K A odb' d'"
  by (auto simp: starts_def progressed_def)

lemma progressed_None: "progressed K A odb d odb' d' \<Longrightarrow> odb' = None \<longleftrightarrow> odb = None"
  by (auto simp: progressed_def)

lemma encodable_ref_of: "encodable v \<Longrightarrow> encodable (ref_of K m v)"
  by (cases m) (simp_all add: ref_of_def)

lemma encodable_mval: "encodable (mval K m)"
  by (induction m) (simp_all add: encodable_ref_of)

lemma fits_length: "canonical m \<Longrightarrow> fits K m \<Longrightarrow> length (menc K m) < 2 ^ 64"
  by (cases m) auto

lemma store_ok:
  assumes "node_rlp n = mval K m" "canonical m" "fits K m" "n \<noteq> NilNode" "\<not> is_hash n"
    and "node_cache n = Done (c, b)" "c = None \<or> c = Some (Hash_Bytes (K (menc K m)))"
    and "h_keccak h = K" "leaf_ok (h_onleaf h)" "starts K A odb d" "menc K m \<in> A"
  shows "\<exists>hn odb' d'. store h n odb rt = Done (hn, odb') \<and> progressed K A odb d odb' d' \<and>
    (if rt \<or> big K m then hn = HashNode (Hash_Bytes (K (menc K m))) else hn = n) \<and>
    (odb \<noteq> None \<longrightarrow> rt \<or> big K m \<longrightarrow> Node d' (K (menc K m)) = Some (menc K m))"
proof -
  have enc: "EncodeToBytes (node_rlp n) = Inr (menc K m)"
    using EncodeToBytes_writes [of "mval K m"] encodable_mval fits_length [OF assms(2,3)] assms(1) by (simp add: menc_def)
  have hash: "(case c of Some x \<Rightarrow> x | None \<Rightarrow> Hash_Bytes (h_keccak h (menc K m))) = Hash_Bytes (K (menc K m))"
    using assms(7,8) by auto
  show ?thesis
  proof (cases "rt \<or> big K m")
    case False
    then have "store h n odb rt = Done (n, odb)" using enc assms(4,5) by (simp add: store_def big_def)
    then show ?thesis using False progressed_refl [OF assms(10)] by auto
  next
    case True
    show ?thesis
    proof (cases odb)
      case None
      then have "store h n odb rt = Done (HashNode (Hash_Bytes (K (menc K m))), None)"
        using True enc assms(4,5,6) hash by (auto simp: store_def big_def Let_def)
      then show ?thesis using True None by (auto simp: progressed_def)
    next
      case (Some d0)
      then have r: "room K A d" "odb = Some d" using assms(10) by (auto simp: starts_def)
      let ?x = "K (menc K m)"
      note ins = db_insert_room [OF r(1) assms(11)]
      obtain d1 where d1: "reference_children (direct_children n) ?x (db_insert ?x (menc K m) d) = Done d1"
          "same_blobs (db_insert ?x (menc K m) d) d1"
        using reference_children_blobs [OF ins(4)] by blast
      define d2 where "d2 = (case h_onleaf h of None \<Rightarrow> d1 | Some f \<Rightarrow> leaf_children f (direct_children n) ?x d1)"
      have "same_blobs d1 d2" using assms(9) leaf_children_blobs by (auto simp: d2_def split: option.splits)
      then have s: "same_blobs (db_insert ?x (menc K m) d) d2" using d1(2) same_blobs_trans by blast
      have "store h n odb rt = Done (HashNode (Hash_Bytes ?x), Some d2)"
        using True enc assms(4,5,6) hash r(2) d1(1) by (cases "h_onleaf h") (auto simp: store_def big_def Let_def d2_def)
      moreover have "room K A d2" "grown d d2" "Node d2 ?x = Some (menc K m)"
        using ins same_blobs_room [OF s] same_blobs_Node [OF s] grown_trans [OF _ same_blobs_grown [OF s]] by auto
      ultimately show ?thesis using True r by (auto simp: progressed_def)
    qed
  qed
qed

subsection \<open>Loaded nodes\<close>

definition loaded :: "node \<Rightarrow> bool" where
  "loaded n \<longleftrightarrow> (case n of ShortNode _ _ _ \<Rightarrow> True | FullNode _ _ \<Rightarrow> True | _ \<Rightarrow> False)"

definition flags :: "node \<Rightarrow> nodeFlag" where
  "flags n = (case n of ShortNode _ _ fl \<Rightarrow> fl | FullNode _ fl \<Rightarrow> fl | _ \<Rightarrow> \<lparr>nf_hash = None, nf_gen = 0, nf_dirty = True\<rparr>)"

definition body :: "(bytes \<Rightarrow> Hash) \<Rightarrow> TrieDatabase \<Rightarrow> node \<Rightarrow> mpt \<Rightarrow> bool" where
  "body K d n m \<longleftrightarrow>
     (case n of
        ShortNode k v _ \<Rightarrow> (\<exists>mc. m = MShort k mc \<and> repr K d False v mc)
      | FullNode cs _ \<Rightarrow> (\<exists>ms. m = MFull ms \<and> list_all2 (repr K d False) cs ms)
      | _ \<Rightarrow> False)"

definition avail_below :: "(bytes \<Rightarrow> Hash) \<Rightarrow> TrieDatabase \<Rightarrow> mpt \<Rightarrow> bool" where
  "avail_below K d m \<longleftrightarrow> (case m of MShort _ mc \<Rightarrow> avail K d mc | MFull ms \<Rightarrow> (\<forall>c \<in> set ms. avail K d c) | _ \<Rightarrow> True)"

lemma loaded_simps [simp]: "loaded (ShortNode k v fl)" "loaded (FullNode cs fl)"
  "flags (ShortNode k v fl) = fl" "flags (FullNode cs fl) = fl"
  by (simp_all add: loaded_def flags_def)

lemma repr_loaded: "loaded n \<Longrightarrow> repr K d rt n m \<longleftrightarrow> body K d n m \<and> flag_ok K d rt (flags n) m"
  by (cases n) (auto simp: body_def loaded_def elim: repr_ShortNode repr_FullNode intro: repr_short repr_full)

lemma loaded_cache: "loaded n \<Longrightarrow> node_cache n = Done (nf_hash (flags n), nf_dirty (flags n))"
  "loaded n \<Longrightarrow> canUnload n g l \<longleftrightarrow> canUnload_flag (flags n) g l"
  "loaded n \<Longrightarrow> n \<noteq> NilNode \<and> \<not> is_hash n"
  by (cases n; simp add: loaded_def)+

lemma avail_split: "canonical m \<Longrightarrow> avail K d m \<longleftrightarrow> (big K m \<longrightarrow> Node d (K (menc K m)) = Some (menc K m)) \<and> avail_below K d m"
  by (cases m) (simp_all add: avail_below_def)

lemma avail_below_grown: "avail_below K d m \<Longrightarrow> grown d d' \<Longrightarrow> avail_below K d' m"
  by (cases m) (auto simp: avail_below_def intro: avail_grown)

lemma body_grown: "body K d n m \<Longrightarrow> grown d d' \<Longrightarrow> body K d' n m"
  by (cases n) (auto simp: body_def intro: repr_grown elim!: list_all2_mono)

lemma set_cached_loaded:
  assumes "loaded cn"
  shows "loaded (set_cached hn b cn)" "body K d (set_cached hn b cn) m \<longleftrightarrow> body K d cn m"
    "flags (set_cached hn b cn) = (flags cn)\<lparr>nf_hash := (case hn of HashNode x \<Rightarrow> Some x | _ \<Rightarrow> None),
       nf_dirty := (if b then False else nf_dirty (flags cn))\<rparr>"
  using assms by (cases cn; simp add: set_cached_def body_def loaded_def Let_def)+

subsection \<open>One node, given its children\<close>

definition hash_ok :: "(bytes \<Rightarrow> Hash) \<Rightarrow> bytes set \<Rightarrow> bool \<Rightarrow> mpt \<Rightarrow> TrieDatabase option \<Rightarrow> TrieDatabase \<Rightarrow> hashed outcome \<Rightarrow> bool" where
  "hash_ok K A rt m odb d out \<longleftrightarrow>
     (\<exists>hn cn odb' d'. out = Done (hn, cn, odb') \<and> progressed K A odb d odb' d' \<and> hashed_as K rt m hn \<and> repr K d' rt cn m \<and>
        (odb \<noteq> None \<longrightarrow> avail K d' m \<and> (rt \<or> big K m \<longrightarrow> Node d' (K (menc K m)) = Some (menc K m))))"

definition kids_ok :: "(bytes \<Rightarrow> Hash) \<Rightarrow> bytes set \<Rightarrow> nodeFlag \<Rightarrow> mpt \<Rightarrow> TrieDatabase option \<Rightarrow> TrieDatabase \<Rightarrow> hashed outcome \<Rightarrow> bool" where
  "kids_ok K A fl m odb d out \<longleftrightarrow>
     (\<exists>co cn odb' d'. out = Done (co, cn, odb') \<and> progressed K A odb d odb' d' \<and> node_rlp co = mval K m \<and>
        loaded co \<and> flags co = fl \<and> loaded cn \<and> flags cn = fl \<and> body K d' cn m \<and> (odb \<noteq> None \<longrightarrow> avail_below K d' m))"

lemma kids_okI:
  "out = Done (co, cn, odb') \<Longrightarrow> progressed K A odb d odb' d' \<Longrightarrow> node_rlp co = mval K m \<Longrightarrow> loaded co \<Longrightarrow> flags co = fl \<Longrightarrow>
   loaded cn \<Longrightarrow> flags cn = fl \<Longrightarrow> body K d' cn m \<Longrightarrow> (odb \<noteq> None \<longrightarrow> avail_below K d' m) \<Longrightarrow> kids_ok K A fl m odb d out"
  unfolding kids_ok_def by blast

lemma hash_okI:
  "out = Done (hn, cn, odb') \<Longrightarrow> progressed K A odb d odb' d' \<Longrightarrow> hashed_as K rt m hn \<Longrightarrow> repr K d' rt cn m \<Longrightarrow>
   (odb \<noteq> None \<longrightarrow> avail K d' m \<and> (rt \<or> big K m \<longrightarrow> Node d' (K (menc K m)) = Some (menc K m))) \<Longrightarrow> hash_ok K A rt m odb d out"
  unfolding hash_ok_def by blast

lemma hash_cached:
  \<comment> \<open>the cached hash of a node is used\<close>
  assumes "loaded n" "repr K d rt n m" "starts K A odb d" "nf_hash (flags n) = Some x"
    and "odb = None \<or> \<not> nf_dirty (flags n)"
  shows "hash_ok K A rt m odb d (hash_with h kids n odb rt)"
proof -
  have fl: "x = Hash_Bytes (K (menc K m))" "rt \<or> big K m" "\<not> nf_dirty (flags n) \<longrightarrow> stored K d m"
    using assms(1,2,4) by (auto simp: repr_loaded flag_ok_def)
  define cn where "cn = (if odb \<noteq> None \<and> canUnload n (h_cachegen h) (h_cachelimit h) then HashNode x else n)"
  have out: "hash_with h kids n odb rt = Done (HashNode x, cn, odb)"
    using assms(1,4,5) by (auto simp: hash_with_def loaded_cache cn_def)
  have "repr K d rt cn m"
    using assms(1,2) fl by (auto simp: cn_def loaded_cache canUnload_flag_def intro!: repr_hash)
  then show ?thesis
    by (rule hash_okI [OF out progressed_refl [OF assms(3)], rotated])
      (use fl assms(5) in \<open>auto simp: hashed_as_def stored_def\<close>)
qed

lemma hash_computed:
  assumes "loaded n" "repr K d rt n m" "canonical m" "fits K m" "menc K m \<in> A" "h_keccak h = K" "leaf_ok (h_onleaf h)"
    and "nf_hash (flags n) = None \<or> odb \<noteq> None \<and> nf_dirty (flags n)" "kids_ok K A (flags n) m odb d (kids odb)"
  shows "hash_ok K A rt m odb d (hash_with h kids n odb rt)"
proof -
  obtain co cn odb1 d1 where k: "kids odb = Done (co, cn, odb1)" "progressed K A odb d odb1 d1" "node_rlp co = mval K m"
      "loaded co" "flags co = flags n" "loaded cn" "flags cn = flags n" "body K d1 cn m" "odb \<noteq> None \<longrightarrow> avail_below K d1 m"
    using assms(9) unfolding kids_ok_def by blast
  have fl: "flag_ok K d rt (flags n) m" using assms(1,2) by (simp add: repr_loaded)
  have c: "nf_hash (flags n) = None \<or> nf_hash (flags n) = Some (Hash_Bytes (K (menc K m)))"
    using fl by (auto simp: flag_ok_def split: option.splits)
  obtain hn odb2 d2 where s: "store h co odb1 rt = Done (hn, odb2)" "progressed K A odb1 d1 odb2 d2"
      "if rt \<or> big K m then hn = HashNode (Hash_Bytes (K (menc K m))) else hn = co"
      "odb1 \<noteq> None \<longrightarrow> rt \<or> big K m \<longrightarrow> Node d2 (K (menc K m)) = Some (menc K m)"
    using store_ok [OF k(3) assms(3,4) _ _ loaded_cache(1) [OF k(4)], of h A odb1 d1 rt] loaded_cache(3) [OF k(4)] k(5) c
      assms(5,6,7) progressed_starts [OF k(2)] by auto
  have p: "progressed K A odb d odb2 d2" by (rule progressed_trans [OF k(2) s(2)])
  have g: "grown d1 d2" by (rule progressed_grown [OF s(2)])
  have n1: "odb1 \<noteq> None \<longleftrightarrow> odb \<noteq> None" using progressed_None [OF k(2)] by simp
  have out: "hash_with h kids n odb rt = Done (hn, set_cached hn (odb \<noteq> None) cn, odb2)"
    using assms(1,8) k(1) s(1) fl by (auto simp: hash_with_def loaded_cache canUnload_flag_def)
  have av: "odb \<noteq> None \<longrightarrow> avail K d2 m \<and> (rt \<or> big K m \<longrightarrow> Node d2 (K (menc K m)) = Some (menc K m))"
    using s(4) n1 k(9) avail_below_grown [OF _ g] assms(3) by (auto simp: avail_split)
  have dirty: "odb = None \<Longrightarrow> rt \<or> big K m \<Longrightarrow> nf_dirty (flags n)"
    using fl assms(8) by (auto simp: flag_ok_def split: option.splits)
  have nh: "rt \<or> big K m \<or> \<not> is_hash hn" using s(3) loaded_cache(3) [OF k(4)] by auto
  have "flag_ok K d2 rt (flags (set_cached hn (odb \<noteq> None) cn)) m"
    using s(3) av dirty nh assms(3,4)
    by (auto simp: set_cached_loaded(3) [OF k(6)] k(7) flag_ok_def stored_def is_hash_iff split: node.splits if_splits)
  then have "repr K d2 rt (set_cached hn (odb \<noteq> None) cn) m"
    using body_grown [OF k(8) g] set_cached_loaded [OF k(6)] by (simp add: repr_loaded)
  then show ?thesis
    by (rule hash_okI [OF out p, rotated]) (use s(3) k(3) loaded_cache(3) [OF k(4)] av in \<open>auto simp: hashed_as_def\<close>)
qed

subsection \<open>The whole trie\<close>

lemma menc_encs: "canonical m \<Longrightarrow> menc K m \<in> encs K m"
  by (cases m) auto

lemma hash_from_kids:
  assumes "repr K d rt n m" "canonical m" "fits K m" "encs K m \<subseteq> A" "h_keccak h = K" "leaf_ok (h_onleaf h)" "starts K A odb d"
    and "loaded n \<Longrightarrow> kids_ok K A (flags n) m odb d (hashChildren h n odb)"
  shows "hash_ok K A rt m odb d (hash_node h n odb rt)"
proof (cases "loaded n")
  case True
  have "menc K m \<in> A" using menc_encs assms(2,4) by blast
  note from_kids = hash_computed [where kids = "hashChildren h n", OF True assms(1-3) this assms(5,6)]
  consider (cached) x where "nf_hash (flags n) = Some x" "odb = None \<or> \<not> nf_dirty (flags n)"
    | (computed) "nf_hash (flags n) = None \<or> odb \<noteq> None \<and> nf_dirty (flags n)"
    by (cases "nf_hash (flags n)"; cases odb; cases "nf_dirty (flags n)") auto
  then show ?thesis
  proof cases
    case cached
    then show ?thesis unfolding hash_node_def by (rule hash_cached [OF True assms(1,7)])
  next
    case computed
    then show ?thesis unfolding hash_node_def by (rule from_kids [OF _ assms(8) [OF True]])
  qed
next
  case False
  then obtain x where x: "n = HashNode x" using assms(1,2) by (cases n) (auto simp: loaded_def elim: repr_ValueNode)
  then have "x = Hash_Bytes (K (menc K m))" "stored K d m" "rt \<or> big K m" using assms(1) by (auto elim: repr_HashNode)
  moreover have out: "hash_node h n odb rt = Done (n, n, odb)"
    by (simp add: hash_node_def hash_with_def x store_def set_cached_def)
  ultimately show ?thesis
    using x assms(1) by (intro hash_okI [OF out progressed_refl [OF assms(7)]]) (auto simp: hashed_as_def stored_def)
qed

lemma hashed_as_mref: "canonical m \<Longrightarrow> hashed_as K False m hn \<Longrightarrow> node_rlp hn = mref K m \<and> hn \<noteq> NilNode"
  by (auto simp: hashed_as_def mref_small split: if_splits)

lemma hash_slots_repr:
  assumes "list_all2 (repr K d False) cs ms" "\<And>j. j < length ms \<Longrightarrow> if i + j < 16 then subtrie (ms ! j) else leaf (ms ! j)"
    and "\<forall>c \<in> set ms. fits K c \<and> encs K c \<subseteq> A" "starts K A odb d"
    and "\<And>c m odb d. c \<in> set cs \<Longrightarrow> canonical m \<Longrightarrow> fits K m \<Longrightarrow> encs K m \<subseteq> A \<Longrightarrow> repr K d False c m \<Longrightarrow> starts K A odb d \<Longrightarrow>
      hash_ok K A False m odb d (hash_node h c odb False)"
  shows "\<exists>ccs scs odb' d'. hash_slots h cs i odb = Done (ccs, scs, odb') \<and> progressed K A odb d odb' d' \<and>
    map node_rlp ccs = map (mref K) ms \<and> list_all2 (repr K d' False) scs ms \<and> (odb \<noteq> None \<longrightarrow> (\<forall>c \<in> set ms. avail K d' c))"
  using assms
proof (induction cs arbitrary: ms i odb d)
  case Nil
  then show ?case using progressed_refl [OF Nil.prems(4)] by (intro exI [of _ odb] exI [of _ d] exI [of _ "[]"]) simp
next
  case (Cons c cs)
  obtain m ms' where ms: "ms = m # ms'" "repr K d False c m" "list_all2 (repr K d False) cs ms'"
    using Cons.prems(1) by (auto simp: list_all2_Cons1)
  let ?head = "if i < 16 then (if c \<noteq> NilNode then hash_node h c odb False else Done (ValueNode [], NilNode, odb))
    else Done (if c = NilNode then ValueNode [] else c, c, odb)"
  have seat0: "if i < 16 then subtrie m else leaf m" using Cons.prems(2) [of 0] ms(1) by (auto split: if_splits)
  obtain cc sc odb1 d1 where h: "?head = Done (cc, sc, odb1)" "progressed K A odb d odb1 d1" "node_rlp cc = mref K m"
      "repr K d1 False sc m" "odb \<noteq> None \<longrightarrow> avail K d1 m"
  proof (cases "i < 16 \<and> c \<noteq> NilNode")
    case True
    then have "canonical m" using seat0 ms(2) by (auto simp: subtrie_def)
    moreover then have "hash_ok K A False m odb d (hash_node h c odb False)"
      using Cons.prems(3,4,5) ms(1,2) by simp
    ultimately show ?thesis using that True hashed_as_mref unfolding hash_ok_def by fastforce
  next
    case False
    have "?head = Done (if c = NilNode then ValueNode [] else c, c, odb)" using False by auto
    moreover have "node_rlp (if c = NilNode then ValueNode [] else c) = mref K m" "avail K d m"
      using False seat0 ms(2) by (auto simp: leaf_def mref_small split: mpt.splits if_splits)
    ultimately show ?thesis using that progressed_refl [OF Cons.prems(4)] ms(2) by blast
  qed
  have g1: "grown d d1" by (rule progressed_grown [OF h(2)])
  have l1: "list_all2 (repr K d1 False) cs ms'" using ms(3) repr_grown [OF _ g1] by (auto elim: list_all2_mono)
  have seats: "if Suc i + j < 16 then subtrie (ms' ! j) else leaf (ms' ! j)" if "j < length ms'" for j
    using Cons.prems(2) [of "Suc j"] that ms(1) by (auto split: if_splits)
  have f: "\<forall>c \<in> set ms'. fits K c \<and> encs K c \<subseteq> A" using Cons.prems(3) ms(1) by simp
  obtain ccs scs odb2 d2 where t: "hash_slots h cs (Suc i) odb1 = Done (ccs, scs, odb2)" "progressed K A odb1 d1 odb2 d2"
      "map node_rlp ccs = map (mref K) ms'" "list_all2 (repr K d2 False) scs ms'" "odb1 \<noteq> None \<longrightarrow> (\<forall>c \<in> set ms'. avail K d2 c)"
    using Cons.IH [OF l1 seats f progressed_starts [OF h(2)] Cons.prems(5) [OF list.set_intros(2)]] by blast
  have g2: "grown d1 d2" by (rule progressed_grown [OF t(2)])
  have "hash_slots h (c # cs) i odb =
      obind ?head (\<lambda>(cc, sc, odb1). obind (hash_slots h cs (i + 1) odb1) (\<lambda>(ccs, scs, odb2). Done (cc # ccs, sc # scs, odb2)))"
    by (simp only: hash_slots.simps hash_node_def)
  then have out: "hash_slots h (c # cs) i odb = Done (cc # ccs, sc # scs, odb2)"
    by (simp only: h(1) t(1) obind_Done prod.case Suc_eq_plus1 [symmetric])
  have "repr K d2 False sc m" "odb \<noteq> None \<longrightarrow> avail K d2 m" using h(4,5) repr_grown [OF _ g2] avail_grown [OF _ g2] by auto
  then show ?case
    unfolding out using h(3) t(3-5) ms(1) progressed_trans [OF h(2) t(2)] progressed_None [OF h(2)]
    by (intro exI [of _ "cc # ccs"] exI [of _ "sc # scs"] exI [of _ odb2] exI [of _ d2]) auto
qed

lemma hashChildren_repr:
  assumes "loaded n" "repr K d rt n m" "canonical m" "fits K m" "encs K m \<subseteq> A" "h_keccak h = K" "leaf_ok (h_onleaf h)" "starts K A odb d"
  shows "kids_ok K A (flags n) m odb d (hashChildren h n odb)"
  using assms
proof (induction n arbitrary: m d rt odb)
  case (ShortNode k v fl)
  obtain mc where m: "m = MShort k mc" "repr K d False v mc" using ShortNode.prems(2) by (auto elim: repr_ShortNode)
  have can: "canonical (MShort k mc)" using ShortNode.prems(3) m(1) by simp
  have k: "hexToCompact k = Done (compact k)" using hexToCompact_fragment [OF canonical_fragment [OF can]] by simp
  let ?val = "case v of ValueNode _ \<Rightarrow> Done (v, v, odb) | _ \<Rightarrow> hash_node h v odb False"
  obtain cv sv odb1 d1 where h: "?val = Done (cv, sv, odb1)" "progressed K A odb d odb1 d1" "node_rlp cv = mref K mc" "cv \<noteq> NilNode"
      "repr K d1 False sv mc" "odb \<noteq> None \<longrightarrow> avail K d1 mc"
  proof (cases "\<exists>x. mc = MValue x")
    case True
    then obtain x where x: "mc = MValue x" "v = ValueNode x" using m(2) by auto
    then show ?thesis using that [of v v odb d] progressed_refl [OF ShortNode.prems(8)] by (simp add: mref_small repr_value)
  next
    case False
    then have c: "canonical mc" using can by (auto simp: canonical_MShort)
    have f: "fits K mc" "encs K mc \<subseteq> A" using ShortNode.prems(4,5) m(1) by auto
    have "hash_ok K A False mc odb d (hash_node h v odb False)"
      by (rule hash_from_kids [OF m(2) c f ShortNode.prems(6-8) ShortNode.IH [OF _ m(2) c f ShortNode.prems(6-8)]])
    moreover have "?val = hash_node h v odb False" using m(2) False by (cases v) (auto elim: repr_ValueNode)
    ultimately obtain hn cn odb' d' where "?val = Done (hn, cn, odb')" "progressed K A odb d odb' d'" "hashed_as K False mc hn"
        "repr K d' False cn mc" "odb \<noteq> None \<longrightarrow> avail K d' mc"
      unfolding hash_ok_def by auto
    then show ?thesis using that hashed_as_mref [OF c] by blast
  qed
  have "hashChildren h (ShortNode k v fl) odb =
      obind (hexToCompact k) (\<lambda>ck. obind ?val (\<lambda>(cv, sv, odb1).
        Done (ShortNode ck (if cv = NilNode then ValueNode [] else cv) fl, ShortNode k sv fl, odb1)))"
    by (simp only: hashChildren.simps hash_node_def)
  then have out: "hashChildren h (ShortNode k v fl) odb = Done (ShortNode (compact k) cv fl, ShortNode k sv fl, odb1)"
    using h(4) by (simp only: k h(1) obind_Done prod.case if_False)
  have "node_rlp (ShortNode (compact k) cv fl) = mval K m" using h(3) m(1) by (simp add: mref_def)
  then show ?case
    by (rule kids_okI [OF out h(2)]) (use h(5,6) m(1) in \<open>simp_all add: body_def avail_below_def\<close>)
next
  case (FullNode cs fl)
  obtain ms where m: "m = MFull ms" "list_all2 (repr K d False) cs ms" using FullNode.prems(2) by (auto elim: repr_FullNode)
  have can: "length ms = 17" "\<forall>i < 16. subtrie (ms ! i)" "leaf (ms ! 16)" using FullNode.prems(3) m(1) by (simp_all add: canonical_MFull)
  have seats: "if 0 + j < 16 then subtrie (ms ! j) else leaf (ms ! j)" if "j < length ms" for j
    using can that by (cases "j = 16") auto
  have kid: "hash_ok K A False mc odb' d' (hash_node h c odb' False)"
    if "c \<in> set cs" "canonical mc" "fits K mc" "encs K mc \<subseteq> A" "repr K d' False c mc" "starts K A odb' d'" for c mc odb' d'
    by (rule hash_from_kids [OF that(5,2-4) FullNode.prems(6,7) that(6) FullNode.IH [OF that(1) _ that(5,2-4) FullNode.prems(6,7) that(6)]])
  have "\<forall>c \<in> set ms. fits K c \<and> encs K c \<subseteq> A" using FullNode.prems(4,5) m(1) by auto
  from hash_slots_repr [OF m(2) seats this FullNode.prems(8) kid]
  obtain ccs scs odb1 d1 where h: "hash_slots h cs 0 odb = Done (ccs, scs, odb1)" "progressed K A odb d odb1 d1"
      "map node_rlp ccs = map (mref K) ms" "list_all2 (repr K d1 False) scs ms" "odb \<noteq> None \<longrightarrow> (\<forall>c \<in> set ms. avail K d1 c)"
    by blast
  then have out: "hashChildren h (FullNode cs fl) odb = Done (FullNode ccs fl, FullNode scs fl, odb1)" by simp
  have "node_rlp (FullNode ccs fl) = mval K m" using h(3) m(1) by (simp add: mref_def)
  then show ?case
    by (rule kids_okI [OF out h(2)]) (use h(4,5) m(1) in \<open>simp_all add: body_def avail_below_def\<close>)
qed (simp_all add: loaded_def)

lemma hash_node_repr:
  assumes "repr K d rt n m" "canonical m" "fits K m" "encs K m \<subseteq> A" "h_keccak h = K" "leaf_ok (h_onleaf h)" "starts K A odb d"
  shows "hash_ok K A rt m odb d (hash_node h n odb rt)"
  using assms by (intro hash_from_kids hashChildren_repr) auto

end
