(* ===== verification/Trie_Properties.thy ===== *)
theory Trie_Properties
  imports Trie_Root
begin

text \<open>
  The properties of the trie as a whole: its operations implement a finite map, its root hash is a function
  of that map alone, and committing and reopening a trie loses nothing. The contract of a key-value store is
  a locale; the trie over any database interprets it.
\<close>

subsection \<open>The map a trie implements\<close>

definition contents :: "mpt \<Rightarrow> bytes \<rightharpoonup> bytes" where
  "contents m key = mget m (keybytesToHex key)"

definition mtrie :: "mpt \<Rightarrow> bool" where
  \<comment> \<open>canonical, and every key is a sequence of whole bytes\<close>
  "mtrie m \<longleftrightarrow> subtrie m \<and> (\<forall>k. mget m k \<noteq> None \<longrightarrow> k \<in> range keybytesToHex)"

definition holds :: "(bytes \<Rightarrow> Hash) \<Rightarrow> TrieDatabase \<Rightarrow> Trie \<Rightarrow> mpt \<Rightarrow> bool" where
  "holds K db t m \<longleftrightarrow> repr K db True (tr_root t) m \<and> mtrie m"

lemma inj_keybytesToHex: "keybytesToHex a = keybytesToHex b \<longleftrightarrow> a = b"
proof
  assume e: "keybytesToHex a = keybytesToHex b"
  then have c: "concat (map (\<lambda>b. [b div 16, b mod 16]) a) = concat (map (\<lambda>b. [b div 16, b mod 16]) b)" (is "?f a = ?f b")
    by (simp add: keybytesToHex_def)
  have "2 * length xs = length (?f xs)" for xs :: bytes by (simp add: length_concat_pairs)
  from this [of a] this [of b] have l: "length a = length b" unfolding c by linarith
  have "Done a = decodeNibbles (?f a) (replicate (length a) 0)" by (rule decodeNibbles_keybytes [symmetric])
  also have "\<dots> = decodeNibbles (?f b) (replicate (length b) 0)" by (simp only: c l)
  also have "\<dots> = Done b" by (rule decodeNibbles_keybytes)
  finally show "a = b" by simp
qed simp

lemma mtrie_upd:
  assumes "mtrie m" "subtrie m'" "mget m' = (mget m)(keybytesToHex key := z)"
  shows "mtrie m'" "contents m' = (contents m)(key := z)"
  using assms by (auto simp: mtrie_def contents_def fun_eq_iff inj_keybytesToHex)

lemma mtrie_contents: "mtrie m \<Longrightarrow> mtrie n \<Longrightarrow> contents m = contents n \<Longrightarrow> m = n"
proof -
  assume a: "mtrie m" "mtrie n" "contents m = contents n"
  have "mget m k = mget n k" for k
  proof (cases "k \<in> range keybytesToHex")
    case True
    then show ?thesis using fun_cong [OF a(3)] by (auto simp: contents_def)
  next
    case False
    then have "mget m k = None" "mget n k = None" using a(1,2) unfolding mtrie_def by blast+
    then show ?thesis by simp
  qed
  then have "mget m = mget n" by (rule ext)
  then show ?thesis using a canonical_unique by (simp add: mtrie_def)
qed

lemma length_keybytesToHex: "length (keybytesToHex key) = 2 * length key + 1"
  by (simp add: keybytesToHex_def length_concat_pairs)

lemma root_cost: "4 * length key + 4 \<le> fuel \<Longrightarrow> cost n (keybytesToHex key) \<le> fuel"
  using cost_le [of n "keybytesToHex key"] by (simp add: length_keybytesToHex)

lemma mtrie_seat: "mtrie m \<Longrightarrow> seat (keybytesToHex key) m"
  using hexkey_keybytesToHex seat_Cons by (simp add: mtrie_def)

lemma Trie_TryGet_holds:
  assumes "holds K db t m" "4 * length key + 4 \<le> fuel"
  shows "\<exists>t'. Trie_TryGet fuel db key t = Done (t', contents m key, None) \<and> holds K db t' m"
proof -
  obtain n' r where "tryGet fuel db t (tr_root t) (keybytesToHex key) 0 = Done (mget m (keybytesToHex key), n', r, None)" "repr K db True n' m"
    using tryGet_repr [of K db True "tr_root t" m 0 "keybytesToHex key" fuel t] assms root_cost mtrie_seat by (auto simp: holds_def)
  then show ?thesis using assms(1) by (auto simp: Trie_TryGet_def holds_def contents_def)
qed

lemma Trie_TryDelete_holds:
  assumes "holds K db t m" "4 * length key + 4 \<le> fuel"
  shows "\<exists>t' m'. Trie_TryDelete fuel db key t = Done (t', None) \<and> holds K db t' m' \<and> contents m' = (contents m)(key := None)"
proof -
  have "dropped K db True (keybytesToHex key) m (delete_node fuel db t (tr_root t) [] (keybytesToHex key))"
    using assms root_cost mtrie_seat by (intro delete_repr) (auto simp: holds_def)
  then obtain dirty n' m' where d: "delete_node fuel db t (tr_root t) [] (keybytesToHex key) = Done (dirty, n', None)" "repr K db True n' m'"
      "seat (keybytesToHex key) m'" "mget m' = (mget m)(keybytesToHex key := None)"
    by (rule droppedE)
  then have "subtrie m'" using hexkey_keybytesToHex seat_Cons by blast
  then show ?thesis
    using d assms(1) mtrie_upd [of m m' key None] by (auto simp: Trie_TryDelete_def holds_def)
qed

lemma Trie_TryUpdate_holds:
  assumes "holds K db t m" "4 * length key + 4 \<le> fuel"
  shows "\<exists>t' m'. Trie_TryUpdate fuel db key val t = Done (t', None) \<and> holds K db t' m' \<and>
    contents m' = (contents m)(key := if val = [] then None else Some val)"
proof (cases "val = []")
  case True
  then show ?thesis using Trie_TryDelete_holds [OF assms] by (simp add: Trie_TryUpdate_def Trie_TryDelete_def)
next
  case False
  have "inserted K db True (keybytesToHex key) val m (insert_node fuel db t (tr_root t) [] (keybytesToHex key) (ValueNode val))"
    using assms False root_cost mtrie_seat by (intro insert_repr) (auto simp: holds_def)
  then obtain dirty n' m' where d: "insert_node fuel db t (tr_root t) [] (keybytesToHex key) (ValueNode val) = Done (dirty, n', None)"
      "repr K db True n' m'" "seat (keybytesToHex key) m'" "mget m' = (mget m)(keybytesToHex key \<mapsto> val)"
    by (rule insertedE)
  then have "subtrie m'" using hexkey_keybytesToHex seat_Cons by blast
  then show ?thesis
    using d False assms(1) mtrie_upd [of m m' key "Some val"] by (auto simp: Trie_TryUpdate_def holds_def)
qed

lemma Trie_Hash_holds:
  assumes "holds K db t m" "fits K m"
  shows "\<exists>t'. Trie_Hash K t = Done (t', mhash K m) \<and> holds K db t' m"
proof (cases "m = MNil")
  case True
  then show ?thesis
    using assms(1) by (simp add: holds_def Trie_Hash_def hashRoot_def node_hash_def mhash_def)
next
  case False
  then have c: "canonical m" using assms(1) by (simp add: holds_def mtrie_def subtrie_def)
  let ?h = "newHasher K (tr_cachegen t) (tr_cachelimit t) None"
  have "hash_ok K (encs K m) True m None db (hash_node ?h (tr_root t) None True)"
    using assms c by (intro hash_node_repr) (auto simp: holds_def newHasher_def leaf_ok_def starts_def)
  moreover have "tr_root t \<noteq> NilNode" using assms(1) False by (auto simp: holds_def)
  ultimately show ?thesis
    using assms(1) False unfolding hash_ok_def
    by (auto simp: hashed_as_def progressed_def Trie_Hash_def hashRoot_def node_hash_def mhash_def holds_def)
qed

definition distinct_hashes :: "(bytes \<Rightarrow> Hash) \<Rightarrow> TrieDatabase \<Rightarrow> mpt \<Rightarrow> bool" where
  \<comment> \<open>the nodes of \<open>m\<close> collide neither with each other nor with nodes in the database, nor with the two
    hashes that stand for the empty trie\<close>
  "distinct_hashes K db m \<longleftrightarrow> room K (encs K m) db \<and> K (menc K m) \<noteq> 0 \<and> K (menc K m) \<noteq> emptyRoot"

lemma Trie_Commit_holds:
  assumes "holds K db t m" "fits K m" "distinct_hashes K db m" "leaf_ok onleaf"
  shows "\<exists>t' db'. Trie_Commit K onleaf t db = Done (t', db', mhash K m) \<and> holds K db' t' m \<and> grown db db' \<and> (m \<noteq> MNil \<longrightarrow> stored K db' m)"
proof (cases "m = MNil")
  case True
  then show ?thesis
    using assms(1) by (simp add: holds_def Trie_Commit_def hashRoot_def node_hash_def mhash_def)
next
  case False
  then have c: "canonical m" using assms(1) by (simp add: holds_def mtrie_def subtrie_def)
  let ?h = "newHasher K (tr_cachegen t) (tr_cachelimit t) onleaf"
  have "hash_ok K (encs K m) True m (Some db) db (hash_node ?h (tr_root t) (Some db) True)"
    using assms c by (intro hash_node_repr) (auto simp: holds_def newHasher_def starts_def distinct_hashes_def)
  then obtain cn db' where h: "hash_node ?h (tr_root t) (Some db) True = Done (HashNode (Hash_Bytes (K (menc K m))), cn, Some db')"
      "grown db db'" "repr K db' True cn m" "avail K db' m" "Node db' (K (menc K m)) = Some (menc K m)"
    unfolding hash_ok_def by (auto simp: hashed_as_def progressed_def)
  moreover have "tr_root t \<noteq> NilNode" using assms(1) False by (auto simp: holds_def)
  ultimately show ?thesis
    using assms(1,2) False c by (auto simp: Trie_Commit_def hashRoot_def node_hash_def mhash_def holds_def stored_def)
qed

lemma Trie_New_holds:
  assumes "mtrie m" "m \<noteq> MNil \<longrightarrow> stored K db m \<and> K (menc K m) \<noteq> 0 \<and> K (menc K m) \<noteq> emptyRoot"
  shows "\<exists>t. Trie_New (mhash K m) db = Done (Inr t) \<and> holds K db t m"
proof (cases "m = MNil")
  case True
  then show ?thesis using assms(1) by (simp add: Trie_New_def mhash_def holds_def)
next
  case False
  then have s: "stored K db m" "K (menc K m) \<noteq> 0" "K (menc K m) \<noteq> emptyRoot" using assms(2) by auto
  let ?t = "\<lparr>tr_root = NilNode, tr_originalRoot = K (menc K m), tr_cachegen = 0, tr_cachelimit = 0\<rparr>"
  obtain n where "resolveHash db ?t (Hash_Bytes (K (menc K m))) [] = Done (Inr n)" "repr K db True n m"
    using resolveHash_stored [OF s(1), of True ?t "[]"] by auto
  then show ?thesis using False s assms(1) by (simp add: Trie_New_def mhash_def holds_def Let_def)
qed

subsection \<open>The contract of a key-value store\<close>

locale key_value_store =
  fixes get :: "'s \<Rightarrow> 'k \<Rightarrow> 'v option" and put :: "'k \<Rightarrow> 'w \<Rightarrow> 's \<Rightarrow> 's" and entry :: "'w \<Rightarrow> 'v option" and inv :: "'s \<Rightarrow> bool"
  assumes inv_put: "inv s \<Longrightarrow> inv (put k w s)"
    and get_put: "inv s \<Longrightarrow> get (put k w s) = (get s)(k := entry w)"
begin

lemma puts_inv: "inv s \<Longrightarrow> inv (fold (\<lambda>(k, w). put k w) kws s)"
  by (induction kws arbitrary: s) (auto simp: inv_put)

lemma last_write:
  "inv s \<Longrightarrow> get (fold (\<lambda>(k, w). put k w) kws s) k = (case map_of (rev kws) k of None \<Rightarrow> get s k | Some w \<Rightarrow> entry w)"
proof (induction kws arbitrary: s)
  case (Cons kw kws)
  obtain k' w where "kw = (k', w)" by (cases kw)
  then show ?case
    using Cons.IH [of "put k' w s"] Cons.prems
    by (auto simp: inv_put get_put map_add_def split: option.splits)
qed simp

end

definition get_key :: "TrieDatabase \<Rightarrow> Trie \<Rightarrow> bytes \<Rightarrow> bytes option" where
  "get_key db t key = (case Get (4 * length key + 4) db key t of Done (_, v) \<Rightarrow> v | _ \<Rightarrow> None)"

definition put_key :: "TrieDatabase \<Rightarrow> bytes \<Rightarrow> bytes \<Rightarrow> Trie \<Rightarrow> Trie" where
  "put_key db key v t = (case Update (4 * length key + 4) db key v t of Done t' \<Rightarrow> t' | _ \<Rightarrow> t)"

definition entry_of :: "bytes \<Rightarrow> bytes option" where
  \<comment> \<open>an empty value removes the key\<close>
  "entry_of v = (if v = [] then None else Some v)"

lemma get_key_holds:
  assumes "holds K db t m"
  shows "get_key db t key = contents m key"
proof -
  obtain t' where "Trie_TryGet (4 * length key + 4) db key t = Done (t', contents m key, None)"
    using Trie_TryGet_holds [OF assms order_refl] by blast
  then show ?thesis by (simp add: get_key_def Get_def)
qed

lemma put_key_holds:
  assumes "holds K db t m"
  shows "\<exists>m'. holds K db (put_key db key v t) m' \<and> contents m' = (contents m)(key := entry_of v)"
proof -
  obtain t' m' where t: "Trie_TryUpdate (4 * length key + 4) db key v t = Done (t', None)" "holds K db t' m'"
      "contents m' = (contents m)(key := if v = [] then None else Some v)"
    using Trie_TryUpdate_holds [OF assms order_refl] by blast
  then have "put_key db key v t = t'" by (simp add: put_key_def Update_def)
  then show ?thesis using t(2,3) unfolding entry_of_def by blast
qed

interpretation trie_store: key_value_store "get_key db" "put_key db" entry_of "\<lambda>t. \<exists>m. holds K db t m" for K db
proof
  fix t k w
  assume "\<exists>m. holds K db t m"
  then obtain m where m: "holds K db t m" by blast
  obtain m' where m': "holds K db (put_key db k w t) m'" "contents m' = (contents m)(k := entry_of w)"
    using put_key_holds [OF m] by blast
  then show "\<exists>m. holds K db (put_key db k w t) m" by blast
  show "get_key db (put_key db k w t) = (get_key db t)(k := entry_of w)"
    using get_key_holds [OF m] get_key_holds [OF m'(1)] m'(2) by (simp add: fun_eq_iff)
qed

subsection \<open>Sample tries\<close>

definition emptyMPT :: Trie where
  "emptyMPT = \<lparr>tr_root = NilNode, tr_originalRoot = 0, tr_cachegen = 0, tr_cachelimit = 0\<rparr>"

definition sampleDb :: TrieDatabase where
  "sampleDb = NewDatabase Map.empty"

definition sampleLeaf :: mpt where
  "sampleLeaf = MShort [6, 4, 6, 15, 16] (MValue [1, 2])"

definition sampleTrie :: "16 word \<Rightarrow> Trie" where
  \<comment> \<open>the trie with the key \<open>do\<close>, written in cache generation \<open>g\<close>\<close>
  "sampleTrie g = emptyMPT\<lparr>tr_root := ShortNode [6, 4, 6, 15, 16] (ValueNode [1, 2]) \<lparr>nf_hash = None, nf_gen = g, nf_dirty = True\<rparr>\<rparr>"

lemma emptyMPT_holds: "holds K db emptyMPT MNil"
  by (simp add: holds_def emptyMPT_def mtrie_def)

lemma sampleLeaf_mtrie: "mtrie sampleLeaf" "canonical sampleLeaf"
proof -
  have "hexkey ([6, 4, 6, 15] @ [16])" unfolding hexkey_def by (intro exI [of _ "[6, 4, 6, 15]"]) (simp add: word_less_nat_alt)
  then show c: "canonical sampleLeaf" by (simp add: sampleLeaf_def canonical_MShort)
  have "keybytesToHex [0x64, 0x6F] = [6, 4, 6, 15, 16]" by code_simp
  then have "[6, 4, 6, 15, 16] \<in> range keybytesToHex" by (metis rangeI)
  then show "mtrie sampleLeaf" using c by (auto simp: mtrie_def subtrie_def sampleLeaf_def mget_single split: if_splits)
qed

lemma sampleTrie_holds: "holds K db (sampleTrie g) sampleLeaf"
  using sampleLeaf_mtrie(1)
  by (auto simp: holds_def sampleTrie_def sampleLeaf_def flag_ok_def intro!: repr_short repr_value)

lemma sampleLeaf_enc: "menc K sampleLeaf = [0xC7, 0x83, 0x20, 0x64, 0x6F, 0x82, 1, 2]"
proof -
  have "compact [6, 4, 6, 15, 16] = [0x20, 0x64, 0x6F]" by code_simp
  then have "menc K sampleLeaf = encoding (VList [VBytes [0x20, 0x64, 0x6F], VBytes [1, 2]])"
    by (simp add: sampleLeaf_def menc_def ref_of_def)
  also have "\<dots> = [0xC7, 0x83, 0x20, 0x64, 0x6F, 0x82, 1, 2]" by code_simp
  finally show ?thesis .
qed

lemma sampleLeaf_fits: "fits K sampleLeaf"
  using sampleLeaf_enc [of K] by (simp add: sampleLeaf_def)

lemma sample_distinct: "distinct_hashes (\<lambda>_. 7) sampleDb sampleLeaf"
  by (simp add: distinct_hashes_def room_def sampleLeaf_def sampleDb_def NewDatabase_def Node_def emptyRoot_def)

subsection \<open>Properties\<close>

text \<open>
  C5. The trie implements a finite map. On a trie that represents \<open>m\<close>, partly loaded and partly in the
  database, \<open>Trie_TryGet\<close> returns the value of the key, \<open>Trie_TryUpdate\<close> sets it (or removes it when the value is
  empty) and \<open>Trie_TryDelete\<close> removes it; all return without error or panic, change no other key, and the result
  represents a canonical trie again. Fuel of four times the length of the key and four is enough.
\<close>

theorem Trie_refines_map:
  assumes "holds K db t m" "4 * length key + 4 \<le> fuel"
  shows "(\<exists>t'. Trie_TryGet fuel db key t = Done (t', contents m key, None) \<and> holds K db t' m) \<and>
    (\<exists>t' m'. Trie_TryUpdate fuel db key val t = Done (t', None) \<and> holds K db t' m' \<and>
      contents m' = (contents m)(key := if val = [] then None else Some val)) \<and>
    (\<exists>t' m'. Trie_TryDelete fuel db key t = Done (t', None) \<and> holds K db t' m' \<and> contents m' = (contents m)(key := None))"
  using Trie_TryGet_holds [OF assms] Trie_TryUpdate_holds [OF assms] Trie_TryDelete_holds [OF assms] by blast

theorem Trie_refines_map_witness:
  "\<exists>t' t''. Trie_TryUpdate 12 sampleDb [1, 2] [7] (sampleTrie 0) = Done (t', None) \<and> Trie_TryGet 12 sampleDb [1, 2] t' = Done (t'', Some [7], None)"
proof -
  obtain t' m' where u: "Trie_TryUpdate 12 sampleDb [1, 2] [7] (sampleTrie 0) = Done (t', None)" "holds (\<lambda>_. 7) sampleDb t' m'"
      "contents m' = (contents sampleLeaf)([1, 2] := Some [7])"
    using Trie_refines_map [OF sampleTrie_holds [of "\<lambda>_. 7" sampleDb 0], of "[1, 2]" 12 "[7]"] by auto
  then show ?thesis using Trie_refines_map [OF u(2), of "[1, 2]" 12] by auto
qed

text \<open>
  C25. Reading back what was written: after any sequence of updates of an empty trie, the value of a key is
  the one written last, and keys that were never written or were last written empty are absent.
\<close>

theorem Trie_last_write:
  "get_key db (fold (\<lambda>(k, v). put_key db k v) kvs emptyMPT) key =
     (case map_of (rev kvs) key of None \<Rightarrow> None | Some v \<Rightarrow> entry_of v)"
proof -
  have "\<exists>m. holds K db emptyMPT m" for K using emptyMPT_holds by blast
  from trie_store.last_write [OF this, of kvs key] show ?thesis
    using get_key_holds [OF emptyMPT_holds, of db key] by (simp add: contents_def split: option.split)
qed

text \<open>
  C6. The root hash is a function of the contents alone: two tries with the same contents have the same
  hash, whatever the order of the operations that built them, and whatever is loaded, cached or dirty in
  each. Computing the hash does not change the contents.
\<close>

theorem Trie_Hash_of_contents:
  assumes "holds K db1 t1 m1" "holds K db2 t2 m2" "contents m1 = contents m2" "fits K m1"
  shows "\<exists>t1' t2' root. Trie_Hash K t1 = Done (t1', root) \<and> Trie_Hash K t2 = Done (t2', root) \<and>
    holds K db1 t1' m1 \<and> holds K db2 t2' m2"
proof -
  have "m1 = m2" using assms(1-3) mtrie_contents by (simp add: holds_def)
  then show ?thesis using Trie_Hash_holds [OF assms(1,4)] Trie_Hash_holds [OF assms(2)] assms(4) by blast
qed

theorem Trie_Hash_of_contents_witness:
  "\<exists>t1 t2. Trie_Hash (\<lambda>_. 7) (sampleTrie 0) = Done (t1, 7) \<and> Trie_Hash (\<lambda>_. 7) (sampleTrie 3) = Done (t2, 7)"
proof -
  obtain t1 t2 root where r: "Trie_Hash (\<lambda>_. 7) (sampleTrie 0) = Done (t1, root)" "Trie_Hash (\<lambda>_. 7) (sampleTrie 3) = Done (t2, root)"
    using Trie_Hash_of_contents [OF sampleTrie_holds sampleTrie_holds refl sampleLeaf_fits] by blast
  moreover have "\<exists>t. Trie_Hash (\<lambda>_. 7) (sampleTrie 0) = Done (t, mhash (\<lambda>_. 7) sampleLeaf)"
    using Trie_Hash_holds [OF sampleTrie_holds sampleLeaf_fits] by blast
  ultimately show ?thesis by (auto simp: mhash_def sampleLeaf_def)
qed

text \<open>
  C7. Committing loses nothing: when the nodes of the trie do not collide, \<open>Commit\<close> returns the root hash,
  keeps every node that the database held, and a trie opened with that root on the resulting database
  represents the same contents, as does the committed trie itself.
\<close>

theorem Trie_Commit_New:
  assumes "holds K db t m" "fits K m" "distinct_hashes K db m" "leaf_ok onleaf"
  shows "\<exists>t' db' t2. Trie_Commit K onleaf t db = Done (t', db', mhash K m) \<and> holds K db' t' m \<and> grown db db' \<and>
    Trie_New (mhash K m) db' = Done (Inr t2) \<and> holds K db' t2 m"
proof -
  obtain t' db' where c: "Trie_Commit K onleaf t db = Done (t', db', mhash K m)" "holds K db' t' m" "grown db db'"
      "m \<noteq> MNil \<longrightarrow> stored K db' m"
    using Trie_Commit_holds [OF assms] by blast
  moreover have "mtrie m" using assms(1) by (simp add: holds_def)
  ultimately show ?thesis using Trie_New_holds [of m K db'] assms(3) by (auto simp: distinct_hashes_def)
qed

theorem Trie_Commit_New_witness:
  "\<exists>t' db' t2. Trie_Commit (\<lambda>_. 7) None (sampleTrie 0) sampleDb = Done (t', db', 7) \<and> Trie_New 7 db' = Done (Inr t2) \<and>
     get_key db' t2 [0x64, 0x6F] = Some [1, 2]"
proof -
  have root: "mhash (\<lambda>_. 7) sampleLeaf = 7" by (simp add: mhash_def sampleLeaf_def)
  have "leaf_ok None" by (simp add: leaf_ok_def)
  from Trie_Commit_New [OF sampleTrie_holds sampleLeaf_fits sample_distinct this]
  obtain t' db' t2 where c: "Trie_Commit (\<lambda>_. 7) None (sampleTrie 0) sampleDb = Done (t', db', 7)" "Trie_New 7 db' = Done (Inr t2)"
      "holds (\<lambda>_. 7) db' t2 sampleLeaf"
    unfolding root by blast
  have "keybytesToHex [0x64, 0x6F] = [6, 4, 6, 15, 16]" by code_simp
  then have "get_key db' t2 [0x64, 0x6F] = Some [1, 2]"
    using get_key_holds [OF c(3)] by (simp add: contents_def sampleLeaf_def mget_single)
  then show ?thesis using c by blast
qed

end
