(* ===== verification/Trie_Proof.thy ===== *)
theory Trie_Proof
  imports Trie_Properties
begin

text \<open>
  Merkle proofs (\<open>src/core/trie/proof.go\<close>): \<open>Prove\<close> collects the encoded nodes on the path of a key,
  \<open>VerifyProof\<close> walks from a root hash through the nodes of a proof. A proof that verifies shows the true value
  (soundness), and the proof that \<open>Prove\<close> constructs verifies (completeness). The proof database is a map from
  hashes to encodings; the loop of \<open>VerifyProof\<close> takes fuel, because a database whose entries are not stored
  under their hashes can refer to itself.
\<close>

subsection \<open>Proofs: proof.go\<close>

type_synonym proofDb = "bytes \<rightharpoonup> bytes"

datatype proof_error = ProofNodeMissing nat Hash | BadProofNode nat decodeError

lemma size_nth_node: "i < length cs \<Longrightarrow> size (cs ! i) < Suc (size_list size cs)" for cs :: "node list"
  using size_list_estimation' [OF nth_mem, of i cs "size (cs ! i)" size] by simp

function proof_get :: "node \<Rightarrow> bytes \<Rightarrow> (bytes \<times> node) outcome" where
  "proof_get (ShortNode k v fl) key =
     (if length key < length k \<or> k \<noteq> take (length k) key then Done ([], NilNode) else proof_get v (drop (length k) key))"
| "proof_get (FullNode cs fl) key =
     (case key of [] \<Rightarrow> Panic | x # r \<Rightarrow> if unat x < length cs then proof_get (cs ! unat x) r else Panic)"
| "proof_get (HashNode h) key = Done (key, HashNode h)"
| "proof_get NilNode key = Done (key, NilNode)"
| "proof_get (ValueNode v) key = Done ([], ValueNode v)"
  by pat_completeness auto

termination
  by (relation "measure (\<lambda>(n, key). size n)") (auto simp: size_nth_node)

fun verify_loop :: "nat \<Rightarrow> proofDb \<Rightarrow> Hash \<Rightarrow> bytes \<Rightarrow> nat \<Rightarrow> (bytes option \<times> proof_error option \<times> nat) outcome" where
  "verify_loop 0 proofs wantHash key i = OutOfFuel"
| "verify_loop (Suc fuel) proofs wantHash key i =
     (case proofs (Hash_Bytes wantHash) of
        None \<Rightarrow> Done (None, Some (ProofNodeMissing i wantHash), i)
      | Some buf \<Rightarrow>
          obind (decodeNode (Suc (length buf)) 0 (Some (Hash_Bytes wantHash)) buf)
            (\<lambda>r. case r of
               Inl err \<Rightarrow> Done (None, Some (BadProofNode i err), i)
             | Inr n \<Rightarrow>
                 obind (proof_get n key)
                   (\<lambda>(keyrest, cld).
                      case cld of
                        NilNode \<Rightarrow> Done (None, None, i)
                      | HashNode h \<Rightarrow>
                          verify_loop fuel proofs (BytesToHash (take 32 h @ drop (length h) (Hash_Bytes wantHash))) keyrest (i + 1)
                      | ValueNode v \<Rightarrow> Done (Some v, None, i + 1)
                      | _ \<Rightarrow> verify_loop fuel proofs wantHash key (i + 1))))"

definition VerifyProof :: "nat \<Rightarrow> Hash \<Rightarrow> bytes \<Rightarrow> proofDb \<Rightarrow> (bytes option \<times> proof_error option \<times> nat) outcome" where
  "VerifyProof fuel rootHash key proofs = verify_loop fuel proofs rootHash (keybytesToHex key) 0"

fun prove_path :: "nat \<Rightarrow> TrieDatabase \<Rightarrow> Trie \<Rightarrow> node \<Rightarrow> bytes \<Rightarrow> (trie_error + node list) outcome" where
  \<comment> \<open>the nodes on the path to the key, appended to those collected before\<close>
  "prove_path 0 db t tn key = OutOfFuel"
| "prove_path (Suc fuel) db t tn key =
     (if key = [] \<or> tn = NilNode then Done (Inr [])
      else
        (let collect = (\<lambda>n. obind n (\<lambda>r. Done (case r of Inl e \<Rightarrow> Inl e | Inr ns \<Rightarrow> Inr (tn # ns))))
         in case tn of
              ShortNode k v fl \<Rightarrow>
                if length key < length k \<or> k \<noteq> take (length k) key then collect (prove_path fuel db t NilNode key)
                else collect (prove_path fuel db t v (drop (length k) key))
            | FullNode cs fl \<Rightarrow> obind (child_at cs (key ! 0)) (\<lambda>c. collect (prove_path fuel db t c (drop 1 key)))
            | HashNode h \<Rightarrow>
                obind (resolveHash db t h [])
                  (\<lambda>r. case r of Inl e \<Rightarrow> Done (Inl e) | Inr n \<Rightarrow> prove_path fuel db t n key)
            | _ \<Rightarrow> Panic))"

fun prove_emit :: "hasher \<Rightarrow> nat \<Rightarrow> node list \<Rightarrow> nat \<Rightarrow> proofDb \<Rightarrow> proofDb outcome" where
  "prove_emit h i [] fromLevel proofs = Done proofs"
| "prove_emit h i (n # ns) fromLevel proofs =
     obind (hashChildren h n None)
       (\<lambda>(n1, _, _).
          obind (store h n1 None False)
            (\<lambda>(hn, _).
               if is_hash hn \<or> i = 0
               then (if fromLevel > 0 then prove_emit h (i + 1) ns (fromLevel - 1) proofs
                     else (let enc = (case EncodeToBytes (node_rlp n1) of Inl _ \<Rightarrow> [] | Inr e \<Rightarrow> e);
                               hash = (case hn of HashNode x \<Rightarrow> x | _ \<Rightarrow> Hash_Bytes (h_keccak h enc))
                           in prove_emit h (i + 1) ns fromLevel (proofs(hash \<mapsto> enc))))
               else prove_emit h (i + 1) ns fromLevel proofs))"

definition Prove :: "nat \<Rightarrow> (bytes \<Rightarrow> Hash) \<Rightarrow> TrieDatabase \<Rightarrow> Trie \<Rightarrow> bytes \<Rightarrow> nat \<Rightarrow> proofDb \<Rightarrow> (proofDb \<times> trie_error option) outcome" where
  "Prove fuel K db t key fromLevel proofs =
     obind (prove_path fuel db t (tr_root t) (keybytesToHex key))
       (\<lambda>r. case r of
          Inl e \<Rightarrow> Done (proofs, Some e)
        | Inr nodes \<Rightarrow>
            obind (prove_emit (newHasher K 0 0 None) 0 nodes fromLevel proofs) (\<lambda>p. Done (p, None)))"

subsection \<open>The path of a key\<close>

function mpath :: "mpt \<Rightarrow> bytes \<Rightarrow> mpt list" where
  "mpath MNil key = []"
| "mpath (MValue v) key = []"
| "mpath (MShort k m) key = MShort k m # (if prefix k key then mpath m (drop (length k) key) else [])"
| "mpath (MFull cs) key =
     MFull cs # (case key of [] \<Rightarrow> [] | x # r \<Rightarrow> if unat x < length cs then mpath (cs ! unat x) r else [])"
  by pat_completeness auto
termination
  by (relation "measure (\<lambda>(m, key). size m)") (auto simp: size_nth_mpt)

definition leads :: "(bytes \<Rightarrow> Hash) \<Rightarrow> TrieDatabase \<Rightarrow> bytes \<Rightarrow> mpt \<Rightarrow> bytes \<times> node \<Rightarrow> bool" where
  \<comment> \<open>where the walk through one proof node ends\<close>
  "leads K db key m kc \<longleftrightarrow>
     (case kc of (kr, c) \<Rightarrow>
        c = NilNode \<and> mget m key = None \<or>
        (\<exists>v. c = ValueNode v \<and> mget m key = Some v) \<or>
        (\<exists>m'. c = HashNode (Hash_Bytes (K (menc K m'))) \<and> stored K db m' \<and> big K m' \<and> hexkey kr \<and> mget m key = mget m' kr \<and>
           length kr \<le> length key \<and> (\<exists>p. mpath m key = p @ mpath m' kr) \<and> encs K m' \<subseteq> encs K m))"

lemma leads_step:
  assumes "leads K db r mc kc" "mget m key = mget mc r" "length r \<le> length key" "mpath m key = m # mpath mc r" "encs K mc \<subseteq> encs K m"
  shows "leads K db key m kc"
proof -
  obtain kr c where kc: "kc = (kr, c)" by (cases kc)
  show ?thesis
    using assms(1) unfolding leads_def kc prod.case
  proof (elim disjE exE conjE)
    fix m' p
    assume a: "c = HashNode (Hash_Bytes (K (menc K m')))" "stored K db m'" "big K m'" "hexkey kr" "mget mc r = mget m' kr"
      "length kr \<le> length r" "mpath mc r = p @ mpath m' kr" "encs K m' \<subseteq> encs K mc"
    then have "mpath m key = (m # p) @ mpath m' kr" using assms(4) by simp
    then show "c = NilNode \<and> mget m key = None \<or> (\<exists>v. c = ValueNode v \<and> mget m key = Some v) \<or>
        (\<exists>m'. c = HashNode (Hash_Bytes (K (menc K m'))) \<and> stored K db m' \<and> big K m' \<and> hexkey kr \<and> mget m key = mget m' kr \<and>
           length kr \<le> length key \<and> (\<exists>p. mpath m key = p @ mpath m' kr) \<and> encs K m' \<subseteq> encs K m)"
      using a assms(2,3,5) by (intro disjI2 exI [of _ m']) auto
  qed (use assms(2) in auto)
qed

lemma leads_length: "leads K db key m kc \<Longrightarrow> \<not> is_hash (snd kc) \<or> length (fst kc) \<le> length key"
  by (auto simp: leads_def)

lemma proof_get_leads:
  assumes "repr K db rt n m" "seat key m" "\<not> (rt \<and> is_hash n)"
  shows "\<exists>kc. proof_get n key = Done kc \<and> leads K db key m kc \<and> (is_hash n \<or> \<not> is_hash (snd kc) \<or> length (fst kc) < length key)"
  using assms
proof (induction n key arbitrary: m rt rule: proof_get.induct)
  case (1 k v fl key)
  obtain mc where m: "m = MShort k mc" "repr K db False v mc" using 1(2) by (auto elim: repr_ShortNode)
  then have can: "canonical (MShort k mc)" "hexkey key" using 1(3) seat_branch by blast+
  show ?case
  proof (cases "prefix k key")
    case False
    then show ?thesis using m(1) by (auto simp: leads_def mget.simps(3) prefix_take_iff)
  next
    case True
    then obtain r where r: "key = k @ r" by (auto elim: prefixE)
    have "seat r mc" using seat_MShort [OF can(1)] can(2) r by simp
    then obtain kc where kc: "proof_get v r = Done kc" "leads K db r mc kc"
      using "1.IH" [of False mc] m(2) r by auto
    have "leads K db key m kc"
      by (rule leads_step [OF kc(2)]) (use m(1) r in auto)
    moreover have "\<not> is_hash (snd kc) \<or> length (fst kc) < length key"
    proof -
      have "0 < length k" using can(1) by (auto simp: canonical_MShort)
      then have "length r < length key" using r by simp
      then show ?thesis using leads_length [OF kc(2)] by linarith
    qed
    ultimately show ?thesis using kc(1) r by (cases kc) simp
  qed
next
  case (2 cs fl key)
  obtain ms where m: "m = MFull ms" "list_all2 (repr K db False) cs ms" using 2(2) by (auto elim: repr_FullNode)
  then have can: "canonical (MFull ms)" "hexkey key" using 2(3) seat_branch by blast+
  then obtain x r where r: "key = x # r" by (cases key) auto
  have x: "unat x < 17" "seat r (ms ! unat x)" using seat_MFull [OF can(1)] can(2) r by auto
  have l: "length ms = 17" "length cs = 17" using can(1) list_all2_lengthD [OF m(2)] by (auto simp: canonical_MFull)
  then have "repr K db False (cs ! unat x) (ms ! unat x)" using m(2) x(1) by (simp add: list_all2_nthD2)
  from "2.IH" [OF r _ this x(2)] have "\<exists>kc. proof_get (cs ! unat x) r = Done kc \<and> leads K db r (ms ! unat x) kc"
    using x(1) l by auto
  then obtain kc where kc: "proof_get (cs ! unat x) r = Done kc" "leads K db r (ms ! unat x) kc" by blast
  have "leads K db key m kc"
    by (rule leads_step [OF kc(2)]) (use m(1) r x(1) l in \<open>auto simp: mget.simps(4)\<close>)
  moreover have "\<not> is_hash (snd kc) \<or> length (fst kc) < length key" using leads_length [OF kc(2)] r by auto
  ultimately show ?case using kc(1) r x(1) l by (cases kc) simp
next
  case (3 h key)
  then show ?case
    by (auto elim!: repr_HashNode simp: leads_def seat_def stored_def leaf_def split: if_splits mpt.split_asm)
next
  case (4 key)
  then show ?case by (simp add: leads_def)
next
  case (5 v key)
  then show ?case by (auto elim!: repr_ValueNode simp: leads_def)
qed

subsection \<open>Verification\<close>

lemma avail_encs: "(\<forall>e \<in> encs K m. Node db (K e) = Some e) \<Longrightarrow> avail K db m"
  by (induction m) auto

lemma full_database:
  assumes "inj_on K A"
  shows "\<exists>db. \<forall>e \<in> A. Node db (K e) = Some e"
proof -
  let ?pick = "\<lambda>b. SOME e. e \<in> A \<and> Hash_Bytes (K e) = b"
  let ?db = "\<lparr>diskdb = (\<lambda>b. Some (?pick b)), db_nodes = Map.empty, db_preimages = Map.empty\<rparr>"
  have "?pick (Hash_Bytes (K e)) = e" if "e \<in> A" for e
  proof (rule some_equality)
    fix e'
    assume "e' \<in> A \<and> Hash_Bytes (K e') = Hash_Bytes (K e)"
    then have "e' \<in> A" "K e' = K e" by (auto dest: arg_cong [of _ _ BytesToHash])
    then show "e' = e" using assms that by (auto dest: inj_onD)
  qed (use that in simp)
  then show ?thesis by (intro exI [of _ ?db]) (simp add: Node_def)
qed

lemma stored_full:
  "canonical m \<Longrightarrow> fits K m \<Longrightarrow> (\<forall>e \<in> encs K m. Node db (K e) = Some e) \<Longrightarrow> stored K db m"
  using avail_encs [of K m db] menc_encs [of m K] by (simp add: stored_def)

lemma verify_step:
  assumes "proofs (Hash_Bytes (K (menc K m))) = Some (menc K m)" "stored K db m" "hexkey key"
  shows "(\<exists>i'. verify_loop (Suc fuel) proofs (K (menc K m)) key i = Done (mget m key, None, i')) \<or>
    (\<exists>m' kr p. verify_loop (Suc fuel) proofs (K (menc K m)) key i = verify_loop fuel proofs (K (menc K m')) kr (i + 1) \<and>
       stored K db m' \<and> big K m' \<and> hexkey kr \<and> mget m key = mget m' kr \<and> length kr < length key \<and>
       mpath m key = p @ mpath m' kr \<and> encs K m' \<subseteq> encs K m)"
proof -
  have can: "canonical m" "fits K m" "avail K db m" using assms(2) by (simp_all add: stored_def)
  have "flag_ok K db True \<lparr>nf_hash = Some (Hash_Bytes (K (menc K m))), nf_gen = 0, nf_dirty = False\<rparr> m"
    using assms(2) by (simp add: flag_ok_def)
  then obtain n where n: "decodeNode (Suc (length (menc K m))) 0 (Some (Hash_Bytes (K (menc K m)))) (menc K m) = Done (Inr n)"
      "repr K db True n m"
    using decodeNode_menc [OF can, of "Suc (length (menc K m))" True "Some (Hash_Bytes (K (menc K m)))" 0 "[]"] by auto
  have nh: "\<not> is_hash n" using decodeNode_loaded [OF n(1)] by auto
  have "seat key m" using can(1) assms(3) by (simp add: seat_Cons subtrie_def)
  then obtain kr c where g: "proof_get n key = Done (kr, c)" "leads K db key m (kr, c)" "is_hash n \<or> \<not> is_hash c \<or> length kr < length key"
    using proof_get_leads [OF n(2), of key] nh by auto
  consider "c = NilNode" "mget m key = None" | v where "c = ValueNode v" "mget m key = Some v"
    | m' p where "c = HashNode (Hash_Bytes (K (menc K m')))" "stored K db m'" "big K m'" "hexkey kr" "mget m key = mget m' kr"
      "mpath m key = p @ mpath m' kr" "encs K m' \<subseteq> encs K m"
    using g(2) unfolding leads_def by auto
  then show ?thesis
  proof cases
    case 3
    then have "verify_loop (Suc fuel) proofs (K (menc K m)) key i = verify_loop fuel proofs (K (menc K m')) kr (i + 1)"
      using assms(1) n(1) g(1) by simp
    moreover have "length kr < length key" using g(3) nh 3(1) by simp
    ultimately show ?thesis using 3 by (intro disjI2 exI [of _ m'] exI [of _ kr] exI [of _ p]) simp
  qed (use assms(1) n(1) g(1) in auto)
qed

definition authentic :: "(bytes \<Rightarrow> Hash) \<Rightarrow> proofDb \<Rightarrow> mpt \<Rightarrow> bool" where
  \<comment> \<open>every entry is stored under its hash, and neither the entries nor the nodes of \<open>m\<close> collide\<close>
  "authentic K proofs m \<longleftrightarrow>
     (\<forall>h e. proofs h = Some e \<longrightarrow> h = Hash_Bytes (K e)) \<and> inj_on K (encs K m \<union> ran proofs)"

lemma authentic_entry:
  "authentic K proofs m \<Longrightarrow> e \<in> encs K m \<Longrightarrow> proofs (Hash_Bytes (K e)) = Some e' \<Longrightarrow> e' = e"
  unfolding authentic_def by (metis BytesToHash_Hash_Bytes Un_iff inj_onD ranI)

lemma verify_loop_sound:
  assumes "authentic K proofs m0" "stored K db m" "encs K m \<subseteq> encs K m0" "hexkey key" "length key < fuel"
  shows "\<exists>v err i'. verify_loop fuel proofs (K (menc K m)) key i = Done (v, err, i') \<and> (err = None \<longrightarrow> v = mget m key)"
  using assms
proof (induction fuel arbitrary: m key i)
  case (Suc fuel)
  have e: "menc K m \<in> encs K m0" using Suc.prems(2,3) menc_encs by (auto simp: stored_def)
  show ?case
  proof (cases "proofs (Hash_Bytes (K (menc K m)))")
    case (Some buf)
    then have "proofs (Hash_Bytes (K (menc K m))) = Some (menc K m)" using authentic_entry [OF Suc.prems(1) e] by simp
    from verify_step [where K = K and proofs = proofs and m = m, OF this Suc.prems(2,4), of fuel i] show ?thesis
    proof (elim disjE exE conjE)
      fix m' kr p
      assume a: "verify_loop (Suc fuel) proofs (K (menc K m)) key i = verify_loop fuel proofs (K (menc K m')) kr (i + 1)"
        "stored K db m'" "hexkey kr" "mget m key = mget m' kr" "length kr < length key" "encs K m' \<subseteq> encs K m"
      then show ?thesis using Suc.IH [of m' kr "i + 1"] Suc.prems by auto
    qed auto
  qed auto
qed simp

text \<open>
  C8. Merkle proofs are sound. Whoever supplies the proof: if its entries are stored under their hashes and no
  two different encodings at hand have the same hash, then \<open>VerifyProof\<close> with the root hash of a trie returns,
  and when it reports no error, the value it returns is the value of the key in that trie (nothing for an
  absent key). Fuel above the number of nibbles of the key is enough.
\<close>

theorem VerifyProof_sound:
  assumes "mtrie m" "m \<noteq> MNil" "fits K m" "authentic K proofs m" "2 * length key + 1 < fuel"
  shows "\<exists>v err i. VerifyProof fuel (mhash K m) key proofs = Done (v, err, i) \<and> (err = None \<longrightarrow> v = contents m key)"
proof -
  have can: "canonical m" using assms(1,2) by (simp add: mtrie_def subtrie_def)
  have "inj_on K (encs K m)" using assms(4) by (auto simp: authentic_def inj_on_Un)
  then obtain db where "\<forall>e \<in> encs K m. Node db (K e) = Some e" using full_database by blast
  then have "stored K db m" using stored_full [OF can assms(3)] by blast
  from verify_loop_sound [OF assms(4) this subset_refl hexkey_keybytesToHex, of key fuel 0] show ?thesis
    using assms(2,5) by (simp add: VerifyProof_def mhash_def contents_def length_keybytesToHex)
qed

theorem VerifyProof_sound_witness:
  "\<exists>v err i. VerifyProof 6 7 [0x64, 0x6F] [Hash_Bytes 7 \<mapsto> [0xC7, 0x83, 0x20, 0x64, 0x6F, 0x82, 1, 2]] = Done (v, err, i) \<and>
     (err = None \<longrightarrow> v = contents sampleLeaf [0x64, 0x6F])"
proof -
  let ?e = "[0xC7, 0x83, 0x20, 0x64, 0x6F, 0x82, 1, 2] :: bytes"
  have "encs (\<lambda>_. 7) sampleLeaf = {?e}" using sampleLeaf_enc [of "\<lambda>_. 7"] by (simp add: sampleLeaf_def)
  then have "authentic (\<lambda>_. 7) [Hash_Bytes 7 \<mapsto> ?e] sampleLeaf" by (auto simp: authentic_def inj_on_def)
  moreover have "sampleLeaf \<noteq> MNil" "mhash (\<lambda>_. 7) sampleLeaf = 7" by (simp_all add: sampleLeaf_def mhash_def)
  ultimately show ?thesis
    using VerifyProof_sound [OF sampleLeaf_mtrie(1) _ sampleLeaf_fits, of "\<lambda>_. 7" "[Hash_Bytes 7 \<mapsto> ?e]" "[0x64, 0x6F]" 6] by simp
qed

subsection \<open>Construction\<close>

lemma mpath_head: "canonical m \<Longrightarrow> \<exists>p. mpath m key = m # p"
  by (cases m) auto

lemma mpath_sub: "m' \<in> set (mpath m key) \<Longrightarrow> seat key m \<Longrightarrow> fits K m \<Longrightarrow> canonical m' \<and> fits K m' \<and> encs K m' \<subseteq> encs K m"
proof (induction m key arbitrary: rule: mpath.induct)
  case (3 k m key)
  then have can: "canonical (MShort k m)" "hexkey key" using seat_branch by blast+
  show ?case
  proof (cases "m' = MShort k m")
    case False
    then have p: "prefix k key" "m' \<in> set (mpath m (drop (length k) key))" using "3.prems"(1) by (auto split: if_splits)
    then have "seat (drop (length k) key) m" using seat_MShort [OF can(1)] can(2) by (auto elim!: prefixE)
    then show ?thesis using "3.IH" [OF p] "3.prems"(3) by auto
  qed (use can "3.prems"(3) in simp)
next
  case (4 cs key)
  then have can: "canonical (MFull cs)" "hexkey key" using seat_branch by blast+
  then obtain x r where r: "key = x # r" by (cases key) auto
  have x: "unat x < length cs" "seat r (cs ! unat x)" using seat_MFull [OF can(1), of x r] can r by (auto simp: canonical_MFull)
  show ?case
  proof (cases "m' = MFull cs")
    case False
    then have "m' \<in> set (mpath (cs ! unat x) r)" using "4.prems"(1) r x(1) by simp
    moreover have "fits K (cs ! unat x)" using "4.prems"(3) x(1) by simp
    moreover have "encs K (cs ! unat x) \<subseteq> encs K (MFull cs)" using x(1) by auto
    ultimately show ?thesis using "4.IH" [OF r x(1)] x(2) by blast
  qed (use can "4.prems"(3) in simp)
qed simp_all

definition on_path :: "(bytes \<Rightarrow> Hash) \<Rightarrow> TrieDatabase \<Rightarrow> node \<Rightarrow> mpt \<Rightarrow> bool" where
  "on_path K db n m \<longleftrightarrow> loaded n \<and> (\<exists>rt. repr K db rt n m)"

lemma prove_path_repr:
  assumes "repr K db rt n m" "seat key m" "cost n key \<le> fuel"
  shows "\<exists>ns. prove_path fuel db t n key = Done (Inr ns) \<and> list_all2 (on_path K db) ns (mpath m key)"
  using assms
proof (induction fuel arbitrary: n m key rt)
  case 0
  then show ?case by (simp add: cost_def split: if_splits)
next
  case (Suc fuel)
  show ?case
  proof (cases "key = [] \<or> n = NilNode")
    case True
    then have "mpath m key = []" using Suc.prems(1,2) by (auto simp: seat_def leaf_def split: mpt.splits)
    then show ?thesis using True by simp
  next
    case False
    then have hex: "hexkey key" using Suc.prems(2) by (simp add: seat_def)
    show ?thesis
    proof (cases n)
      case (HashNode h)
      then obtain c where c: "resolveHash db t h [] = Done (Inr c)" "repr K db rt c m" "\<not> is_hash c"
        using repr_resolve Suc.prems(1) by blast
      moreover have "cost c key \<le> fuel" using Suc.prems(3) HashNode c(3) by (simp add: cost_def)
      ultimately show ?thesis using Suc.IH [OF c(2) Suc.prems(2)] False HashNode by auto
    next
      case (ShortNode k c fl)
      then obtain mc where m: "m = MShort k mc" "repr K db False c mc" using Suc.prems(1) by (auto elim: repr_ShortNode)
      then have can: "canonical (MShort k mc)" using Suc.prems(2) seat_branch by blast
      have here: "on_path K db n m" using Suc.prems(1) ShortNode by (auto simp: on_path_def)
      show ?thesis
      proof (cases "prefix k key")
        case no: False
        then have "prove_path (Suc fuel) db t n key = obind (prove_path fuel db t NilNode key) (\<lambda>r. Done (case r of Inl e \<Rightarrow> Inl e | Inr ns \<Rightarrow> Inr (n # ns)))"
          using False ShortNode by (auto simp: prefix_take_iff Let_def)
        moreover have "\<exists>f. fuel = Suc f" using Suc.prems(3) False ShortNode by (cases fuel) (auto simp: cost_def)
        ultimately show ?thesis using m(1) no here by auto
      next
        case True
        then obtain r where r: "key = k @ r" by (auto elim: prefixE)
        have "k \<noteq> []" using can by (auto simp: canonical_MShort)
        then have "cost c r \<le> fuel" using Suc.prems(3) ShortNode r by (cases k) (auto simp: cost_def)
        then obtain ns where "prove_path fuel db t c r = Done (Inr ns)" "list_all2 (on_path K db) ns (mpath mc r)"
          using Suc.IH [OF m(2)] seat_MShort [OF can] hex r by blast
        then show ?thesis using ShortNode False r m(1) here by (auto simp: Let_def)
      qed
    next
      case (FullNode cs fl)
      then obtain ms where m: "m = MFull ms" "list_all2 (repr K db False) cs ms" using Suc.prems(1) by (auto elim: repr_FullNode)
      then have can: "canonical (MFull ms)" using Suc.prems(2) seat_branch by blast
      obtain x r where r: "key = x # r" using False by (cases key) auto
      have x: "unat x < 17" "seat r (ms ! unat x)" using seat_MFull [OF can] hex r by auto
      have l: "length ms = 17" "length cs = 17" using can list_all2_lengthD [OF m(2)] by (auto simp: canonical_MFull)
      then have rx: "repr K db False (cs ! unat x) (ms ! unat x)" using m(2) x(1) by (simp add: list_all2_nthD2)
      have "cost (cs ! unat x) r \<le> fuel" using Suc.prems(3) FullNode r by (simp add: cost_def split: if_splits)
      then obtain ns where "prove_path fuel db t (cs ! unat x) r = Done (Inr ns)" "list_all2 (on_path K db) ns (mpath (ms ! unat x) r)"
        using Suc.IH [OF rx x(2)] by blast
      moreover have "on_path K db n m" using Suc.prems(1) FullNode by (auto simp: on_path_def)
      ultimately show ?thesis using FullNode r m(1) x(1) l by (auto simp: Let_def child_at_def)
    next
      case (ValueNode v)
      then show ?thesis using Suc.prems(1,2) False by (auto elim: repr_ValueNode)
    qed (use False in simp)
  qed
qed

lemma emit_node:
  assumes "on_path K db n m" "canonical m" "fits K m"
  shows "\<exists>co cn hn. hashChildren (newHasher K 0 0 None) n None = Done (co, cn, None) \<and>
    store (newHasher K 0 0 None) co None False = Done (hn, None) \<and> EncodeToBytes (node_rlp co) = Inr (menc K m) \<and>
    (if big K m then hn = HashNode (Hash_Bytes (K (menc K m))) else \<not> is_hash hn)"
proof -
  let ?h = "newHasher K 0 0 None" and ?A = "encs K m"
  obtain rt where n: "loaded n" "repr K db rt n m" using assms(1) by (auto simp: on_path_def)
  have h: "h_keccak ?h = K" "leaf_ok (h_onleaf ?h)" by (simp_all add: newHasher_def leaf_ok_def)
  have "kids_ok K ?A (flags n) m None db (hashChildren ?h n None)"
    by (rule hashChildren_repr [OF n assms(2,3) subset_refl h]) (simp add: starts_def)
  then obtain co cn where k: "hashChildren ?h n None = Done (co, cn, None)" "node_rlp co = mval K m" "loaded co" "flags co = flags n"
    unfolding kids_ok_def by (auto simp: progressed_def)
  have "flag_ok K db rt (flags n) m" using n by (simp add: repr_loaded)
  then have c: "nf_hash (flags co) = None \<or> nf_hash (flags co) = Some (Hash_Bytes (K (menc K m)))"
    using k(4) by (auto simp: flag_ok_def split: option.splits)
  have nn: "co \<noteq> NilNode" "\<not> is_hash co" using loaded_cache(3) [OF k(3)] by auto
  have s0: "starts K ?A None db" by (simp add: starts_def)
  obtain hn odb' d' where st: "store ?h co None False = Done (hn, odb')" "progressed K ?A None db odb' d'"
      "if False \<or> big K m then hn = HashNode (Hash_Bytes (K (menc K m))) else hn = co"
    using store_ok [OF k(2) assms(2,3) nn loaded_cache(1) [OF k(3)] c h s0 menc_encs [OF assms(2)], of False] by blast
  have "EncodeToBytes (node_rlp co) = Inr (menc K m)"
    using EncodeToBytes_writes [of "mval K m"] encodable_mval fits_length [OF assms(2,3)] k(2) by (simp add: menc_def)
  then show ?thesis using k(1) st nn by (auto simp: progressed_def)
qed

lemma prove_emit_ok:
  assumes "list_all2 (on_path K db) ns ms" "\<forall>m \<in> set ms. canonical m \<and> fits K m \<and> encs K m \<subseteq> A" "inj_on K A"
  shows "\<exists>p'. prove_emit (newHasher K 0 0 None) i ns 0 p = Done p' \<and>
    (\<forall>e \<in> A. p (Hash_Bytes (K e)) = Some e \<longrightarrow> p' (Hash_Bytes (K e)) = Some e) \<and>
    (\<forall>j < length ms. big K (ms ! j) \<or> i + j = 0 \<longrightarrow> p' (Hash_Bytes (K (menc K (ms ! j)))) = Some (menc K (ms ! j)))"
  using assms
proof (induction ns arbitrary: ms i p)
  case (Cons n ns)
  obtain m ms' where ms: "ms = m # ms'" "on_path K db n m" "list_all2 (on_path K db) ns ms'"
    using Cons.prems(1) by (auto simp: list_all2_Cons1)
  have m: "canonical m" "fits K m" "menc K m \<in> A" using Cons.prems(2) ms(1) menc_encs [of m K] by auto
  obtain co cn hn where e: "hashChildren (newHasher K 0 0 None) n None = Done (co, cn, None)"
      "store (newHasher K 0 0 None) co None False = Done (hn, None)" "EncodeToBytes (node_rlp co) = Inr (menc K m)"
      "if big K m then hn = HashNode (Hash_Bytes (K (menc K m))) else \<not> is_hash hn"
    using emit_node [OF ms(2) m(1,2)] by blast
  define p1 where "p1 = (if big K m \<or> i = 0 then p(Hash_Bytes (K (menc K m)) \<mapsto> menc K m) else p)"
  have step: "prove_emit (newHasher K 0 0 None) i (n # ns) 0 p = prove_emit (newHasher K 0 0 None) (i + 1) ns 0 p1"
    using e by (cases hn) (auto simp: p1_def newHasher_def Let_def split: if_splits)
  obtain p' where p': "prove_emit (newHasher K 0 0 None) (i + 1) ns 0 p1 = Done p'"
      "\<forall>e \<in> A. p1 (Hash_Bytes (K e)) = Some e \<longrightarrow> p' (Hash_Bytes (K e)) = Some e"
      "\<forall>j < length ms'. big K (ms' ! j) \<or> i + 1 + j = 0 \<longrightarrow> p' (Hash_Bytes (K (menc K (ms' ! j)))) = Some (menc K (ms' ! j))"
    using Cons.IH [OF ms(3), of "i + 1" p1] Cons.prems(2,3) ms(1) by auto
  have keep: "p1 (Hash_Bytes (K e)) = Some e" if "e \<in> A" "p (Hash_Bytes (K e)) = Some e" for e
  proof (cases "Hash_Bytes (K e) = Hash_Bytes (K (menc K m))")
    case True
    then have "K e = K (menc K m)" by (auto dest: arg_cong [of _ _ BytesToHash])
    then have "e = menc K m" using Cons.prems(3) that(1) m(3) by (auto dest: inj_onD)
    then show ?thesis using that(2) by (simp add: p1_def)
  qed (use that(2) in \<open>simp add: p1_def\<close>)
  have "p' (Hash_Bytes (K (menc K (ms ! j)))) = Some (menc K (ms ! j))" if "j < length ms" "big K (ms ! j) \<or> i + j = 0" for j
    using that p'(2,3) m(3) ms(1) by (cases j) (auto simp: p1_def)
  moreover have "\<forall>e \<in> A. p (Hash_Bytes (K e)) = Some e \<longrightarrow> p' (Hash_Bytes (K e)) = Some e" using keep p'(2) by blast
  ultimately show ?case unfolding step p'(1) by blast
qed simp

lemma verify_loop_complete:
  assumes "stored K db m" "hexkey key" "length key < fuel" "proofs (Hash_Bytes (K (menc K m))) = Some (menc K m)"
    and "\<forall>m' \<in> set (mpath m key). big K m' \<longrightarrow> proofs (Hash_Bytes (K (menc K m'))) = Some (menc K m')"
  shows "\<exists>i'. verify_loop fuel proofs (K (menc K m)) key i = Done (mget m key, None, i')"
  using assms
proof (induction fuel arbitrary: m key i)
  case (Suc fuel)
  from verify_step [where K = K and proofs = proofs and m = m, OF Suc.prems(4,1,2), of fuel i] show ?case
  proof (elim disjE exE conjE)
    fix m' kr p
    assume a: "verify_loop (Suc fuel) proofs (K (menc K m)) key i = verify_loop fuel proofs (K (menc K m')) kr (i + 1)"
      "stored K db m'" "big K m'" "hexkey kr" "mget m key = mget m' kr" "length kr < length key" "mpath m key = p @ mpath m' kr"
    have "m' \<in> set (mpath m' kr)" using mpath_head [of m' kr] a(2) by (auto simp: stored_def)
    then have "\<exists>i'. verify_loop fuel proofs (K (menc K m')) kr (i + 1) = Done (mget m' kr, None, i')"
      using a Suc.prems by (intro Suc.IH) auto
    then show ?thesis using a(1,5) by simp
  qed simp
qed simp

text \<open>
  C24. Merkle proofs are complete: for every key, present or absent, of a non-empty trie whose nodes do not
  collide, \<open>Prove\<close> constructs a proof without error, and \<open>VerifyProof\<close> accepts it with the root hash and returns
  the value of the key.
\<close>

theorem Prove_verifies:
  assumes "holds K db t m" "m \<noteq> MNil" "fits K m" "inj_on K (encs K m)" "4 * length key + 4 \<le> fuel"
  shows "\<exists>proofs i. Prove fuel K db t key 0 Map.empty = Done (proofs, None) \<and>
    VerifyProof fuel (mhash K m) key proofs = Done (contents m key, None, i)"
proof -
  let ?k = "keybytesToHex key"
  have can: "canonical m" and seat: "seat ?k m" using assms(1,2) mtrie_seat by (auto simp: holds_def mtrie_def subtrie_def)
  obtain ns where ns: "prove_path fuel db t (tr_root t) ?k = Done (Inr ns)" "list_all2 (on_path K db) ns (mpath m ?k)"
    using prove_path_repr [OF _ seat root_cost [OF assms(5)]] assms(1) unfolding holds_def by blast
  have sub: "\<forall>m' \<in> set (mpath m ?k). canonical m' \<and> fits K m' \<and> encs K m' \<subseteq> encs K m" using mpath_sub [OF _ seat assms(3)] by blast
  obtain p where p: "prove_emit (newHasher K 0 0 None) 0 ns 0 Map.empty = Done p"
      "\<forall>j < length (mpath m ?k). big K (mpath m ?k ! j) \<or> 0 + j = 0 \<longrightarrow>
         p (Hash_Bytes (K (menc K (mpath m ?k ! j)))) = Some (menc K (mpath m ?k ! j))"
    using prove_emit_ok [OF ns(2) sub assms(4), of 0 Map.empty] by blast
  obtain q where q: "mpath m ?k = m # q" using mpath_head [OF can] by blast
  obtain db' where "\<forall>e \<in> encs K m. Node db' (K e) = Some e" using full_database [OF assms(4)] by blast
  then have st: "stored K db' m" using stored_full [OF can assms(3)] by blast
  have "p (Hash_Bytes (K (menc K m))) = Some (menc K m)" using p(2) q by (metis add_0 length_greater_0_conv list.discI nth_Cons_0)
  moreover have "\<forall>m' \<in> set (mpath m ?k). big K m' \<longrightarrow> p (Hash_Bytes (K (menc K m'))) = Some (menc K m')"
    using p(2) by (auto simp: in_set_conv_nth)
  ultimately obtain i where "verify_loop fuel p (K (menc K m)) ?k 0 = Done (mget m ?k, None, i)"
    using verify_loop_complete [OF st hexkey_keybytesToHex, of key fuel p 0] assms(5) by (auto simp: length_keybytesToHex)
  then show ?thesis using ns(1) p(1) assms(2) by (auto simp: Prove_def VerifyProof_def mhash_def contents_def)
qed

theorem Prove_verifies_witness:
  "\<exists>proofs i. Prove 12 (\<lambda>_. 7) sampleDb (sampleTrie 0) [0x64, 0x6F] 0 Map.empty = Done (proofs, None) \<and>
     VerifyProof 12 7 [0x64, 0x6F] proofs = Done (Some [1, 2], None, i)"
proof -
  have k: "keybytesToHex [0x64, 0x6F] = [6, 4, 6, 15, 16]" by code_simp
  have "sampleLeaf \<noteq> MNil" "mhash (\<lambda>_. 7) sampleLeaf = 7" "inj_on (\<lambda>_. 7 :: Hash) (encs (\<lambda>_. 7) sampleLeaf)"
    by (simp_all add: sampleLeaf_def mhash_def)
  moreover have "contents sampleLeaf [0x64, 0x6F] = Some [1, 2]" by (simp add: contents_def k sampleLeaf_def mget_single)
  ultimately show ?thesis
    using Prove_verifies [OF sampleTrie_holds _ sampleLeaf_fits, of "\<lambda>_. 7" "[0x64, 0x6F]" 12 sampleDb 0] by simp
qed

end
