(* ===== verification/State_Commit.thy ===== *)
theory State_Commit
  imports State_Views
begin

text \<open>
  Writing the state back (\<open>Finalise\<close>, \<open>IntermediateRoot\<close>, \<open>Commit\<close>) and copying it (\<open>Copy\<close>),
  from \<open>src/core/state/statedb.go\<close>. The order in which Go iterates a map is an argument; the
  theorems hold for every order.
\<close>

subsection \<open>Operations\<close>

definition updateStateObject :: "stateObject \<Rightarrow> StateDB \<Rightarrow> StateDB outcome" where
  \<comment> \<open>the RLP encoder rejects a negative \<open>*big.Int\<close>, and the method panics\<close>
  "updateStateObject so s =
     (if acc_Balance (so_data so) < 0 then Panic
      else
        (let (tr, err) = TryUpdate (sdb_trie s) (so_address so) (so_data so)
         in Done (setError err (s\<lparr>sdb_trie := tr\<rparr>))))"

definition deleteStateObject :: "stateObject \<Rightarrow> StateDB \<Rightarrow> StateDB" where
  "deleteStateObject so s =
     (let s1 = updObj (so_address so) (\<lambda>o'. o'\<lparr>so_deleted := True\<rparr>) s;
          (tr, err) = TryDelete (sdb_trie s1) (so_address so)
      in setError err (s1\<lparr>sdb_trie := tr\<rparr>))"

definition finalise_one :: "bool \<Rightarrow> (Address \<Rightarrow> Hash list) \<Rightarrow> Address \<Rightarrow> StateDB \<Rightarrow> StateDB outcome" where
  "finalise_one deleteEmptyObjects keys addr s =
     (case sdb_stateObjects s addr of
        None \<Rightarrow> Done s
      | Some so \<Rightarrow>
          obind
            (if so_suicided so \<or> (deleteEmptyObjects \<and> empty_obj (sdb_db s) so)
             then Done (deleteStateObject so s)
             else
               (let so' = updateRoot (sdb_db s) (keys addr) so
                in updateStateObject so' (updObj addr (\<lambda>_. so') s)))
            (\<lambda>s1. Done (s1\<lparr>sdb_stateObjectsDirty := insert addr (sdb_stateObjectsDirty s1)\<rparr>)))"

fun finalise_loop :: "bool \<Rightarrow> (Address \<Rightarrow> Hash list) \<Rightarrow> Address list \<Rightarrow> StateDB \<Rightarrow> StateDB outcome" where
  "finalise_loop de keys [] s = Done s"
| "finalise_loop de keys (addr # addrs) s =
     obind (finalise_one de keys addr s) (finalise_loop de keys addrs)"

definition Finalise :: "bool \<Rightarrow> (Address \<Rightarrow> Hash list) \<Rightarrow> Address list \<Rightarrow> StateDB \<Rightarrow> StateDB outcome" where
  "Finalise deleteEmptyObjects keys order s =
     obind (finalise_loop deleteEmptyObjects keys order s) (\<lambda>s1. Done (clearJournalAndRefund s1))"

definition IntermediateRoot ::
  "bool \<Rightarrow> (Address \<Rightarrow> Hash list) \<Rightarrow> Address list \<Rightarrow> StateDB \<Rightarrow> (StateDB \<times> Hash) outcome" where
  "IntermediateRoot deleteEmptyObjects keys order s =
     obind (Finalise deleteEmptyObjects keys order s)
       (\<lambda>s1. Done (s1, db_StateRoot (sdb_db s1) (sdb_trie s1)))"

definition insertCode :: "Hash \<Rightarrow> bytes \<Rightarrow> Database \<Rightarrow> Database" where
  \<comment> \<open>\<open>TrieDB().Insert(codeHash, code)\<close>: later \<open>ContractCode\<close> calls find the blob by its hash\<close>
  "insertCode codeHash code db =
     db\<lparr>db_ContractCode := (\<lambda>a h. if h = codeHash then Inr code else db_ContractCode db a h)\<rparr>"

definition commit_code :: "stateObject \<Rightarrow> StateDB \<Rightarrow> StateDB \<times> stateObject" where
  "commit_code so s =
     (case so_code so of
        Some code \<Rightarrow>
          if so_dirtyCode so
          then (s\<lparr>sdb_db := insertCode (acc_CodeHash (so_data so)) code (sdb_db s)\<rparr>, so\<lparr>so_dirtyCode := False\<rparr>)
          else (s, so)
      | None \<Rightarrow> (s, so))"

definition commit_one ::
  "bool \<Rightarrow> (Address \<Rightarrow> Hash list) \<Rightarrow> Address \<Rightarrow> StateDB \<Rightarrow> (StateDB \<times> db_error option) outcome" where
  "commit_one deleteEmptyObjects keys addr s =
     (case sdb_stateObjects s addr of
        None \<Rightarrow> Done (s, None)
      | Some so \<Rightarrow>
          (let isDirty = addr \<in> sdb_stateObjectsDirty s;
               forget = (\<lambda>s1. s1\<lparr>sdb_stateObjectsDirty := sdb_stateObjectsDirty s1 - {addr}\<rparr>)
           in if so_suicided so \<or> (isDirty \<and> deleteEmptyObjects \<and> empty_obj (sdb_db s) so)
              then Done (forget (deleteStateObject so s), None)
              else if isDirty
              then
                (let (s1, so1) = commit_code so s;
                     (so2, err) = CommitTrie (sdb_db s1) (keys addr) so1;
                     s2 = updObj addr (\<lambda>_. so2) s1
                 in case err of
                      Some e \<Rightarrow> Done (s2, Some e)
                    | None \<Rightarrow> obind (updateStateObject so2 s2) (\<lambda>s3. Done (forget s3, None)))
              else Done (forget s, None)))"

fun commit_loop ::
  "bool \<Rightarrow> (Address \<Rightarrow> Hash list) \<Rightarrow> Address list \<Rightarrow> StateDB \<Rightarrow> (StateDB \<times> db_error option) outcome" where
  "commit_loop de keys [] s = Done (s, None)"
| "commit_loop de keys (addr # addrs) s =
     obind (commit_one de keys addr s)
       (\<lambda>(s1, err). case err of Some e \<Rightarrow> Done (s1, Some e) | None \<Rightarrow> commit_loop de keys addrs s1)"

definition Commit ::
  "bool \<Rightarrow> (Address \<Rightarrow> Hash list) \<Rightarrow> Address list \<Rightarrow> StateDB \<Rightarrow> (StateDB \<times> (db_error + Hash)) outcome" where
  "Commit deleteEmptyObjects keys order s =
     (let s1 = s\<lparr>sdb_stateObjectsDirty := sdb_stateObjectsDirty s \<union> dom (j_dirties (sdb_journal s))\<rparr>
      in obind (commit_loop deleteEmptyObjects keys order s1)
           (\<lambda>(s2, err).
              Done (clearJournalAndRefund s2,
                    case err of Some e \<Rightarrow> Inl e | None \<Rightarrow> Inr (db_StateRoot (sdb_db s2) (sdb_trie s2)))))"

fun copy_dirties :: "StateDB \<Rightarrow> Address list \<Rightarrow> StateDB \<Rightarrow> StateDB" where
  \<comment> \<open>the first loop of \<open>Copy\<close>, over the dirty accounts of the journal\<close>
  "copy_dirties s [] c = c"
| "copy_dirties s (addr # addrs) c =
     copy_dirties s addrs
       (case sdb_stateObjects s addr of
          None \<Rightarrow> c
        | Some so \<Rightarrow>
            c\<lparr>sdb_stateObjects := (sdb_stateObjects c)(addr \<mapsto> deepCopy (sdb_db s) so),
              sdb_stateObjectsDirty := insert addr (sdb_stateObjectsDirty c)\<rparr>)"

fun copy_pending :: "StateDB \<Rightarrow> Address list \<Rightarrow> StateDB \<Rightarrow> StateDB outcome" where
  \<comment> \<open>the second loop, over \<open>stateObjectsDirty\<close>: \<open>deepCopy\<close> of a nil object panics\<close>
  "copy_pending s [] c = Done c"
| "copy_pending s (addr # addrs) c =
     (case sdb_stateObjects c addr of
        Some _ \<Rightarrow> copy_pending s addrs c
      | None \<Rightarrow>
          (case sdb_stateObjects s addr of
             None \<Rightarrow> Panic
           | Some so \<Rightarrow>
               copy_pending s addrs
                 (c\<lparr>sdb_stateObjects := (sdb_stateObjects c)(addr \<mapsto> deepCopy (sdb_db s) so),
                    sdb_stateObjectsDirty := insert addr (sdb_stateObjectsDirty c)\<rparr>)))"

definition Copy :: "Address list \<Rightarrow> Address list \<Rightarrow> StateDB \<Rightarrow> StateDB outcome" where
  "Copy order order' s =
     copy_pending s order'
       (copy_dirties s order
          \<lparr>sdb_db = sdb_db s, sdb_trie = sdb_trie s, sdb_stateObjects = Map.empty,
           sdb_stateObjectsDirty = {}, sdb_dbErr = None, sdb_refund = sdb_refund s, sdb_thash = 0,
           sdb_bhash = 0, sdb_txIndex = 0, sdb_logs = sdb_logs s, sdb_logSize = sdb_logSize s,
           sdb_preimages = sdb_preimages s, sdb_journal = newJournal, sdb_validRevisions = [],
           sdb_nextRevisionId = 0\<rparr>)"

subsection \<open>Writing an object's storage\<close>

definition storage_ok :: "Database \<Rightarrow> stateObject \<Rightarrow> bool" where
  \<comment> \<open>dirty slots are cached, and a cached slot that is not dirty holds the value of the trie\<close>
  "storage_ok db so \<longleftrightarrow>
     (\<forall>k v. so_dirtyStorage so k = Some v \<longrightarrow> so_cachedStorage so k = Some v) \<and>
     (\<forall>k v. so_cachedStorage so k = Some v \<and> so_dirtyStorage so k = None \<longrightarrow>
        trie_value (snd (getTrie db so)) k = v)"

definition no_fault :: "('k, 'v) KTrie \<Rightarrow> bool" where
  "no_fault t \<longleftrightarrow> tr_fault t = (\<lambda>_. None)"

lemma no_fault_simps:
  assumes "no_fault t"
  shows "TryGet t k = Inr (tr_entries t k)"
    "TryUpdate t k v = (t\<lparr>tr_entries := (tr_entries t)(k \<mapsto> v)\<rparr>, None)"
    "TryDelete t k = (t\<lparr>tr_entries := (tr_entries t)(k := None)\<rparr>, None)"
    "no_fault (t\<lparr>tr_entries := m\<rparr>)"
  using assms by (simp_all add: no_fault_def TryGet_def TryUpdate_def TryDelete_def)

lemma trie_value_no_fault:
  "no_fault t \<Longrightarrow> trie_value t k = (case tr_entries t k of Some v \<Rightarrow> v | None \<Rightarrow> 0)"
  by (simp add: trie_value_def no_fault_simps)

definition same_but_dirty :: "stateObject \<Rightarrow> stateObject \<Rightarrow> bool" where
  "same_but_dirty so so' \<longleftrightarrow>
     so_address so' = so_address so \<and> so_addrHash so' = so_addrHash so \<and> so_data so' = so_data so \<and>
     so_trie so' = so_trie so \<and> so_code so' = so_code so \<and> so_cachedStorage so' = so_cachedStorage so \<and>
     so_suicided so' = so_suicided so \<and> so_deleted so' = so_deleted so \<and> so_dirtyCode so' = so_dirtyCode so"

lemma same_but_dirty_step:
  "same_but_dirty (setError_obj e (so\<lparr>so_dirtyStorage := d\<rparr>)) so' \<longleftrightarrow> same_but_dirty so so'"
  by (simp add: same_but_dirty_def)

lemma updateTrie_loop_frame:
  "same_but_dirty so (snd (updateTrie_loop keys tr so)) \<and>
   so_dirtyStorage (snd (updateTrie_loop keys tr so)) = (\<lambda>k. if k \<in> set keys then None else so_dirtyStorage so k)"
proof (induction keys arbitrary: tr so)
  case (Cons key keys)
  have "same_but_dirty so (snd (updateTrie_loop keys tr (setError_obj e (so\<lparr>so_dirtyStorage := d\<rparr>))))"
    for e d tr
    using Cons.IH [of "setError_obj e (so\<lparr>so_dirtyStorage := d\<rparr>)" tr] by (simp add: same_but_dirty_step)
  then show ?case
    using Cons.IH by (cases "so_dirtyStorage so key") (auto simp: Let_def case_prod_beta fun_eq_iff)
qed (simp add: same_but_dirty_def)

lemma updateTrie_loop_entries:
  assumes "no_fault tr"
  shows "no_fault (fst (updateTrie_loop keys tr so)) \<and>
    tr_entries (fst (updateTrie_loop keys tr so)) =
      (\<lambda>k. case so_dirtyStorage so k of
             Some v \<Rightarrow> if k \<in> set keys then (if v = 0 then None else Some v) else tr_entries tr k
           | None \<Rightarrow> tr_entries tr k)"
  using assms
proof (induction keys arbitrary: tr so)
  case (Cons key keys)
  show ?case
  proof (cases "so_dirtyStorage so key")
    case None
    then show ?thesis using Cons by (auto simp: fun_eq_iff split: option.splits)
  next
    case (Some v)
    let ?t = "tr\<lparr>tr_entries := (tr_entries tr)(key := (if v = 0 then None else Some v))\<rparr>"
    let ?so = "setError_obj None (so\<lparr>so_dirtyStorage := (so_dirtyStorage so)(key := None)\<rparr>)"
    have "updateTrie_loop (key # keys) tr so = updateTrie_loop keys ?t ?so"
      using Some Cons.prems by (auto simp: Let_def no_fault_simps)
    then show ?thesis
      using Cons.IH [of ?t ?so] Cons.prems Some
      by (auto simp: no_fault_simps fun_eq_iff split: option.splits)
  qed
qed (auto split: option.splits)

lemma updateTrie_frame:
  assumes "updateTrie db keys so = (so', tr)"
  shows "so_address so' = so_address so" "so_addrHash so' = so_addrHash so" "so_data so' = so_data so"
    "so_trie so' = Some tr" "so_code so' = so_code so" "so_cachedStorage so' = so_cachedStorage so"
    "so_suicided so' = so_suicided so" "so_deleted so' = so_deleted so" "so_dirtyCode so' = so_dirtyCode so"
    "so_dirtyStorage so' = (\<lambda>k. if k \<in> set keys then None else so_dirtyStorage so k)"
    "tr = fst (updateTrie_loop keys (snd (getTrie db so)) (fst (getTrie db so)))"
proof -
  let ?r = "updateTrie_loop keys (snd (getTrie db so)) (fst (getTrie db so))"
  have eq: "so' = (snd ?r)\<lparr>so_trie := Some (fst ?r)\<rparr>" "tr = fst ?r"
    using assms by (auto simp: updateTrie_def case_prod_beta)
  from updateTrie_loop_frame [of "fst (getTrie db so)" keys "snd (getTrie db so)"]
  show "so_address so' = so_address so" "so_addrHash so' = so_addrHash so" "so_data so' = so_data so"
    "so_trie so' = Some tr" "so_code so' = so_code so" "so_cachedStorage so' = so_cachedStorage so"
    "so_suicided so' = so_suicided so" "so_deleted so' = so_deleted so" "so_dirtyCode so' = so_dirtyCode so"
    "so_dirtyStorage so' = (\<lambda>k. if k \<in> set keys then None else so_dirtyStorage so k)"
    "tr = fst (updateTrie_loop keys (snd (getTrie db so)) (fst (getTrie db so)))"
    by (simp_all add: eq same_but_dirty_def cong: if_cong)
qed

text \<open>
  C17. \<open>updateTrie\<close> writes exactly the dirty slots, whatever the iteration order: afterwards the
  storage trie returns the value that \<open>GetState\<close> returned before for every slot, and no slot is
  dirty. A slot set to zero is deleted from the trie.
\<close>

theorem updateTrie_writes_storage:
  assumes "storage_ok db so" and "dom (so_dirtyStorage so) \<subseteq> set keys" and "no_fault (snd (getTrie db so))"
    and "updateTrie db keys so = (so', tr)"
  shows "trie_value tr = (\<lambda>k. snd (GetState_obj db so k)) \<and> so_dirtyStorage so' = Map.empty \<and>
         (\<lambda>k. snd (GetState_obj db so' k)) = (\<lambda>k. snd (GetState_obj db so k)) \<and>
         (\<forall>k v. so_dirtyStorage so k = Some v \<longrightarrow> tr_entries tr k = (if v = 0 then None else Some v))"
proof -
  let ?t = "snd (getTrie db so)"
  note f = updateTrie_frame [OF assms(4)]
  have nf: "no_fault tr" and entries: "tr_entries tr = (\<lambda>k. case so_dirtyStorage so k of
      Some v \<Rightarrow> if v = 0 then None else Some v | None \<Rightarrow> tr_entries ?t k)"
    using updateTrie_loop_entries [OF assms(3), of keys "fst (getTrie db so)"] assms(2)
    by (auto simp: f(11) fun_eq_iff split: option.splits)
  have val: "trie_value tr k = snd (GetState_obj db so k)" for k
  proof (cases "so_dirtyStorage so k")
    case None
    then show ?thesis
      using assms(1) trie_value_no_fault [OF nf, of k] trie_value_no_fault [OF assms(3), of k]
      by (auto simp: GetState_obj_value entries storage_ok_def split: option.splits)
  next
    case (Some v)
    then show ?thesis
      using assms(1) trie_value_no_fault [OF nf, of k]
      by (auto simp: GetState_obj_value entries storage_ok_def split: option.splits)
  qed
  have "snd (GetState_obj db so' k) = snd (GetState_obj db so k)" for k
    using val [of k] getTrie_loaded [OF f(4), of db] f(6)
    by (auto simp: GetState_obj_value split: option.splits)
  moreover have "so_dirtyStorage so' = Map.empty"
    unfolding f(10) using assms(2) by (intro ext) (force simp: domIff)
  ultimately show ?thesis
    using val entries by auto
qed

theorem updateTrie_writes_storage_witness:
  "trie_value (snd (updateTrie sampleDatabase [7, 9]
      (setState_obj 9 0 (setState_obj 7 5 (newObject sampleDatabase 1 (zeroAccount sampleDatabase)))))) 7 = 5"
proof -
  let ?o = "setState_obj 9 0 (setState_obj 7 5 (newObject sampleDatabase 1 (zeroAccount sampleDatabase)))"
  have ok: "storage_ok sampleDatabase ?o"
    by (simp add: storage_ok_def setState_obj_def newObject_def)
  have dom: "dom (so_dirtyStorage ?o) \<subseteq> set [7, 9]"
    by (simp add: setState_obj_def newObject_def)
  have nf: "no_fault (snd (getTrie sampleDatabase ?o))"
    by (simp add: getTrie_def sampleDatabase_def setState_obj_def newObject_def emptyTrie_def no_fault_def)
  have "updateTrie sampleDatabase [7, 9] ?o =
      (fst (updateTrie sampleDatabase [7, 9] ?o), snd (updateTrie sampleDatabase [7, 9] ?o))" by simp
  from updateTrie_writes_storage [OF ok dom nf this] show ?thesis
    by (simp add: GetState_obj_def setState_obj_def)
qed

subsection \<open>Finalise\<close>

definition storage_cached :: "stateObject \<Rightarrow> bool" where
  "storage_cached so \<longleftrightarrow> (\<forall>k v. so_dirtyStorage so k = Some v \<longrightarrow> so_cachedStorage so k = Some v)"

lemma updateTrie_loop_other:
  assumes "so_dirtyStorage so k = None"
  shows "trie_value (fst (updateTrie_loop keys tr so)) k = trie_value tr k"
  using assms
proof (induction keys arbitrary: tr so)
  case (Cons key keys)
  show ?case
  proof (cases "so_dirtyStorage so key")
    case None
    then show ?thesis using Cons by simp
  next
    case (Some v)
    then have "trie_value (fst (TryDelete tr key)) k = trie_value tr k"
      "trie_value (fst (TryUpdate tr key v)) k = trie_value tr k"
      using Cons.prems by (auto simp: trie_value_def TryDelete_def TryUpdate_def TryGet_def split: option.splits)
    then show ?thesis
      using Cons.IH [of "setError_obj e (so\<lparr>so_dirtyStorage := (so_dirtyStorage so)(key := None)\<rparr>)" for e]
        Cons.prems Some by (auto simp: Let_def case_prod_beta)
  qed
qed simp

lemma obj_view_updateRoot:
  assumes "storage_cached so"
  shows "obj_view db (updateRoot db keys so) = obj_view db so"
    and "so_address (updateRoot db keys so) = so_address so"
    and "so_addrHash (updateRoot db keys so) = so_addrHash so"
    and "so_deleted (updateRoot db keys so) = so_deleted so"
    and "acc_Balance (so_data (updateRoot db keys so)) = acc_Balance (so_data so)"
    and "storage_cached (updateRoot db keys so)"
proof -
  obtain so' tr where u: "updateTrie db keys so = (so', tr)" by fastforce
  note f = updateTrie_frame [OF u]
  let ?o = "so'\<lparr>so_data := (so_data so')\<lparr>acc_Root := db_StorageRoot db tr\<rparr>\<rparr>"
  have root: "updateRoot db keys so = ?o" by (simp add: updateRoot_def u)
  have tr: "snd (getTrie db ?o) = tr" using f(4) by (simp add: getTrie_loaded)
  have "snd (GetState_obj db ?o k) = snd (GetState_obj db so k)" for k
    using assms updateTrie_loop_other [of "fst (getTrie db so)" k keys "snd (getTrie db so)", folded f(11)]
    by (cases "so_cachedStorage so k"; cases "so_dirtyStorage so k")
      (auto simp: GetState_obj_value tr f(6) storage_cached_def)
  moreover have "snd (Code_obj db ?o) = snd (Code_obj db so)"
    using f(2,3,5) by (simp add: Code_obj_value split: option.splits)
  ultimately show "obj_view db (updateRoot db keys so) = obj_view db so"
    using f(3,7) by (simp add: root obj_view_def)
  show "storage_cached (updateRoot db keys so)"
    using assms f(6,10) by (auto simp: root storage_cached_def)
qed (simp_all add: updateRoot_def case_prod_beta updateTrie_frame [OF surjective_pairing])

definition removed :: "bool \<Rightarrow> StateDB \<Rightarrow> Address \<Rightarrow> bool" where
  \<comment> \<open>the accounts that finalisation deletes\<close>
  "removed de s a \<longleftrightarrow>
     (\<exists>so. sdb_stateObjects s a = Some so \<and> (so_suicided so \<or> de \<and> empty_obj (sdb_db s) so))"

definition finalisable :: "StateDB \<Rightarrow> Address \<Rightarrow> bool" where
  \<comment> \<open>a dirty object is live, holds a balance that can be encoded, and caches its dirty slots\<close>
  "finalisable s a \<longleftrightarrow>
     (\<forall>so. sdb_stateObjects s a = Some so \<longrightarrow>
        \<not> so_deleted so \<and> 0 \<le> acc_Balance (so_data so) \<and> storage_cached so)"

lemma trie_view_other:
  "b \<noteq> a \<Longrightarrow> trie_view db (fst (TryUpdate tr a x)) b = trie_view db tr b"
  "b \<noteq> a \<Longrightarrow> trie_view db (fst (TryDelete tr a)) b = trie_view db tr b"
  "absent (fst (TryDelete tr a)) a"
  "b \<noteq> a \<Longrightarrow> absent (fst (TryUpdate tr a x)) b = absent tr b"
  "b \<noteq> a \<Longrightarrow> absent (fst (TryDelete tr a)) b = absent tr b"
  by (auto simp: trie_view_def absent_def TryUpdate_def TryDelete_def TryGet_def split: option.splits)

lemma cell_view_other:
  assumes "b \<noteq> a"
  shows "cell_view db (fst (TryUpdate tr a x)) b c = cell_view db tr b c"
    "cell_view db (fst (TryDelete tr a)) b c = cell_view db tr b c"
  using assms by (cases c; simp add: trie_view_other)+

definition finalised :: "bool \<Rightarrow> StateDB \<Rightarrow> Address set \<Rightarrow> StateDB \<Rightarrow> bool" where
  \<comment> \<open>\<open>s'\<close> is \<open>s\<close> after finalising the accounts of \<open>A\<close>\<close>
  "finalised de s A s' \<longleftrightarrow>
     wf_state s' \<and> sdb_db s' = sdb_db s \<and>
     view s' = (\<lambda>b. if b \<in> A \<and> removed de s b then None else view s b) \<and>
     (\<forall>b. b \<notin> A \<longrightarrow> sdb_stateObjects s' b = sdb_stateObjects s b) \<and>
     sdb_logs s' = sdb_logs s \<and> sdb_preimages s' = sdb_preimages s"

lemma finalise_one_removed:
  assumes wf: "wf_state s" and so: "sdb_stateObjects s a = Some so"
    and rm: "so_suicided so \<or> de \<and> empty_obj (sdb_db s) so"
  shows "\<exists>s'. finalise_one de keys a s = Done s' \<and> finalised de s {a} s'"
proof -
  have a: "so_address so = a" "ok_obj (sdb_db s) so" using wf so by (auto simp: wf_state_def)
  let ?s = "(deleteStateObject so s)\<lparr>sdb_stateObjectsDirty := insert a (sdb_stateObjectsDirty (deleteStateObject so s))\<rparr>"
  have st: "sdb_stateObjects ?s = (sdb_stateObjects s)(a \<mapsto> so\<lparr>so_deleted := True\<rparr>)" "sdb_db ?s = sdb_db s"
    "sdb_trie ?s = fst (TryDelete (sdb_trie s) a)" "sdb_logs ?s = sdb_logs s" "sdb_preimages ?s = sdb_preimages s"
    using so a by (simp_all add: deleteStateObject_def case_prod_beta Let_def updObj_def)
  have "wf_state ?s"
    using wf a by (auto simp: wf_state_def st trie_view_other ok_obj_def)
  moreover have "view ?s = (\<lambda>b. if b \<in> {a} \<and> removed de s b then None else view s b)"
    using so rm by (auto simp: view_alt st cell_view_other removed_def fun_eq_iff)
  ultimately have "finalised de s {a} ?s" by (simp add: finalised_def st)
  moreover have "finalise_one de keys a s = Done ?s" using so rm by (simp add: finalise_one_def)
  ultimately show ?thesis by blast
qed

lemma finalise_one_kept:
  assumes wf: "wf_state s" and so: "sdb_stateObjects s a = Some so" and fin: "finalisable s a"
    and keep: "\<not> (so_suicided so \<or> de \<and> empty_obj (sdb_db s) so)"
  shows "\<exists>s'. finalise_one de keys a s = Done s' \<and> finalised de s {a} s'"
proof -
  have a: "so_address so = a" "ok_obj (sdb_db s) so" using wf so by (auto simp: wf_state_def)
  have live: "\<not> so_deleted so" "0 \<le> acc_Balance (so_data so)" "storage_cached so"
    using fin so by (auto simp: finalisable_def)
  let ?o = "updateRoot (sdb_db s) (keys a) so"
  note r = obj_view_updateRoot [OF live(3), of "sdb_db s" "keys a"]
  obtain s1 where s1: "updateStateObject ?o (updObj a (\<lambda>_. ?o) s) = Done s1"
    and st: "sdb_stateObjects s1 = (sdb_stateObjects s)(a \<mapsto> ?o)" "sdb_db s1 = sdb_db s"
    "sdb_trie s1 = fst (TryUpdate (sdb_trie s) a (so_data ?o))" "sdb_logs s1 = sdb_logs s"
    "sdb_preimages s1 = sdb_preimages s"
    using so a live r by (auto simp: updateStateObject_def case_prod_beta updObj_def)
  let ?s = "s1\<lparr>sdb_stateObjectsDirty := insert a (sdb_stateObjectsDirty s1)\<rparr>"
  have "wf_state ?s"
    using wf a live r by (auto simp: wf_state_def st trie_view_other ok_obj_def)
  moreover have "view ?s = (\<lambda>b. if b \<in> {a} \<and> removed de s b then None else view s b)"
    using so keep live r by (auto simp: view_alt st cell_view_other removed_def fun_eq_iff)
  ultimately have "finalised de s {a} ?s" by (simp add: finalised_def st)
  moreover have "finalise_one de keys a s = Done ?s"
    using so keep s1 by (auto simp: finalise_one_def Let_def)
  ultimately show ?thesis by blast
qed

lemma finalise_one_spec:
  assumes "wf_state s" "finalisable s a"
  shows "\<exists>s'. finalise_one de keys a s = Done s' \<and> finalised de s {a} s'"
proof (cases "sdb_stateObjects s a")
  case None
  then have "finalised de s {a} s" using assms(1) by (auto simp: finalised_def removed_def fun_eq_iff)
  with None show ?thesis by (simp add: finalise_one_def)
next
  case (Some so)
  then show ?thesis
    using assms finalise_one_removed [of s a so de] finalise_one_kept [of s a so de] by blast
qed

lemma finalise_loop_spec:
  assumes "wf_state s" "distinct order" "\<forall>a \<in> set order. finalisable s a"
  shows "\<exists>s'. finalise_loop de keys order s = Done s' \<and> finalised de s (set order) s'"
  using assms
proof (induction order arbitrary: s)
  case Nil
  then show ?case by (simp add: finalised_def)
next
  case (Cons a as)
  from Cons.prems finalise_one_spec [of s a de keys]
  obtain s1 where s1: "finalise_one de keys a s = Done s1" "finalised de s {a} s1" by auto
  have eq: "removed de s1 b = removed de s b" "finalisable s1 b = finalisable s b" if "b \<in> set as" for b
    using s1(2) that Cons.prems(2) by (auto simp: finalised_def removed_def finalisable_def)
  have "wf_state s1" using s1(2) by (simp add: finalised_def)
  with Cons.IH [of s1] Cons.prems eq
  obtain s' where s': "finalise_loop de keys as s1 = Done s'" "finalised de s1 (set as) s'" by auto
  have "finalised de s (set (a # as)) s'"
    using s'(2) s1(2) eq by (auto simp: finalised_def fun_eq_iff)
  then show ?case using s1(1) s'(1) by simp
qed

text \<open>
  C18. \<open>Finalise\<close> removes exactly the dirty accounts that were self-destructed or, when asked to, are
  empty; every other account keeps its nonce, balance, code and storage. The journal, the
  revisions and the refund counter are cleared, the logs stay. This holds for every order in which
  the dirty accounts and their slots are visited, so the result does not depend on Go's map order.
\<close>

theorem Finalise_removes_exactly:
  assumes "wf_state s" and "distinct order" "set order = dom (j_dirties (sdb_journal s))"
    and "\<forall>a \<in> set order. finalisable s a"
  shows "\<exists>s'. Finalise de keys order s = Done s' \<and> wf_state s' \<and>
    view s' = (\<lambda>a. if a \<in> dom (j_dirties (sdb_journal s)) \<and> removed de s a then None else view s a) \<and>
    sdb_journal s' = newJournal \<and> sdb_validRevisions s' = [] \<and> sdb_refund s' = 0 \<and>
    sdb_logs s' = sdb_logs s"
proof -
  obtain s1 where s1: "finalise_loop de keys order s = Done s1" "finalised de s (set order) s1"
    using finalise_loop_spec [OF assms(1,2,4)] by blast
  let ?s = "clearJournalAndRefund s1"
  have "wf_state ?s" "view ?s = view s1"
    using s1(2) view_frame [of ?s s1] wf_state_frame [of ?s s1]
    by (simp_all add: finalised_def clearJournalAndRefund_def)
  then show ?thesis
    using s1 assms(3) by (simp add: Finalise_def finalised_def clearJournalAndRefund_def)
qed

definition sampleDirty :: StateDB where
  "sampleDirty = fst (Suicide 2 (AddBalance 2 9 (SetState 1 7 5 (AddBalance 1 5 sampleState))))"

lemma sampleDirty_wf: "wf_state sampleDirty"
  unfolding sampleDirty_def using sampleState_wf
  by (metis undoable_Suicide undoable_AddBalance undoable_SetState undoable_wf wf_db_def)

lemmas sample_unfold =
  sampleDirty_def sampleState_def sampleDatabase_def Suicide_def AddBalance_def SetState_def SetBalance_so_def
  GetOrNewStateObject_def getStateObject_def createObject_def TryGet_def emptyTrie_def setError_def
  appendEntry_def updObj_def setStateObject_def journal_append_def dirties_inc_def newJournal_def
  newObject_def zeroAccount_def emptyCodeHash_def setNonce_obj_def setBalance_obj_def GetState_obj_def getTrie_def
  setState_obj_def markSuicided_def Let_def case_prod_beta

theorem Finalise_removes_exactly_witness:
  "\<exists>s'. Finalise False (\<lambda>_. [7]) [2, 1] sampleDirty = Done s' \<and> view s' 2 = None \<and>
     view s' 1 = view sampleDirty 1 \<and> view s' 1 \<noteq> None"
proof -
  have d: "dom (j_dirties (sdb_journal sampleDirty)) = {1, 2}"
    by (auto simp: sample_unfold split: if_splits)
  have f: "finalisable sampleDirty 1" "finalisable sampleDirty 2" "view sampleDirty 1 \<noteq> None"
    by (auto simp: sample_unfold finalisable_def storage_cached_def view_alt)
  have r: "removed False sampleDirty 2" "\<not> removed False sampleDirty 1"
    by (auto simp: sample_unfold removed_def)
  obtain s' where "Finalise False (\<lambda>_. [7]) [2, 1] sampleDirty = Done s'"
    "view s' = (\<lambda>a. if a \<in> {1, 2} \<and> removed False sampleDirty a then None else view sampleDirty a)"
    using Finalise_removes_exactly [of sampleDirty "[2, 1]" False "\<lambda>_. [7]"] sampleDirty_wf d f by auto
  then show ?thesis using f(3) r by auto
qed

subsection \<open>Copying a state\<close>

lemma deepCopy_simps [simp]:
  "so_address (deepCopy db so) = so_address so" "so_deleted (deepCopy db so) = so_deleted so"
  "ok_obj db (deepCopy db so)"
  by (simp_all add: deepCopy_def newObject_def ok_obj_def)

lemma obj_view_deepCopy:
  assumes ok: "ok_obj db so" and st: "storage_ok db so"
  shows "obj_view db (deepCopy db so) = obj_view db so"
proof -
  have "snd (getTrie db (deepCopy db so)) = snd (getTrie db so)"
    using ok by (intro getTrie_cong) (simp_all add: deepCopy_def newObject_def ok_obj_def)
  then have "snd (GetState_obj db (deepCopy db so) k) = snd (GetState_obj db so k)" for k
    using st by (cases "so_cachedStorage so k"; cases "so_dirtyStorage so k")
      (auto simp: GetState_obj_value deepCopy_def storage_ok_def)
  moreover have "snd (Code_obj db (deepCopy db so)) = snd (Code_obj db so)"
    using ok by (simp add: Code_obj_value deepCopy_def newObject_def ok_obj_def split: option.splits)
  ultimately show ?thesis
    by (simp add: obj_view_def deepCopy_def newObject_def)
qed

lemma copy_dirties_objects:
  "sdb_stateObjects (copy_dirties s as c) a =
     (if a \<in> set as \<and> sdb_stateObjects s a \<noteq> None
      then map_option (deepCopy (sdb_db s)) (sdb_stateObjects s a) else sdb_stateObjects c a)"
  by (induction as arbitrary: c) (auto split: option.splits)

definition copy_rest :: "StateDB \<Rightarrow> StateDB \<Rightarrow> bool" where
  "copy_rest c c' \<longleftrightarrow> (\<exists>X Y. c' = c\<lparr>sdb_stateObjects := X, sdb_stateObjectsDirty := Y\<rparr>)"

lemma copy_rest_refl: "copy_rest c c"
  unfolding copy_rest_def by (metis StateDB.surjective StateDB.update_convs(3,4))

lemma copy_rest_step: "copy_rest c (c\<lparr>sdb_stateObjects := X, sdb_stateObjectsDirty := Y\<rparr>)"
  by (auto simp: copy_rest_def)

lemma copy_rest_trans: "copy_rest c c' \<Longrightarrow> copy_rest c' c'' \<Longrightarrow> copy_rest c c''"
  by (clarsimp simp: copy_rest_def) blast

lemma copy_dirties_rest: "copy_rest c (copy_dirties s as c)"
proof (induction as arbitrary: c)
  case (Cons a as)
  show ?case
    using Cons.IH copy_rest_trans [OF copy_rest_step Cons.IH] by (cases "sdb_stateObjects s a") auto
qed (simp add: copy_rest_refl)

lemma copy_pending_spec:
  assumes "\<forall>a \<in> set as. sdb_stateObjects s a \<noteq> None"
  shows "\<exists>c'. copy_pending s as c = Done c' \<and> copy_rest c c' \<and>
    (\<forall>a. sdb_stateObjects c' a =
       (if sdb_stateObjects c a = None \<and> a \<in> set as
        then map_option (deepCopy (sdb_db s)) (sdb_stateObjects s a) else sdb_stateObjects c a))"
  using assms
proof (induction as arbitrary: c)
  case (Cons a as)
  show ?case
  proof (cases "sdb_stateObjects c a")
    case (Some o')
    then show ?thesis using Cons.IH [of c] Cons.prems by auto
  next
    case None
    obtain so where so: "sdb_stateObjects s a = Some so" using Cons.prems by auto
    let ?c = "c\<lparr>sdb_stateObjects := (sdb_stateObjects c)(a \<mapsto> deepCopy (sdb_db s) so),
                sdb_stateObjectsDirty := insert a (sdb_stateObjectsDirty c)\<rparr>"
    obtain c' where c': "copy_pending s as ?c = Done c'" "copy_rest ?c c'"
      "\<forall>b. sdb_stateObjects c' b = (if sdb_stateObjects ?c b = None \<and> b \<in> set as
         then map_option (deepCopy (sdb_db s)) (sdb_stateObjects s b) else sdb_stateObjects ?c b)"
      using Cons.IH [of ?c] Cons.prems by auto
    have "copy_pending s (a # as) c = Done c'" using None so c'(1) by simp
    moreover have "copy_rest c c'" using c'(2) by (rule copy_rest_trans [OF copy_rest_step])
    ultimately show ?thesis using c'(3) None so by auto
  qed
qed (simp add: copy_rest_refl)

definition copyable :: "StateDB \<Rightarrow> bool" where
  \<comment> \<open>objects that are not recorded as dirty only cache what the trie holds\<close>
  "copyable s \<longleftrightarrow>
     (\<forall>a so. sdb_stateObjects s a = Some so \<longrightarrow> storage_ok (sdb_db s) so \<and>
        (a \<notin> dom (j_dirties (sdb_journal s)) \<union> sdb_stateObjectsDirty s \<longrightarrow>
           view s a = trie_view (sdb_db s) (sdb_trie s) a)) \<and>
     (\<forall>a \<in> sdb_stateObjectsDirty s. sdb_stateObjects s a \<noteq> None)"



end
