(* ===== verification/Trie_Secure.thy ===== *)
theory Trie_Secure
  imports Trie_Properties
begin

text \<open>
  The secure trie (\<open>src/core/trie/secure_trie.go\<close>): a trie whose keys are hashed, with a cache of the
  keys behind the hashes that Commit moves to the database. The cache belongs to one value of the Go type;
  \<open>sec_owned\<close> says whether the pointer \<open>secKeyCacheOwner\<close> is the value itself, so a copy starts with an
  empty cache of its own.
\<close>

subsection \<open>Operations\<close>

record SecureTrie =
  sec_trie :: Trie
  sec_secKeyCache :: "bytes \<rightharpoonup> bytes"
  sec_owned :: bool

definition NewSecure :: "Hash \<Rightarrow> TrieDatabase option \<Rightarrow> 16 word \<Rightarrow> (trie_error + SecureTrie) outcome" where
  "NewSecure root odb cachelimit =
     (case odb of
        None \<Rightarrow> Panic
      | Some db \<Rightarrow>
          obind (Trie_New root db)
            (\<lambda>r. Done (case r of
               Inl err \<Rightarrow> Inl err
             | Inr t \<Rightarrow> Inr \<lparr>sec_trie = SetCacheLimit cachelimit t, sec_secKeyCache = Map.empty, sec_owned = False\<rparr>)))"

definition hashKey :: "(bytes \<Rightarrow> Hash) \<Rightarrow> bytes \<Rightarrow> bytes" where
  "hashKey K key = Hash_Bytes (K key)"

definition getSecKeyCache :: "SecureTrie \<Rightarrow> SecureTrie" where
  \<comment> \<open>the trie with a cache of its own\<close>
  "getSecKeyCache t = (if sec_owned t then t else t\<lparr>sec_secKeyCache := Map.empty, sec_owned := True\<rparr>)"

definition Secure_TryGet :: "nat \<Rightarrow> (bytes \<Rightarrow> Hash) \<Rightarrow> TrieDatabase \<Rightarrow> bytes \<Rightarrow> SecureTrie \<Rightarrow>
     (SecureTrie \<times> bytes option \<times> trie_error option) outcome" where
  "Secure_TryGet fuel K db key t =
     obind (Trie_TryGet fuel db (hashKey K key) (sec_trie t)) (\<lambda>(tr, v, err). Done (t\<lparr>sec_trie := tr\<rparr>, v, err))"

definition Secure_Get :: "nat \<Rightarrow> (bytes \<Rightarrow> Hash) \<Rightarrow> TrieDatabase \<Rightarrow> bytes \<Rightarrow> SecureTrie \<Rightarrow> (SecureTrie \<times> bytes option) outcome" where
  "Secure_Get fuel K db key t = obind (Secure_TryGet fuel K db key t) (\<lambda>(t', res, err). Done (t', res))"

definition Secure_TryUpdate :: "nat \<Rightarrow> (bytes \<Rightarrow> Hash) \<Rightarrow> TrieDatabase \<Rightarrow> bytes \<Rightarrow> bytes \<Rightarrow> SecureTrie \<Rightarrow>
     (SecureTrie \<times> trie_error option) outcome" where
  "Secure_TryUpdate fuel K db key val t =
     (let hk = hashKey K key
      in obind (Trie_TryUpdate fuel db hk val (sec_trie t))
           (\<lambda>(tr, err).
              if err \<noteq> None then Done (t\<lparr>sec_trie := tr\<rparr>, err)
              else (let t1 = getSecKeyCache (t\<lparr>sec_trie := tr\<rparr>)
                    in Done (t1\<lparr>sec_secKeyCache := (sec_secKeyCache t1)(hk \<mapsto> key)\<rparr>, None))))"

definition Secure_Update :: "nat \<Rightarrow> (bytes \<Rightarrow> Hash) \<Rightarrow> TrieDatabase \<Rightarrow> bytes \<Rightarrow> bytes \<Rightarrow> SecureTrie \<Rightarrow> SecureTrie outcome" where
  "Secure_Update fuel K db key val t = obind (Secure_TryUpdate fuel K db key val t) (\<lambda>(t', _). Done t')"

definition Secure_TryDelete :: "nat \<Rightarrow> (bytes \<Rightarrow> Hash) \<Rightarrow> TrieDatabase \<Rightarrow> bytes \<Rightarrow> SecureTrie \<Rightarrow>
     (SecureTrie \<times> trie_error option) outcome" where
  "Secure_TryDelete fuel K db key t =
     (let hk = hashKey K key;
          t1 = getSecKeyCache t;
          t2 = t1\<lparr>sec_secKeyCache := (sec_secKeyCache t1)(hk := None)\<rparr>
      in obind (Trie_TryDelete fuel db hk (sec_trie t2)) (\<lambda>(tr, err). Done (t2\<lparr>sec_trie := tr\<rparr>, err)))"

definition Secure_Delete :: "nat \<Rightarrow> (bytes \<Rightarrow> Hash) \<Rightarrow> TrieDatabase \<Rightarrow> bytes \<Rightarrow> SecureTrie \<Rightarrow> SecureTrie outcome" where
  "Secure_Delete fuel K db key t = obind (Secure_TryDelete fuel K db key t) (\<lambda>(t', _). Done t')"

definition GetKey :: "TrieDatabase \<Rightarrow> bytes \<Rightarrow> SecureTrie \<Rightarrow> SecureTrie \<times> bytes option" where
  "GetKey db shaKey t =
     (let t1 = getSecKeyCache t
      in (t1, case sec_secKeyCache t1 shaKey of Some key \<Rightarrow> Some key | None \<Rightarrow> db_preimage db (BytesToHash shaKey)))"

fun insert_preimages :: "bytes list \<Rightarrow> (bytes \<rightharpoonup> bytes) \<Rightarrow> TrieDatabase \<Rightarrow> TrieDatabase" where
  \<comment> \<open>the loop over the cache, in the order of the list\<close>
  "insert_preimages [] cache db = db"
| "insert_preimages (hk # hks) cache db =
     insert_preimages hks cache (case cache hk of Some key \<Rightarrow> insertPreimage (BytesToHash hk) key db | None \<Rightarrow> db)"

definition Secure_Commit :: "(bytes \<Rightarrow> Hash) \<Rightarrow> bytes list \<Rightarrow> LeafCallback option \<Rightarrow> SecureTrie \<Rightarrow> TrieDatabase \<Rightarrow>
     (SecureTrie \<times> TrieDatabase \<times> Hash) outcome" where
  "Secure_Commit K order onleaf t db =
     (let t1 = getSecKeyCache t;
          db1 = insert_preimages order (sec_secKeyCache t1) db;
          t2 = (if order = [] then t1 else t1\<lparr>sec_secKeyCache := Map.empty\<rparr>)
      in obind (Trie_Commit K onleaf (sec_trie t2) db1) (\<lambda>(tr, db2, root). Done (t2\<lparr>sec_trie := tr\<rparr>, db2, root)))"

definition Secure_Hash :: "(bytes \<Rightarrow> Hash) \<Rightarrow> SecureTrie \<Rightarrow> (SecureTrie \<times> Hash) outcome" where
  "Secure_Hash K t = obind (Trie_Hash K (sec_trie t)) (\<lambda>(tr, root). Done (t\<lparr>sec_trie := tr\<rparr>, root))"

definition Secure_Copy :: "SecureTrie \<Rightarrow> SecureTrie" where
  "Secure_Copy t = t\<lparr>sec_owned := False\<rparr>"

subsection \<open>The map behind the hashed keys\<close>

definition hashed_map :: "(bytes \<Rightarrow> Hash) \<Rightarrow> bytes set \<Rightarrow> mpt \<Rightarrow> (bytes \<rightharpoonup> bytes) \<Rightarrow> bool" where
  "hashed_map K U m f \<longleftrightarrow> (\<forall>key \<in> U. contents m (hashKey K key) = f key) \<and> (\<forall>hk. hk \<notin> hashKey K ` U \<longrightarrow> contents m hk = None)"

definition secure_holds :: "(bytes \<Rightarrow> Hash) \<Rightarrow> TrieDatabase \<Rightarrow> bytes set \<Rightarrow> SecureTrie \<Rightarrow> (bytes \<rightharpoonup> bytes) \<Rightarrow> bool" where
  \<comment> \<open>on the keys \<open>U\<close> the trie stores the map \<open>f\<close>, and nothing else\<close>
  "secure_holds K db U t f \<longleftrightarrow> (\<exists>m. holds K db (sec_trie t) m \<and> hashed_map K U m f)"

lemma length_hashKey [simp]: "length (hashKey K key) = 32"
  by (simp add: hashKey_def)

lemma secure_fuel: "132 \<le> fuel \<Longrightarrow> 4 * length (hashKey K key) + 4 \<le> fuel"
  by simp

lemma hashKey_eq_iff: "hashKey K a = hashKey K b \<longleftrightarrow> K a = K b"
  unfolding hashKey_def by (metis BytesToHash_Hash_Bytes)

lemma sec_trie_getSecKeyCache [simp]: "sec_trie (getSecKeyCache t) = sec_trie t"
  by (simp add: getSecKeyCache_def)

lemma hashed_map_unique: "hashed_map K U m f \<Longrightarrow> hashed_map K U n f \<Longrightarrow> contents m = contents n"
  unfolding hashed_map_def fun_eq_iff by (metis imageE)

lemma hashed_map_upd:
  assumes "hashed_map K U m f" "contents m' = (contents m)(hashKey K key := z)" "inj_on K U" "key \<in> U"
  shows "hashed_map K U m' (f(key := z))"
  using assms by (auto simp: hashed_map_def hashKey_eq_iff dest: inj_onD)

lemma secure_holds_upd:
  assumes "holds K db (sec_trie t') m'" "contents m' = (contents m)(hashKey K key := z)" "hashed_map K U m f" "inj_on K U" "key \<in> U"
  shows "secure_holds K db U t' (f(key := z))"
  using hashed_map_upd [OF assms(3,2,4,5)] assms(1) unfolding secure_holds_def by blast

lemma Secure_TryGet_holds:
  assumes "secure_holds K db U t f" "key \<in> U" "132 \<le> fuel"
  shows "\<exists>t'. Secure_TryGet fuel K db key t = Done (t', f key, None) \<and> secure_holds K db U t' f"
proof -
  obtain m where m: "holds K db (sec_trie t) m" "hashed_map K U m f" using assms(1) by (auto simp: secure_holds_def)
  obtain tr where "Trie_TryGet fuel db (hashKey K key) (sec_trie t) = Done (tr, contents m (hashKey K key), None)" "holds K db tr m"
    using Trie_TryGet_holds [OF m(1) secure_fuel [OF assms(3)]] by blast
  then show ?thesis using m(2) assms(2) by (auto simp: Secure_TryGet_def secure_holds_def hashed_map_def)
qed

lemma Secure_TryUpdate_holds:
  assumes "secure_holds K db U t f" "inj_on K U" "key \<in> U" "132 \<le> fuel"
  shows "\<exists>t'. Secure_TryUpdate fuel K db key val t = Done (t', None) \<and>
    secure_holds K db U t' (f(key := if val = [] then None else Some val)) \<and> snd (GetKey db (hashKey K key) t') = Some key"
proof -
  obtain m where m: "holds K db (sec_trie t) m" "hashed_map K U m f" using assms(1) by (auto simp: secure_holds_def)
  obtain tr m' where u: "Trie_TryUpdate fuel db (hashKey K key) val (sec_trie t) = Done (tr, None)" "holds K db tr m'"
      "contents m' = (contents m)(hashKey K key := if val = [] then None else Some val)"
    using Trie_TryUpdate_holds [OF m(1) secure_fuel [OF assms(4)]] by blast
  let ?t = "getSecKeyCache (t\<lparr>sec_trie := tr\<rparr>)"
  let ?t' = "?t\<lparr>sec_secKeyCache := (sec_secKeyCache ?t)(hashKey K key \<mapsto> key)\<rparr>"
  have "Secure_TryUpdate fuel K db key val t = Done (?t', None)" using u(1) by (simp add: Secure_TryUpdate_def Let_def)
  moreover have "secure_holds K db U ?t' (f(key := if val = [] then None else Some val))"
    using u(2) by (intro secure_holds_upd [OF _ u(3) m(2) assms(2,3)]) simp
  moreover have "snd (GetKey db (hashKey K key) ?t') = Some key" by (simp add: GetKey_def getSecKeyCache_def Let_def)
  ultimately show ?thesis by blast
qed

lemma Secure_TryDelete_holds:
  assumes "secure_holds K db U t f" "inj_on K U" "key \<in> U" "132 \<le> fuel"
  shows "\<exists>t'. Secure_TryDelete fuel K db key t = Done (t', None) \<and> secure_holds K db U t' (f(key := None))"
proof -
  obtain m where m: "holds K db (sec_trie t) m" "hashed_map K U m f" using assms(1) by (auto simp: secure_holds_def)
  obtain tr m' where u: "Trie_TryDelete fuel db (hashKey K key) (sec_trie t) = Done (tr, None)" "holds K db tr m'"
      "contents m' = (contents m)(hashKey K key := None)"
    using Trie_TryDelete_holds [OF m(1) secure_fuel [OF assms(4)]] by blast
  have "\<exists>t'. Secure_TryDelete fuel K db key t = Done (t', None) \<and> sec_trie t' = tr" using u(1) by (simp add: Secure_TryDelete_def Let_def)
  then show ?thesis using u(2) secure_holds_upd [OF _ u(3) m(2) assms(2,3)] by blast
qed

lemma Secure_Hash_holds:
  assumes "secure_holds K db U t f" "\<And>m. hashed_map K U m f \<Longrightarrow> fits K m"
  shows "\<exists>t' m. Secure_Hash K t = Done (t', mhash K m) \<and> secure_holds K db U t' f \<and> hashed_map K U m f \<and> mtrie m"
proof -
  obtain m where m: "holds K db (sec_trie t) m" "hashed_map K U m f" using assms(1) by (auto simp: secure_holds_def)
  obtain tr where "Trie_Hash K (sec_trie t) = Done (tr, mhash K m)" "holds K db tr m" using Trie_Hash_holds [OF m(1) assms(2) [OF m(2)]] by blast
  then have "Secure_Hash K t = Done (t\<lparr>sec_trie := tr\<rparr>, mhash K m)" "secure_holds K db U (t\<lparr>sec_trie := tr\<rparr>) f" "mtrie m"
    using m(2) by (auto simp: Secure_Hash_def secure_holds_def holds_def)
  then show ?thesis using m(2) by blast
qed

lemma Secure_Copy_holds: "secure_holds K db U (Secure_Copy t) f = secure_holds K db U t f"
  by (simp add: secure_holds_def Secure_Copy_def)

subsection \<open>Preimages\<close>

definition genuine :: "(bytes \<Rightarrow> Hash) \<Rightarrow> TrieDatabase \<Rightarrow> bool" where
  \<comment> \<open>what the database remembers are preimages\<close>
  "genuine K db \<longleftrightarrow> (\<forall>x key. db_preimages db x = Some key \<longrightarrow> x = K key)"

definition cache_ok :: "(bytes \<Rightarrow> Hash) \<Rightarrow> (bytes \<rightharpoonup> bytes) \<Rightarrow> bool" where
  "cache_ok K cache \<longleftrightarrow> (\<forall>hk key. cache hk = Some key \<longrightarrow> hk = hashKey K key)"

lemma genuine_insertPreimage: "genuine K db \<Longrightarrow> genuine K (insertPreimage (K key) key db)"
  by (simp add: genuine_def insertPreimage_def)

lemma Node_insertPreimage [simp]: "Node (insertPreimage x key db) = Node db"
  by (simp add: Node_def insertPreimage_def fun_eq_iff split: option.split)

lemma insert_preimages_frame:
  "Node (insert_preimages hks cache db) = Node db" "db_nodes (insert_preimages hks cache db) = db_nodes db"
proof (induction hks arbitrary: db)
  case (Cons hk hks)
  {
    case 1
    then show ?case using Cons.IH(1) by (simp split: option.split)
  next
    case 2
    then show ?case using Cons.IH(2) by (simp add: insertPreimage_def split: option.split)
  }
qed simp_all

lemma cache_ok_hash: "cache_ok K cache \<Longrightarrow> cache hk = Some key \<Longrightarrow> BytesToHash hk = K key"
  unfolding cache_ok_def hashKey_def by (metis BytesToHash_Hash_Bytes)

lemma insert_preimages_sound: "cache_ok K cache \<Longrightarrow> genuine K db \<Longrightarrow> genuine K (insert_preimages hks cache db)"
  by (induction hks arbitrary: db) (auto simp: cache_ok_hash genuine_insertPreimage split: option.split)

lemma insert_preimages_kept: "db_preimages db x \<noteq> None \<Longrightarrow> db_preimages (insert_preimages hks cache db) x \<noteq> None"
proof (induction hks arbitrary: db)
  case (Cons hk hks)
  then show ?case using Cons.IH [of db] by (auto simp: insertPreimage_def split: option.splits)
qed simp

lemma insert_preimages_all:
  "hk \<in> set hks \<Longrightarrow> cache hk \<noteq> None \<Longrightarrow> db_preimages (insert_preimages hks cache db) (BytesToHash hk) \<noteq> None"
proof (induction hks arbitrary: db)
  case (Cons h hks)
  show ?case
  proof (cases "h = hk")
    case True
    then obtain key where "cache h = Some key" using Cons.prems by auto
    moreover have "db_preimages (insertPreimage (BytesToHash h) key db) (BytesToHash h) \<noteq> None" for key by (simp add: insertPreimage_def)
    ultimately show ?thesis using insert_preimages_kept True by simp
  qed (use Cons in simp)
qed simp

end
