(* ===== verification/State_Tries.thy ===== *)
theory State_Tries
  imports State_Commit Trie_Secure
begin

text \<open>
  How the state database uses the secure trie. The state theories see a trie as the map it stores
  (record \<open>KTrie\<close>); here the encodings of storage slots (\<open>src/core/state/state_object.go\<close>) and of accounts are
  translated, and the operations on the map are shown to be implemented by the secure trie, so that
  writing the dirty slots of an object into a Merkle Patricia trie does what \<open>updateTrie\<close> says.
\<close>

subsection \<open>Encodings\<close>

definition slot_blob :: "Hash \<Rightarrow> bytes" where
  "slot_blob v = (case EncodeToBytes (VBytes (dropWhile (\<lambda>b. b = 0) (Hash_Bytes v))) of Inr b \<Rightarrow> b | Inl _ \<Rightarrow> [])"

definition slot_value :: "bytes option \<Rightarrow> (Hash \<times> rlp_error option) outcome" where
  "slot_value enc =
     (case enc of
        None \<Rightarrow> Done (0, None)
      | Some b \<Rightarrow>
          if length b > 0
          then obind (Split b)
            (\<lambda>r. case r of Inl e \<Rightarrow> Done (BytesToHash [], Some e) | Inr (_, content, _) \<Rightarrow> Done (BytesToHash content, None))
          else Done (0, None))"

definition account_value :: "Account \<Rightarrow> rlp_value" where
  "account_value a =
     VList [VUint (acc_Nonce a), VBig (acc_Balance a), VBytes (Hash_Bytes (acc_Root a)), VBytes (Hash_Bytes (acc_CodeHash a))]"

definition account_blob :: "Account \<Rightarrow> bytes outcome" where
  "account_blob a = (case EncodeToBytes (account_value a) of Inr b \<Rightarrow> Done b | Inl _ \<Rightarrow> Panic)"

subsection \<open>Writing the dirty slots into a secure trie\<close>

fun write_slots :: "nat \<Rightarrow> (bytes \<Rightarrow> Hash) \<Rightarrow> TrieDatabase \<Rightarrow> Hash list \<Rightarrow> Storage \<Rightarrow> SecureTrie \<Rightarrow> trie_error option \<Rightarrow>
     (SecureTrie \<times> trie_error option) outcome" where
  \<comment> \<open>the loop of \<open>updateTrie\<close> over the dirty slots; the first error is kept\<close>
  "write_slots fuel K db [] dirty t err = Done (t, err)"
| "write_slots fuel K db (key # keys) dirty t err =
     (case dirty key of
        None \<Rightarrow> write_slots fuel K db keys dirty t err
      | Some value \<Rightarrow>
          obind (if value = 0 then Secure_TryDelete fuel K db (Hash_Bytes key) t
                 else Secure_TryUpdate fuel K db (Hash_Bytes key) (slot_blob value) t)
            (\<lambda>(t', e). write_slots fuel K db keys (dirty(key := None)) t' (if err = None then e else err)))"

subsection \<open>Key and value encodings are faithful\<close>

lemma length_Address_Bytes [simp]: "length (Address_Bytes a) = 20"
proof -
  have "unat a < 256 ^ 20" using unsigned_less [of a] by simp
  then have "length (be_bytes (unat a)) \<le> 20" by (simp only: length_be_bytes_le)
  then show ?thesis by (simp add: Address_Bytes_def LeftPadBytes_def Bytes_def)
qed

lemma BytesToAddress_Address_Bytes [simp]: "BytesToAddress (Address_Bytes a) = a"
proof -
  have "be_nat 0 (Address_Bytes a) = unat a" by (simp add: Address_Bytes_def be_nat_LeftPadBytes Bytes_def)
  then show ?thesis by (simp add: BytesToAddress_def be_nat_crop_left)
qed

lemma be_nat_trimmed: "be_nat 0 (dropWhile (\<lambda>b. b = 0) bs) = be_nat 0 bs"
  by (induction bs) auto

lemma length_enc_str: "length b \<le> 32 \<Longrightarrow> 0 < length (enc_str b) \<and> length (enc_str b) \<le> 33"
  by (auto simp: enc_str_def puthead_def)

lemma slot_blob_enc: "slot_blob v = enc_str (dropWhile (\<lambda>b. b = 0) (Hash_Bytes v))" "length (dropWhile (\<lambda>b. b = 0) (Hash_Bytes v)) \<le> 32"
proof -
  show l: "length (dropWhile (\<lambda>b. b = 0) (Hash_Bytes v)) \<le> 32" using length_dropWhile_le [of "\<lambda>b. b = 0" "Hash_Bytes v"] by simp
  have "length (enc_str (dropWhile (\<lambda>b. b = 0) (Hash_Bytes v))) < 2 ^ 64" using length_enc_str [OF l] by simp
  then show "slot_blob v = enc_str (dropWhile (\<lambda>b. b = 0) (Hash_Bytes v))"
    using EncodeToBytes_writes [of "VBytes (dropWhile (\<lambda>b. b = 0) (Hash_Bytes v))"] by (simp add: slot_blob_def)
qed

lemma slot_blob_ne: "slot_blob v \<noteq> []"
  using slot_blob_enc(1) [of v] length_enc_str [OF slot_blob_enc(2), of v] by auto

lemma slot_value_blob: "slot_value (Some (slot_blob v)) = Done (v, None)"
proof -
  let ?b = "dropWhile (\<lambda>b. b = 0) (Hash_Bytes v)"
  have "length ?b < 2 ^ 64" using slot_blob_enc(2) [of v] by simp
  then obtain k where "Split (slot_blob v) = Done (Inr (k, ?b, []))" using Split_enc_str [of ?b "[]"] by (auto simp: slot_blob_enc(1))
  moreover have "BytesToHash ?b = v"
    using be_nat_trimmed [of "Hash_Bytes v"] BytesToHash_Hash_Bytes [of v] by (simp add: BytesToHash_def be_nat_crop_left)
  ultimately show ?thesis using slot_blob_ne [of v] by (simp add: slot_value_def)
qed

definition account_ok :: "Account \<Rightarrow> bool" where
  "account_ok a \<longleftrightarrow> 0 \<le> acc_Balance a \<and> length (encoding (account_value a)) < 2 ^ 64"

lemma account_blob_enc: "account_ok a \<Longrightarrow> account_blob a = Done (encoding (account_value a))"
  using EncodeToBytes_writes [of "account_value a"] by (simp add: account_ok_def account_blob_def account_value_def)

lemma account_enc_ne: "encoding (account_value a) \<noteq> []"
  by (simp add: account_value_def enc_list_def puthead_def Let_def)

subsection \<open>The contract of the tries of the state\<close>

definition entries_of :: "('k \<Rightarrow> bytes) \<Rightarrow> ('v \<Rightarrow> bytes) \<Rightarrow> 'k set \<Rightarrow> ('k, 'v) KTrie \<Rightarrow> (bytes \<rightharpoonup> bytes) \<Rightarrow> bool" where
  "entries_of kb enc U tr f \<longleftrightarrow> (\<forall>k \<in> U. f (kb k) = map_option enc (tr_entries tr k))"

definition implements :: "(bytes \<Rightarrow> Hash) \<Rightarrow> TrieDatabase \<Rightarrow> ('k \<Rightarrow> bytes) \<Rightarrow> ('v \<Rightarrow> bytes) \<Rightarrow> 'k set \<Rightarrow> SecureTrie \<Rightarrow> ('k, 'v) KTrie \<Rightarrow> bool" where
  \<comment> \<open>the secure trie stores the encoded entries of \<open>tr\<close>, whose keys are all in \<open>U\<close>\<close>
  "implements K db kb enc U t tr \<longleftrightarrow> no_fault tr \<and> dom (tr_entries tr) \<subseteq> U \<and>
     (\<exists>f. secure_holds K db (kb ` U) t f \<and> entries_of kb enc U tr f)"

locale encoded_map =
  fixes kb :: "'k \<Rightarrow> bytes" and enc :: "'v \<Rightarrow> bytes"
  assumes inj_kb: "inj kb" and enc_ne: "enc v \<noteq> []"
begin

lemma implementsE:
  assumes "implements K db kb enc U t tr"
  obtains f where "secure_holds K db (kb ` U) t f" "entries_of kb enc U tr f" "no_fault tr" "dom (tr_entries tr) \<subseteq> U"
  using assms by (auto simp: implements_def)

lemma implements_upd:
  assumes "secure_holds K db (kb ` U) t' (f(kb k := map_option enc z))" "entries_of kb enc U tr f" "no_fault tr" "dom (tr_entries tr) \<subseteq> U" "k \<in> U"
  shows "implements K db kb enc U t' (tr\<lparr>tr_entries := (tr_entries tr)(k := z)\<rparr>)"
proof -
  have "entries_of kb enc U (tr\<lparr>tr_entries := (tr_entries tr)(k := z)\<rparr>) (f(kb k := map_option enc z))"
    using assms(2) inj_kb by (simp add: entries_of_def inj_eq)
  moreover have "dom ((tr_entries tr)(k := z)) \<subseteq> U" using assms(4,5) by (auto split: if_splits)
  ultimately show ?thesis using assms(1,3) unfolding implements_def by (auto simp: no_fault_simps(4))
qed

lemma get:
  assumes "implements K db kb enc U t tr" "k \<in> U" "132 \<le> fuel"
  shows "\<exists>t'. Secure_TryGet fuel K db (kb k) t = Done (t', map_option enc (tr_entries tr k), None) \<and> implements K db kb enc U t' tr"
proof -
  obtain f where f: "secure_holds K db (kb ` U) t f" "entries_of kb enc U tr f" "no_fault tr" "dom (tr_entries tr) \<subseteq> U"
    using implementsE [OF assms(1)] .
  obtain t' where "Secure_TryGet fuel K db (kb k) t = Done (t', f (kb k), None)" "secure_holds K db (kb ` U) t' f"
    using Secure_TryGet_holds [OF f(1) imageI [OF assms(2)] assms(3)] by blast
  moreover have "f (kb k) = map_option enc (tr_entries tr k)" using f(2) assms(2) by (simp add: entries_of_def)
  ultimately show ?thesis using f unfolding implements_def by auto
qed

lemma upd:
  assumes "implements K db kb enc U t tr" "inj_on K (kb ` U)" "k \<in> U" "132 \<le> fuel"
  shows "\<exists>t'. Secure_TryUpdate fuel K db (kb k) (enc v) t = Done (t', None) \<and> implements K db kb enc U t' (fst (TryUpdate tr k v))"
proof -
  obtain f where f: "secure_holds K db (kb ` U) t f" "entries_of kb enc U tr f" "no_fault tr" "dom (tr_entries tr) \<subseteq> U"
    using implementsE [OF assms(1)] .
  obtain t' where t': "Secure_TryUpdate fuel K db (kb k) (enc v) t = Done (t', None)"
      "secure_holds K db (kb ` U) t' (f(kb k := if enc v = [] then None else Some (enc v)))"
    using Secure_TryUpdate_holds [OF f(1) assms(2) imageI [OF assms(3)] assms(4)] by blast
  have "implements K db kb enc U t' (fst (TryUpdate tr k v))"
    using implements_upd [of K db U t' f k "Some v", OF _ f(2,3,4) assms(3)] t'(2) enc_ne [of v] f(3) by (simp add: no_fault_simps)
  then show ?thesis using t'(1) by blast
qed

lemma del:
  assumes "implements K db kb enc U t tr" "inj_on K (kb ` U)" "k \<in> U" "132 \<le> fuel"
  shows "\<exists>t'. Secure_TryDelete fuel K db (kb k) t = Done (t', None) \<and> implements K db kb enc U t' (fst (TryDelete tr k))"
proof -
  obtain f where f: "secure_holds K db (kb ` U) t f" "entries_of kb enc U tr f" "no_fault tr" "dom (tr_entries tr) \<subseteq> U"
    using implementsE [OF assms(1)] .
  obtain t' where t': "Secure_TryDelete fuel K db (kb k) t = Done (t', None)" "secure_holds K db (kb ` U) t' (f(kb k := None))"
    using Secure_TryDelete_holds [OF f(1) assms(2) imageI [OF assms(3)] assms(4)] by blast
  have "implements K db kb enc U t' (fst (TryDelete tr k))"
    using implements_upd [of K db U t' f k None, OF _ f(2,3,4) assms(3)] t'(2) f(3) by (simp add: no_fault_simps)
  then show ?thesis using t'(1) by blast
qed

lemma same_map:
  assumes "entries_of kb enc U tr f" "hashed_map K (kb ` U) m f" "entries_of kb enc U tr g" "hashed_map K (kb ` U) n g"
  shows "contents m = contents n"
proof -
  have "hashed_map K (kb ` U) n f" using assms(1,3,4) by (auto simp: entries_of_def hashed_map_def)
  then show ?thesis using assms(2) by (rule hashed_map_unique [rotated])
qed

end

interpretation slots: encoded_map Hash_Bytes slot_blob
proof
  show "inj Hash_Bytes" by (metis BytesToHash_Hash_Bytes injI)
qed (rule slot_blob_ne)

interpretation accounts: encoded_map Address_Bytes "\<lambda>a. encoding (account_value a)"
proof
  show "inj Address_Bytes" by (metis BytesToAddress_Address_Bytes injI)
qed (rule account_enc_ne)

lemma write_slots_implements:
  assumes "implements K db Hash_Bytes slot_blob U t tr" "inj_on K (Hash_Bytes ` U)" "set keys \<subseteq> U" "132 \<le> fuel"
  shows "\<exists>t'. write_slots fuel K db keys (so_dirtyStorage so) t None = Done (t', None) \<and>
    implements K db Hash_Bytes slot_blob U t' (fst (updateTrie_loop keys tr so))"
  using assms(1,3)
proof (induction keys arbitrary: t tr so)
  case (Cons key keys)
  have key: "key \<in> U" "set keys \<subseteq> U" using Cons.prems(2) by auto
  show ?case
  proof (cases "so_dirtyStorage so key")
    case None
    then show ?thesis using Cons.IH [OF Cons.prems(1) key(2)] by simp
  next
    case (Some w)
    define tr' where "tr' = fst (if w = 0 then TryDelete tr key else TryUpdate tr key w)"
    define so' where "so' = setError_obj (snd (if w = 0 then TryDelete tr key else TryUpdate tr key w)) (so\<lparr>so_dirtyStorage := (so_dirtyStorage so)(key := None)\<rparr>)"
    have d: "so_dirtyStorage so' = (so_dirtyStorage so)(key := None)" by (simp add: so'_def setError_obj_def)
    have "\<exists>t1. (if w = 0 then Secure_TryDelete fuel K db (Hash_Bytes key) t else Secure_TryUpdate fuel K db (Hash_Bytes key) (slot_blob w) t) = Done (t1, None) \<and>
        implements K db Hash_Bytes slot_blob U t1 tr'"
      using slots.upd [OF Cons.prems(1) assms(2) key(1) assms(4)] slots.del [OF Cons.prems(1) assms(2) key(1) assms(4)] by (simp add: tr'_def)
    then obtain t1 where t1: "(if w = 0 then Secure_TryDelete fuel K db (Hash_Bytes key) t else Secure_TryUpdate fuel K db (Hash_Bytes key) (slot_blob w) t) = Done (t1, None)"
        "implements K db Hash_Bytes slot_blob U t1 tr'" by blast
    have "updateTrie_loop (key # keys) tr so = updateTrie_loop keys tr' so'" using Some by (simp add: tr'_def so'_def case_prod_beta Let_def)
    moreover have "write_slots fuel K db (key # keys) (so_dirtyStorage so) t None = write_slots fuel K db keys (so_dirtyStorage so') t1 None"
      using Some t1(1) d by simp
    ultimately show ?thesis using Cons.IH [OF t1(2) key(2), of so'] by simp
  qed
qed simp

lemma slot_value_entry: "no_fault tr \<Longrightarrow> slot_value (map_option slot_blob (tr_entries tr k)) = Done (trie_value tr k, None)"
  by (cases "tr_entries tr k") (simp_all add: trie_value_no_fault slot_value_blob, simp add: slot_value_def)

lemma implements_empty: "sec_trie t = emptyMPT \<Longrightarrow> implements K db kb enc U t emptyTrie"
proof -
  assume t: "sec_trie t = emptyMPT"
  have "hashed_map K (kb ` U) MNil Map.empty" by (simp add: hashed_map_def contents_def)
  then have "secure_holds K db (kb ` U) t Map.empty" using emptyMPT_holds t unfolding secure_holds_def by metis
  then show ?thesis unfolding implements_def by (auto simp: emptyTrie_def no_fault_def entries_of_def intro!: exI [of _ Map.empty])
qed

text \<open>
  C27. Writing storage back refines the map of the state database: if a secure trie stores the encoded slots of
  \<open>tr\<close> and the keys of interest do not collide under Keccak, then the loop of \<open>updateTrie\<close> over the dirty slots,
  run on the Merkle Patricia trie, returns without error, the trie then stores the encoded slots of the map
  that \<open>updateTrie_loop\<close> computes, and reading any slot back through \<open>TryGet\<close> and \<open>rlp.Split\<close> gives its value in
  that map.
\<close>

theorem storage_writes_refine:
  assumes "implements K db Hash_Bytes slot_blob U t tr" "inj_on K (Hash_Bytes ` U)" "set keys \<subseteq> U" "132 \<le> fuel"
  shows "\<exists>t'. write_slots fuel K db keys (so_dirtyStorage so) t None = Done (t', None) \<and>
    implements K db Hash_Bytes slot_blob U t' (fst (updateTrie_loop keys tr so)) \<and>
    (\<forall>k \<in> U. \<exists>t'' blob. Secure_TryGet fuel K db (Hash_Bytes k) t' = Done (t'', blob, None) \<and>
       slot_value blob = Done (trie_value (fst (updateTrie_loop keys tr so)) k, None))"
proof -
  let ?tr = "fst (updateTrie_loop keys tr so)"
  obtain t' where t': "write_slots fuel K db keys (so_dirtyStorage so) t None = Done (t', None)" "implements K db Hash_Bytes slot_blob U t' ?tr"
    using write_slots_implements [OF assms] by blast
  have "no_fault ?tr" using t'(2) by (simp add: implements_def)
  then have "\<forall>k \<in> U. \<exists>t'' blob. Secure_TryGet fuel K db (Hash_Bytes k) t' = Done (t'', blob, None) \<and> slot_value blob = Done (trie_value ?tr k, None)"
    using slots.get [OF t'(2) _ assms(4)] slot_value_entry [of ?tr] by blast
  then show ?thesis using t' by blast
qed

definition sampleSecure :: SecureTrie where
  "sampleSecure = \<lparr>sec_trie = emptyMPT, sec_secKeyCache = Map.empty, sec_owned = False\<rparr>"

theorem storage_writes_refine_witness:
  "\<exists>t' t'' blob. write_slots 132 BytesToHash sampleDb [7, 9] [7 \<mapsto> 5, 9 \<mapsto> 0] sampleSecure None = Done (t', None) \<and>
     Secure_TryGet 132 BytesToHash sampleDb (Hash_Bytes 7) t' = Done (t'', blob, None) \<and> slot_value blob = Done (5, None)"
proof -
  let ?so = "newObject sampleDatabase 1 (zeroAccount sampleDatabase)\<lparr>so_dirtyStorage := [7 \<mapsto> 5, 9 \<mapsto> 0]\<rparr>"
  have i: "implements BytesToHash sampleDb Hash_Bytes slot_blob {7, 9} sampleSecure emptyTrie" by (rule implements_empty) (simp add: sampleSecure_def)
  have j: "inj_on BytesToHash (Hash_Bytes ` {7, 9})" by (auto simp: inj_on_def)
  have v: "trie_value (fst (updateTrie_loop [7, 9] emptyTrie ?so)) 7 = 5"
    by (simp add: newObject_def TryUpdate_def TryDelete_def emptyTrie_def setError_obj_def trie_value_def TryGet_def)
  have d: "so_dirtyStorage ?so = [7 \<mapsto> 5, 9 \<mapsto> 0]" "set [7, 9] \<subseteq> {7, 9 :: Hash}" "7 \<in> {7, 9 :: Hash}" by simp_all
  obtain t' where t': "write_slots 132 BytesToHash sampleDb [7, 9] (so_dirtyStorage ?so) sampleSecure None = Done (t', None)"
      "\<forall>k \<in> {7, 9}. \<exists>t'' blob. Secure_TryGet 132 BytesToHash sampleDb (Hash_Bytes k) t' = Done (t'', blob, None) \<and>
         slot_value blob = Done (trie_value (fst (updateTrie_loop [7, 9] emptyTrie ?so)) k, None)"
    using storage_writes_refine [OF i j d(2) order_refl, of ?so] by blast
  obtain t'' blob where b: "Secure_TryGet 132 BytesToHash sampleDb (Hash_Bytes 7) t' = Done (t'', blob, None)"
      "slot_value blob = Done (trie_value (fst (updateTrie_loop [7, 9] emptyTrie ?so)) 7, None)"
    using bspec [OF t'(2) d(3)] by blast
  show ?thesis using t'(1) b(1) b(2) [unfolded v] unfolding d(1) by blast
qed

end
