(* ===== verification/Types_Header.thy ===== *)
theory Types_Header
  imports Rlp
begin

text \<open>
  Block headers and their hashes (\<open>src/core/types/block.go\<close>), and the hash that a clique signer signs
  (\<open>src/consensus/solo/clique.go\<close>). Keccak is the parameter \<open>K\<close>; a Go string is its bytes.
\<close>

type_synonym Bloom = bytes

record Header =
  hd_ParentHash :: Hash
  hd_UncleHash :: Hash
  hd_Coinbase :: Address
  hd_Root :: Hash
  hd_TxHash :: Hash
  hd_ReceiptHash :: Hash
  hd_Bloom :: Bloom
  hd_Difficulty :: int
  hd_Number :: int
  hd_GasLimit :: uint64
  hd_GasUsed :: uint64
  hd_Time :: int
  hd_Extra :: bytes
  hd_MixDigest :: Hash
  hd_Nonce :: bytes
  hd_Round :: uint64
  hd_Round2 :: uint64
  hd_PresidentId :: bytes
  hd_DAppID :: Address
  hd_DAppMainHash :: Hash

definition rlpHash :: "(bytes \<Rightarrow> Hash) \<Rightarrow> rlp_value \<Rightarrow> Hash" where
  \<comment> \<open>the error of \<open>rlp.Encode\<close> is dropped, and nothing is then written to the hash\<close>
  "rlpHash K x = K (case EncodeToBytes x of Inr b \<Rightarrow> b | Inl _ \<Rightarrow> [])"

definition Header_Hash :: "(bytes \<Rightarrow> Hash) \<Rightarrow> Header \<Rightarrow> Hash" where
  "Header_Hash K h = rlpHash K (VList
     [VBytes (Hash_Bytes (hd_ParentHash h)), VBytes (Hash_Bytes (hd_UncleHash h)), VBytes (Address_Bytes (hd_Coinbase h)),
      VBytes (Hash_Bytes (hd_Root h)), VBytes (Hash_Bytes (hd_TxHash h)), VBytes (Hash_Bytes (hd_ReceiptHash h)),
      VBytes (hd_Bloom h), VBig (hd_Difficulty h), VBig (hd_Number h), VUint (hd_GasLimit h), VUint (hd_GasUsed h),
      VBig (hd_Time h), VBytes (hd_Extra h), VBytes (Hash_Bytes (hd_MixDigest h)), VBytes (hd_Nonce h),
      VUint (hd_Round h), VUint (hd_Round2 h), VBytes (hd_PresidentId h), VBytes (Address_Bytes (hd_DAppID h)),
      VBytes (Hash_Bytes (hd_DAppMainHash h))])"

definition HashNoNonce :: "(bytes \<Rightarrow> Hash) \<Rightarrow> Header \<Rightarrow> Hash" where
  "HashNoNonce K h = rlpHash K (VList
     [VBytes (Hash_Bytes (hd_ParentHash h)), VBytes (Hash_Bytes (hd_UncleHash h)), VBytes (Address_Bytes (hd_Coinbase h)),
      VBytes (Hash_Bytes (hd_Root h)), VBytes (Hash_Bytes (hd_TxHash h)), VBytes (Hash_Bytes (hd_ReceiptHash h)),
      VBytes (hd_Bloom h), VBig (hd_Difficulty h), VBig (hd_Number h), VUint (hd_GasLimit h), VUint (hd_GasUsed h),
      VBig (hd_Time h), VBytes (hd_Extra h), VUint (hd_Round h), VUint (hd_Round2 h), VBytes (hd_PresidentId h),
      VBytes (Address_Bytes (hd_DAppID h)), VBytes (Hash_Bytes (hd_DAppMainHash h))])"

definition sigHash :: "(bytes \<Rightarrow> Hash) \<Rightarrow> Header \<Rightarrow> Hash outcome" where
  "sigHash K h =
     (if length (hd_Extra h) < 65 then Panic
      else Done (rlpHash K (VList
        [VBytes (Hash_Bytes (hd_ParentHash h)), VBytes (Hash_Bytes (hd_UncleHash h)), VBytes (Address_Bytes (hd_Coinbase h)),
         VBytes (Hash_Bytes (hd_Root h)), VBytes (Hash_Bytes (hd_TxHash h)), VBytes (Hash_Bytes (hd_ReceiptHash h)),
         VBytes (hd_Bloom h), VBig (hd_Difficulty h), VBig (hd_Number h), VUint (hd_GasLimit h), VUint (hd_GasUsed h),
         VBig (hd_Time h), VBytes (take (length (hd_Extra h) - 65) (hd_Extra h)), VBytes (Hash_Bytes (hd_MixDigest h)),
         VBytes (hd_Nonce h), VUint (hd_Round h), VBytes (hd_PresidentId h)])))"

lemma sigHash_ignores:
  \<comment> \<open>three fields of the header are not covered by the seal\<close>
  "sigHash K (h\<lparr>hd_Round2 := r, hd_DAppID := d, hd_DAppMainHash := m\<rparr>) = sigHash K h"
  by (simp add: sigHash_def)

end
