(* ===== verification/Clique_Snapshot.thy ===== *)
theory Clique_Snapshot
  imports Types_Header "HOL-Library.AList"
begin

text \<open>
  The authorization snapshots of the proof-of-authority engine (\<open>src/consensus/solo/snapshot.go\<close>): the set of
  signers, the signers of the last blocks, the votes cast in the current epoch and their tally, and how a
  sequence of headers changes them. The Go maps are a set (\<open>Signers\<close>), an association list (\<open>Recents\<close>, whose
  values are searched) and a function (\<open>Tally\<close>). The address behind a seal comes from the parameter
  \<open>rec\<close> (\<open>ecrecover\<close>).
\<close>

subsection \<open>State\<close>

record Vote =
  vt_Signer :: Address
  vt_Block :: uint64
  vt_Address :: Address
  vt_Authorize :: bool

record Tally =
  tl_Authorize :: bool
  tl_Votes :: int

record CliqueConfig =
  cc_Period :: uint64
  cc_Epoch :: uint64

record Snap =
  sn_Number :: uint64
  sn_Hash :: Hash
  sn_Signers :: "Address set"
  sn_Recents :: "(uint64 \<times> Address) list"
  sn_Votes :: "Vote list"
  sn_Tally :: "Address \<rightharpoonup> Tally"

datatype clique_error = errUnknownBlock | errInvalidCheckpointBeneficiary | errInvalidVote | errInvalidCheckpointVote
  | errMissingVanity | errMissingSignature | errExtraSigners | errInvalidCheckpointSigners | errInvalidMixDigest
  | errInvalidUncleHash | errInvalidDifficulty | ErrInvalidTimestamp | errInvalidVotingChain | errUnauthorized
  | errWaitTransactions | ErrFutureBlock | ErrUnknownAncestor | errRecover | errStore

definition nonceAuthVote :: bytes where
  "nonceAuthVote = replicate 8 0xFF"

definition nonceDropVote :: bytes where
  "nonceDropVote = replicate 8 0"

definition newSnapshot :: "uint64 \<Rightarrow> Hash \<Rightarrow> Address list \<Rightarrow> Snap" where
  "newSnapshot number hash signers =
     \<lparr>sn_Number = number, sn_Hash = hash, sn_Signers = set signers, sn_Recents = [], sn_Votes = [], sn_Tally = Map.empty\<rparr>"

subsection \<open>Votes\<close>

definition validVote :: "Snap \<Rightarrow> Address \<Rightarrow> bool \<Rightarrow> bool" where
  "validVote s address authorize \<longleftrightarrow>
     (address \<in> sn_Signers s \<and> \<not> authorize) \<or> (address \<notin> sn_Signers s \<and> authorize)"

definition cast :: "Address \<Rightarrow> bool \<Rightarrow> Snap \<Rightarrow> Snap \<times> bool" where
  "cast address authorize s =
     (if \<not> validVote s address authorize then (s, False)
      else (case sn_Tally s address of
              Some old \<Rightarrow> (s\<lparr>sn_Tally := (sn_Tally s)(address \<mapsto> old\<lparr>tl_Votes := tl_Votes old + 1\<rparr>)\<rparr>, True)
            | None \<Rightarrow> (s\<lparr>sn_Tally := (sn_Tally s)(address \<mapsto> \<lparr>tl_Authorize = authorize, tl_Votes = 1\<rparr>)\<rparr>, True)))"

definition uncast :: "Address \<Rightarrow> bool \<Rightarrow> Snap \<Rightarrow> Snap \<times> bool" where
  "uncast address authorize s =
     (case sn_Tally s address of
        None \<Rightarrow> (s, False)
      | Some tally \<Rightarrow>
          if tl_Authorize tally \<noteq> authorize then (s, False)
          else if tl_Votes tally > 1
          then (s\<lparr>sn_Tally := (sn_Tally s)(address \<mapsto> tally\<lparr>tl_Votes := tl_Votes tally - 1\<rparr>)\<rparr>, True)
          else (s\<lparr>sn_Tally := (sn_Tally s)(address := None)\<rparr>, True))"

fun take_vote :: "Address \<Rightarrow> Address \<Rightarrow> Vote list \<Rightarrow> (Vote \<times> Vote list) option" where
  \<comment> \<open>the first vote of \<open>signer\<close> on \<open>address\<close>, and the list without it\<close>
  "take_vote signer address [] = None"
| "take_vote signer address (v # vs) =
     (if vt_Signer v = signer \<and> vt_Address v = address then Some (v, vs)
      else map_option (\<lambda>(w, ws). (w, v # ws)) (take_vote signer address vs))"

definition discard_previous :: "Address \<Rightarrow> Address \<Rightarrow> Snap \<Rightarrow> Snap" where
  "discard_previous signer address s =
     (case take_vote signer address (sn_Votes s) of
        None \<Rightarrow> s
      | Some (v, vs) \<Rightarrow> (fst (uncast (vt_Address v) (vt_Authorize v) s))\<lparr>sn_Votes := vs\<rparr>)"

fun retract_votes :: "Address \<Rightarrow> Vote list \<Rightarrow> Snap \<Rightarrow> Vote list \<times> Snap" where
  \<comment> \<open>the loop that removes the votes of a dropped signer\<close>
  "retract_votes signer [] s = ([], s)"
| "retract_votes signer (v # vs) s =
     (if vt_Signer v = signer then retract_votes signer vs (fst (uncast (vt_Address v) (vt_Authorize v) s))
      else (let (ws, s') = retract_votes signer vs s in (v # ws, s')))"

subsection \<open>Applying headers\<close>

definition limit :: "Snap \<Rightarrow> uint64" where
  "limit s = word_of_nat (card (sn_Signers s) div 2 + 1)"

definition expire :: "uint64 \<Rightarrow> Snap \<Rightarrow> Snap" where
  \<comment> \<open>deletes the oldest signer from the recent list\<close>
  "expire number s =
     (if number \<ge> limit s then s\<lparr>sn_Recents := AList.delete (number - limit s) (sn_Recents s)\<rparr> else s)"

definition pass_vote :: "uint64 \<Rightarrow> Address \<Rightarrow> Snap \<Rightarrow> Snap" where
  \<comment> \<open>changes the set of signers when the tally has a majority\<close>
  "pass_vote number coinbase s =
     (case sn_Tally s coinbase of
        None \<Rightarrow> s
      | Some tally \<Rightarrow>
          if tl_Votes tally > int (card (sn_Signers s) div 2)
          then
            (let s1 = (if tl_Authorize tally then s\<lparr>sn_Signers := insert coinbase (sn_Signers s)\<rparr>
                       else (let s' = expire number (s\<lparr>sn_Signers := sn_Signers s - {coinbase}\<rparr>);
                                 (vs, s'') = retract_votes coinbase (sn_Votes s') s'
                             in s''\<lparr>sn_Votes := vs\<rparr>))
             in s1\<lparr>sn_Votes := filter (\<lambda>v. vt_Address v \<noteq> coinbase) (sn_Votes s1),
                   sn_Tally := (sn_Tally s1)(coinbase := None)\<rparr>)
          else s)"

definition tally_vote :: "uint64 \<Rightarrow> Address \<Rightarrow> Address \<Rightarrow> bool \<Rightarrow> Snap \<Rightarrow> Snap" where
  "tally_vote number signer coinbase authorize s =
     (case cast coinbase authorize s of
        (s1, True) \<Rightarrow>
          s1\<lparr>sn_Votes := sn_Votes s1 @
               [\<lparr>vt_Signer = signer, vt_Block = number, vt_Address = coinbase, vt_Authorize = authorize\<rparr>]\<rparr>
      | (s1, False) \<Rightarrow> s1)"

definition reset_votes :: "CliqueConfig \<Rightarrow> uint64 \<Rightarrow> Snap \<Rightarrow> Snap" where
  \<comment> \<open>removes any votes on checkpoint blocks\<close>
  "reset_votes cfg number s = (if number mod cc_Epoch cfg = 0 then s\<lparr>sn_Votes := [], sn_Tally := Map.empty\<rparr> else s)"

definition apply_header :: "CliqueConfig \<Rightarrow> (Header \<Rightarrow> clique_error + Address) \<Rightarrow> Header \<Rightarrow> Snap \<Rightarrow> (clique_error + Snap) outcome" where
  "apply_header cfg rec header s =
     (let number = word_of_int (hd_Number header) :: uint64
      in if cc_Epoch cfg = 0 then Panic
         else
           (let s2 = expire number (reset_votes cfg number s)
            in case rec header of
                 Inl err \<Rightarrow> Done (Inl err)
               | Inr signer \<Rightarrow>
                   if signer \<notin> sn_Signers s2 then Done (Inl errUnauthorized)
                   else if signer \<in> snd ` set (sn_Recents s2) then Done (Inl errUnauthorized)
                   else
                     (let s3 = s2\<lparr>sn_Recents := AList.update number signer (sn_Recents s2)\<rparr>;
                          s4 = discard_previous signer (hd_Coinbase header) s3
                      in if hd_Nonce header = nonceAuthVote
                         then Done (Inr (pass_vote number (hd_Coinbase header) (tally_vote number signer (hd_Coinbase header) True s4)))
                         else if hd_Nonce header = nonceDropVote
                         then Done (Inr (pass_vote number (hd_Coinbase header) (tally_vote number signer (hd_Coinbase header) False s4)))
                         else Done (Inl errInvalidVote))))"

fun apply_headers :: "CliqueConfig \<Rightarrow> (Header \<Rightarrow> clique_error + Address) \<Rightarrow> Header list \<Rightarrow> Snap \<Rightarrow> (clique_error + Snap) outcome" where
  \<comment> \<open>the loop over the headers\<close>
  "apply_headers cfg rec [] s = Done (Inr s)"
| "apply_headers cfg rec (h # hs) s =
     obind (apply_header cfg rec h s) (\<lambda>r. case r of Inl e \<Rightarrow> Done (Inl e) | Inr s' \<Rightarrow> apply_headers cfg rec hs s')"

fun contiguous :: "uint64 \<Rightarrow> Header list \<Rightarrow> bool" where
  "contiguous n [] = True"
| "contiguous n (h # hs) \<longleftrightarrow> word_of_int (hd_Number h) = n + 1 \<and> contiguous (n + 1) hs"

definition apply_snap :: "CliqueConfig \<Rightarrow> (bytes \<Rightarrow> Hash) \<Rightarrow> (Header \<Rightarrow> clique_error + Address) \<Rightarrow> Header list \<Rightarrow> Snap \<Rightarrow>
     (clique_error + Snap) outcome" where
  "apply_snap cfg K rec headers s =
     (if headers = [] then Done (Inr s)
      else if \<not> contiguous (sn_Number s) headers then Done (Inl errInvalidVotingChain)
      else obind (apply_headers cfg rec headers s)
        (\<lambda>r. Done (case r of
           Inl e \<Rightarrow> Inl e
         | Inr s' \<Rightarrow> Inr (s'\<lparr>sn_Number := sn_Number s' + word_of_nat (length headers), sn_Hash := Header_Hash K (last headers)\<rparr>))))"

subsection \<open>Turns\<close>

fun exchange :: "Address \<Rightarrow> Address list \<Rightarrow> Address \<times> Address list" where
  \<comment> \<open>the inner loop of the sort: the smallest element comes to the front\<close>
  "exchange x [] = (x, [])"
| "exchange x (y # ys) =
     (if x > y then (let (m, zs) = exchange y ys in (m, x # zs)) else (let (m, zs) = exchange x ys in (m, y # zs)))"

lemma length_exchange [simp]: "length (snd (exchange x ys)) = length ys"
  by (induction ys arbitrary: x) (auto simp: case_prod_beta Let_def)

function exchange_sort :: "Address list \<Rightarrow> Address list" where
  "exchange_sort [] = []"
| "exchange_sort (x # xs) = (let (m, ys) = exchange x xs in m # exchange_sort ys)"
  by pat_completeness auto
termination
  by (relation "measure length") (auto, metis length_exchange lessI snd_conv)

definition signers :: "Address list \<Rightarrow> Address list" where
  \<comment> \<open>the argument lists the signers in the order in which Go iterates the map\<close>
  "signers order = exchange_sort order"

fun offset_of :: "Address \<Rightarrow> Address list \<Rightarrow> nat" where
  "offset_of signer [] = 0"
| "offset_of signer (x # xs) = (if x = signer then 0 else Suc (offset_of signer xs))"

definition inturn :: "Address list \<Rightarrow> uint64 \<Rightarrow> Address \<Rightarrow> bool outcome" where
  "inturn order number signer =
     (let ss = signers order
      in if ss = [] then Panic
         else Done (number mod word_of_nat (length ss) = word_of_nat (offset_of signer ss)))"

end
