(* ===== verification/Clique_Votes.thy ===== *)
theory Clique_Votes
  imports Clique_Snapshot
begin

text \<open>
  The voting of the proof-of-authority engine: the tally always counts the votes of the epoch, every vote
  is the only one of an authorized signer on its account, and the set of signers changes only with a
  majority.
\<close>

subsection \<open>The tally counts the votes\<close>

definition votes_on :: "Vote list \<Rightarrow> Address \<Rightarrow> nat" where
  "votes_on vs a = length (filter (\<lambda>v. vt_Address v = a) vs)"

definition tally_of :: "(Address \<Rightarrow> bool) \<Rightarrow> Vote list \<Rightarrow> Address \<rightharpoonup> Tally" where
  "tally_of st vs a = (if votes_on vs a = 0 then None else Some \<lparr>tl_Authorize = st a, tl_Votes = int (votes_on vs a)\<rparr>)"

definition votes_ok :: "Snap \<Rightarrow> bool" where
  "votes_ok s \<longleftrightarrow> finite (sn_Signers s) \<and>
     (\<forall>v \<in> set (sn_Votes s). vt_Signer v \<in> sn_Signers s \<and> vt_Authorize v = (vt_Address v \<notin> sn_Signers s)) \<and>
     distinct (map (\<lambda>v. (vt_Signer v, vt_Address v)) (sn_Votes s)) \<and>
     sn_Tally s = tally_of (\<lambda>a. a \<notin> sn_Signers s) (sn_Votes s)"

lemma votes_on_simps [simp]:
  "votes_on [] a = 0" "votes_on (v # vs) a = (if vt_Address v = a then 1 else 0) + votes_on vs a"
  "votes_on (us @ vs) a = votes_on us a + votes_on vs a"
  by (simp_all add: votes_on_def)

lemma votes_on_filter: "votes_on (filter (\<lambda>v. vt_Address v \<noteq> c) vs) a = (if a = c then 0 else votes_on vs a)"
  by (induction vs) auto

lemma tally_of_cong: "(\<And>a. votes_on us a = votes_on vs a) \<Longrightarrow> (\<And>a. votes_on vs a \<noteq> 0 \<Longrightarrow> st a = st' a) \<Longrightarrow> tally_of st us = tally_of st' vs"
  by (auto simp: tally_of_def fun_eq_iff)

lemma uncast_tally:
  assumes "sn_Tally s = tally_of st (us @ v # vs)" "vt_Authorize v = st (vt_Address v)"
  shows "fst (uncast (vt_Address v) (vt_Authorize v) s) = s\<lparr>sn_Tally := tally_of st (us @ vs)\<rparr>"
proof -
  let ?a = "vt_Address v" and ?n = "votes_on (us @ vs) (vt_Address v)"
  have t: "sn_Tally s ?a = Some \<lparr>tl_Authorize = st ?a, tl_Votes = int ?n + 1\<rparr>" using assms(1) by (simp add: tally_of_def)
  have "(sn_Tally s)(?a := tally_of st (us @ vs) ?a) = tally_of st (us @ vs)"
    using assms(1) by (auto simp: tally_of_def fun_eq_iff)
  moreover have "tally_of st (us @ vs) ?a = (if ?n = 0 then None else Some \<lparr>tl_Authorize = st ?a, tl_Votes = int ?n\<rparr>)"
    by (simp add: tally_of_def)
  ultimately show ?thesis using t assms(2) by (cases "?n = 0") (auto simp: uncast_def)
qed

lemma take_vote_Some: "take_vote x a vs = Some (v, ws) \<Longrightarrow> \<exists>us us'. vs = us @ v # us' \<and> ws = us @ us' \<and> vt_Signer v = x \<and> vt_Address v = a"
proof (induction vs arbitrary: ws)
  case (Cons u vs)
  show ?case
  proof (cases "vt_Signer u = x \<and> vt_Address u = a")
    case True
    then show ?thesis using Cons.prems by (intro exI [of _ "[]"] exI [of _ vs]) auto
  next
    case False
    then obtain ws' where w: "take_vote x a vs = Some (v, ws')" "ws = u # ws'" using Cons.prems by auto
    then obtain us us' where "vs = us @ v # us'" "ws' = us @ us'" "vt_Signer v = x" "vt_Address v = a" using Cons.IH by blast
    then show ?thesis using w(2) by (intro exI [of _ "u # us"] exI [of _ us']) auto
  qed
qed simp

lemma take_vote_None: "take_vote x a vs = None \<longleftrightarrow> (x, a) \<notin> (\<lambda>v. (vt_Signer v, vt_Address v)) ` set vs"
  by (induction vs) auto

lemma discard_previous_ok:
  assumes "votes_ok s"
  shows "votes_ok (discard_previous x a s)" "sn_Signers (discard_previous x a s) = sn_Signers s"
    "sn_Recents (discard_previous x a s) = sn_Recents s" "sn_Number (discard_previous x a s) = sn_Number s"
    "set (sn_Votes (discard_previous x a s)) \<subseteq> set (sn_Votes s)"
    "(x, a) \<notin> (\<lambda>v. (vt_Signer v, vt_Address v)) ` set (sn_Votes (discard_previous x a s))"
proof -
  let ?s = "discard_previous x a s"
  have "votes_ok ?s \<and> sn_Signers ?s = sn_Signers s \<and> sn_Recents ?s = sn_Recents s \<and> sn_Number ?s = sn_Number s \<and>
    set (sn_Votes ?s) \<subseteq> set (sn_Votes s) \<and> (x, a) \<notin> (\<lambda>v. (vt_Signer v, vt_Address v)) ` set (sn_Votes ?s)"
  proof (cases "take_vote x a (sn_Votes s)")
    case None
    then show ?thesis using assms take_vote_None [of x a "sn_Votes s"] by (simp add: discard_previous_def)
  next
    case (Some r)
    then obtain v ws where r: "take_vote x a (sn_Votes s) = Some (v, ws)" by (cases r) auto
    then obtain us us' where v: "sn_Votes s = us @ v # us'" "ws = us @ us'" "vt_Signer v = x" "vt_Address v = a"
      using take_vote_Some by blast
    have "fst (uncast (vt_Address v) (vt_Authorize v) s) = s\<lparr>sn_Tally := tally_of (\<lambda>a. a \<notin> sn_Signers s) (us @ us')\<rparr>"
      using assms v(1) by (intro uncast_tally) (auto simp: votes_ok_def)
    then have d: "?s = s\<lparr>sn_Tally := tally_of (\<lambda>a. a \<notin> sn_Signers s) (us @ us'), sn_Votes := us @ us'\<rparr>"
      using r v(2) by (simp add: discard_previous_def)
    then show ?thesis using assms v unfolding votes_ok_def by auto
  qed
  then show "votes_ok ?s" "sn_Signers ?s = sn_Signers s" "sn_Recents ?s = sn_Recents s" "sn_Number ?s = sn_Number s"
    "set (sn_Votes ?s) \<subseteq> set (sn_Votes s)" "(x, a) \<notin> (\<lambda>v. (vt_Signer v, vt_Address v)) ` set (sn_Votes ?s)" by blast+
qed

lemma retract_votes_eq:
  assumes "sn_Tally s = tally_of st (us @ vs)" "\<forall>v \<in> set vs. vt_Authorize v = st (vt_Address v)"
  shows "retract_votes x vs s = (filter (\<lambda>v. vt_Signer v \<noteq> x) vs, s\<lparr>sn_Tally := tally_of st (us @ filter (\<lambda>v. vt_Signer v \<noteq> x) vs)\<rparr>)"
  using assms
proof (induction vs arbitrary: us s)
  case (Cons v vs)
  show ?case
  proof (cases "vt_Signer v = x")
    case True
    have "fst (uncast (vt_Address v) (vt_Authorize v) s) = s\<lparr>sn_Tally := tally_of st (us @ vs)\<rparr>" using Cons.prems by (intro uncast_tally) auto
    then show ?thesis using True Cons.IH [of "s\<lparr>sn_Tally := tally_of st (us @ vs)\<rparr>" us] Cons.prems(2) by simp
  next
    case False
    then show ?thesis using Cons.IH [of s "us @ [v]"] Cons.prems by simp
  qed
qed (cases s, simp)

subsection \<open>Casting a vote\<close>

lemma tally_vote_ok:
  assumes "votes_ok s" "x \<in> sn_Signers s" "(x, a) \<notin> (\<lambda>v. (vt_Signer v, vt_Address v)) ` set (sn_Votes s)"
  shows "votes_ok (tally_vote n x a auth s)" "sn_Signers (tally_vote n x a auth s) = sn_Signers s"
    "sn_Recents (tally_vote n x a auth s) = sn_Recents s" "sn_Number (tally_vote n x a auth s) = sn_Number s"
    "vt_Signer ` {v \<in> set (sn_Votes (tally_vote n x a auth s)). vt_Address v = c} \<subseteq> insert x (vt_Signer ` {v \<in> set (sn_Votes s). vt_Address v = c})"
proof -
  let ?s = "tally_vote n x a auth s" and ?v = "\<lparr>vt_Signer = x, vt_Block = n, vt_Address = a, vt_Authorize = auth\<rparr>"
  have "votes_ok ?s \<and> sn_Signers ?s = sn_Signers s \<and> sn_Recents ?s = sn_Recents s \<and> sn_Number ?s = sn_Number s \<and>
    vt_Signer ` {v \<in> set (sn_Votes ?s). vt_Address v = c} \<subseteq> insert x (vt_Signer ` {v \<in> set (sn_Votes s). vt_Address v = c})"
  proof (cases "validVote s a auth")
    case False
    then show ?thesis using assms(1) by (auto simp: tally_vote_def cast_def)
  next
    case True
    then have auth: "auth = (a \<notin> sn_Signers s)" by (auto simp: validVote_def)
    have t: "sn_Tally s = tally_of (\<lambda>a. a \<notin> sn_Signers s) (sn_Votes s)" using assms(1) by (simp add: votes_ok_def)
    have "?s = s\<lparr>sn_Votes := sn_Votes s @ [?v], sn_Tally := tally_of (\<lambda>a. a \<notin> sn_Signers s) (sn_Votes s @ [?v])\<rparr>"
      using True t auth by (auto simp: tally_vote_def cast_def tally_of_def fun_eq_iff split: option.split)
    then show ?thesis using assms auth unfolding votes_ok_def by auto
  qed
  then show "votes_ok ?s" "sn_Signers ?s = sn_Signers s" "sn_Recents ?s = sn_Recents s" "sn_Number ?s = sn_Number s"
    "vt_Signer ` {v \<in> set (sn_Votes ?s). vt_Address v = c} \<subseteq> insert x (vt_Signer ` {v \<in> set (sn_Votes s). vt_Address v = c})" by blast+
qed

lemma votes_on_voters:
  assumes "votes_ok s"
  shows "votes_on (sn_Votes s) a = card (vt_Signer ` {v \<in> set (sn_Votes s). vt_Address v = a})"
    "vt_Signer ` {v \<in> set (sn_Votes s). vt_Address v = a} \<subseteq> sn_Signers s"
proof -
  have d: "distinct (map (\<lambda>v. (vt_Signer v, vt_Address v)) (sn_Votes s))" using assms by (simp add: votes_ok_def)
  have "distinct (map vt_Signer (filter (\<lambda>v. vt_Address v = a) vs))" if "distinct (map (\<lambda>v. (vt_Signer v, vt_Address v)) vs)" for vs
    using that by (induction vs) auto
  then have "distinct (map vt_Signer (filter (\<lambda>v. vt_Address v = a) (sn_Votes s)))" using d by blast
  from distinct_card [OF this] show "votes_on (sn_Votes s) a = card (vt_Signer ` {v \<in> set (sn_Votes s). vt_Address v = a})"
    by (simp add: votes_on_def)
  show "vt_Signer ` {v \<in> set (sn_Votes s). vt_Address v = a} \<subseteq> sn_Signers s" using assms by (auto simp: votes_ok_def)
qed

subsection \<open>Passing a vote\<close>

lemma expire_frame [simp]:
  "sn_Signers (expire n s) = sn_Signers s" "sn_Votes (expire n s) = sn_Votes s" "sn_Tally (expire n s) = sn_Tally s"
  "sn_Number (expire n s) = sn_Number s" "sn_Hash (expire n s) = sn_Hash s"
  by (simp_all add: expire_def)

lemma votes_ok_expire [simp]: "votes_ok (expire n s) = votes_ok s"
  by (simp add: votes_ok_def)

lemma tally_of_removed:
  assumes "\<And>a. a \<noteq> c \<Longrightarrow> st' a = st a"
  shows "(tally_of st vs)(c := None) = tally_of st' (filter (\<lambda>v. vt_Address v \<noteq> c) vs)"
  using assms by (auto simp: tally_of_def votes_on_filter fun_eq_iff)

lemma distinct_votes_filter: "distinct (map f vs) \<Longrightarrow> distinct (map f (filter P vs))"
  by (induction vs) auto

definition majority :: "Snap \<Rightarrow> Address \<Rightarrow> bool" where
  \<comment> \<open>more than half of the signers have voted on \<open>c\<close>\<close>
  "majority s c \<longleftrightarrow> card (sn_Signers s) div 2 < card (vt_Signer ` {v \<in> set (sn_Votes s). vt_Address v = c})"

lemma pass_vote_cases:
  assumes "votes_ok s"
  shows "pass_vote n c s = s \<or>
    (majority s c \<and> c \<notin> sn_Signers s \<and>
      pass_vote n c s = s\<lparr>sn_Signers := insert c (sn_Signers s), sn_Votes := filter (\<lambda>v. vt_Address v \<noteq> c) (sn_Votes s),
        sn_Tally := tally_of (\<lambda>a. a \<notin> insert c (sn_Signers s)) (filter (\<lambda>v. vt_Address v \<noteq> c) (sn_Votes s))\<rparr>) \<or>
    (majority s c \<and> c \<in> sn_Signers s \<and>
      pass_vote n c s = (let vs = filter (\<lambda>v. vt_Address v \<noteq> c) (filter (\<lambda>v. vt_Signer v \<noteq> c) (sn_Votes s))
        in (expire n (s\<lparr>sn_Signers := sn_Signers s - {c}\<rparr>))\<lparr>sn_Votes := vs, sn_Tally := tally_of (\<lambda>a. a \<notin> sn_Signers s - {c}) vs\<rparr>))"
proof (cases "sn_Tally s c = None \<or> \<not> card (sn_Signers s) div 2 < votes_on (sn_Votes s) c")
  case True
  moreover have "sn_Tally s = tally_of (\<lambda>a. a \<notin> sn_Signers s) (sn_Votes s)" using assms by (simp add: votes_ok_def)
  ultimately have "pass_vote n c s = s" by (auto simp: pass_vote_def tally_of_def split: if_splits)
  then show ?thesis by blast
next
  case False
  let ?S = "sn_Signers s" and ?st = "\<lambda>a. a \<notin> sn_Signers s"
  have t: "sn_Tally s = tally_of ?st (sn_Votes s)" "\<forall>v \<in> set (sn_Votes s). vt_Authorize v = ?st (vt_Address v)"
    using assms by (auto simp: votes_ok_def)
  then have tc: "sn_Tally s c = Some \<lparr>tl_Authorize = c \<notin> ?S, tl_Votes = int (votes_on (sn_Votes s) c)\<rparr>"
    using False by (auto simp: tally_of_def split: if_splits)
  have maj: "majority s c" using False votes_on_voters(1) [OF assms, of c] by (simp add: majority_def)
  show ?thesis
  proof (cases "c \<in> ?S")
    case False
    have "(sn_Tally s)(c := None) = tally_of (\<lambda>a. a \<notin> insert c ?S) (filter (\<lambda>v. vt_Address v \<noteq> c) (sn_Votes s))"
      unfolding t(1) by (rule tally_of_removed) auto
    then show ?thesis using tc maj False \<open>\<not> (_ \<or> _)\<close> by (auto simp: pass_vote_def Let_def)
  next
    case True
    define s' where "s' = expire n (s\<lparr>sn_Signers := ?S - {c}\<rparr>)"
    let ?vs = "filter (\<lambda>v. vt_Signer v \<noteq> c) (sn_Votes s)"
    have "retract_votes c (sn_Votes s) s' = (?vs, s'\<lparr>sn_Tally := tally_of ?st ?vs\<rparr>)"
      using retract_votes_eq [of s' ?st "[]" "sn_Votes s" c] t by (simp add: s'_def)
    moreover have "(tally_of ?st ?vs)(c := None) = tally_of (\<lambda>a. a \<notin> ?S - {c}) (filter (\<lambda>v. vt_Address v \<noteq> c) ?vs)"
      by (rule tally_of_removed) auto
    moreover have "sn_Votes s' = sn_Votes s" by (simp add: s'_def)
    ultimately show ?thesis using tc maj True \<open>\<not> (_ \<or> _)\<close> by (auto simp: pass_vote_def Let_def s'_def [symmetric])
  qed
qed

lemma pass_vote_ok:
  assumes "votes_ok s"
  shows "votes_ok (pass_vote n c s)"
  using pass_vote_cases [OF assms, of n c]
proof (elim disjE conjE)
  assume "pass_vote n c s = s"
  then show ?thesis using assms by simp
next
  assume p: "c \<notin> sn_Signers s" "pass_vote n c s = s\<lparr>sn_Signers := insert c (sn_Signers s), sn_Votes := filter (\<lambda>v. vt_Address v \<noteq> c) (sn_Votes s),
        sn_Tally := tally_of (\<lambda>a. a \<notin> insert c (sn_Signers s)) (filter (\<lambda>v. vt_Address v \<noteq> c) (sn_Votes s))\<rparr>"
  show ?thesis using assms unfolding p(2) votes_ok_def by (auto simp: distinct_votes_filter)
next
  assume p: "c \<in> sn_Signers s" "pass_vote n c s = (let vs = filter (\<lambda>v. vt_Address v \<noteq> c) (filter (\<lambda>v. vt_Signer v \<noteq> c) (sn_Votes s))
        in (expire n (s\<lparr>sn_Signers := sn_Signers s - {c}\<rparr>))\<lparr>sn_Votes := vs, sn_Tally := tally_of (\<lambda>a. a \<notin> sn_Signers s - {c}) vs\<rparr>)"
  show ?thesis using assms unfolding p(2) votes_ok_def Let_def by (auto simp del: filter_filter simp: distinct_votes_filter)
qed

end
