(* ===== verification/Clique_Properties.thy ===== *)
theory Clique_Properties
  imports Clique_Votes "HOL-Library.Multiset"
begin

text \<open>
  Invariants of the snapshots that headers can lead to, and the properties of the proof-of-authority
  engine: only a majority changes the set of signers, some signer may always sign the next block, and
  exactly one signer is in turn.
\<close>

subsection \<open>Recent signers\<close>

definition window :: "Snap \<Rightarrow> nat" where
  "window s = card (sn_Signers s) div 2 + 1"

definition recents_ok :: "nat \<Rightarrow> Snap \<Rightarrow> bool" where
  \<comment> \<open>after block \<open>n\<close> the recent list holds blocks of the last \<open>window s\<close> numbers only\<close>
  "recents_ok n s \<longleftrightarrow> distinct (map fst (sn_Recents s)) \<and>
     (\<forall>(k, a) \<in> set (sn_Recents s). unat k \<le> n \<and> n < unat k + window s)"

definition snap_ok :: "nat \<Rightarrow> Snap \<Rightarrow> bool" where
  "snap_ok n s \<longleftrightarrow> votes_ok s \<and> recents_ok n s \<and> card (sn_Signers s) \<le> 2 ^ 63 + n"

lemma unat_limit: "card (sn_Signers s) \<le> 2 ^ 63 + n \<Longrightarrow> n < 2 ^ 64 \<Longrightarrow> unat (limit s) = window s"
proof -
  assume "card (sn_Signers s) \<le> 2 ^ 63 + n" "n < 2 ^ 64"
  then have "window s < 2 ^ 64" by (simp add: window_def)
  then have "unat (word_of_nat (window s) :: uint64) = window s" by (simp add: unsigned_of_nat take_bit_nat_eq_self)
  then show ?thesis by (simp only: limit_def window_def)
qed

lemma set_delete: "set (AList.delete k xs) = {(k', a) \<in> set xs. k' \<noteq> k}"
  by (auto simp: AList.delete_eq)

lemma distinct_delete: "distinct (map fst xs) \<Longrightarrow> distinct (map fst (AList.delete k xs))"
  by (induction xs) (auto simp: set_delete)

lemma update_new: "k \<notin> fst ` set xs \<Longrightarrow> AList.update k a xs = xs @ [(k, a)]"
  by (induction xs) auto

lemma expire_recents:
  assumes "unat (limit s) = window s" "unat N = n" "distinct (map fst (sn_Recents s))"
    "\<forall>(k, a) \<in> set (sn_Recents s). n \<le> unat k + window s"
  shows "distinct (map fst (sn_Recents (expire N s)))" "set (sn_Recents (expire N s)) \<subseteq> set (sn_Recents s)"
    "\<forall>(k, a) \<in> set (sn_Recents (expire N s)). n < unat k + window s"
proof -
  show "distinct (map fst (sn_Recents (expire N s)))" "set (sn_Recents (expire N s)) \<subseteq> set (sn_Recents s)"
    using assms(3) by (auto simp: expire_def distinct_delete set_delete)
  show "\<forall>(k, a) \<in> set (sn_Recents (expire N s)). n < unat k + window s"
  proof (cases "limit s \<le> N")
    case True
    then have d: "unat (N - limit s) = n - window s" "window s \<le> n" using assms(1,2) by (auto simp: unat_sub word_le_nat_alt)
    show ?thesis
    proof clarify
      fix k a
      assume "(k, a) \<in> set (sn_Recents (expire N s))"
      then have k: "(k, a) \<in> set (sn_Recents s)" "k \<noteq> N - limit s" using True by (auto simp: expire_def set_delete)
      then have "unat k \<noteq> n - window s" using d(1) by (metis unsigned_word_eqI)
      then show "n < unat k + window s" using k(1) assms(4) d(2) by fastforce
    qed
  next
    case False
    then have "n < window s" using assms(1,2) by (simp add: word_le_nat_alt)
    then show ?thesis by auto
  qed
qed

subsection \<open>One header\<close>

lemma reset_votes_frame [simp]:
  "sn_Signers (reset_votes cfg n s) = sn_Signers s" "sn_Recents (reset_votes cfg n s) = sn_Recents s"
  "sn_Number (reset_votes cfg n s) = sn_Number s" "limit (reset_votes cfg n s) = limit s" "window (reset_votes cfg n s) = window s"
  by (simp_all add: reset_votes_def limit_def window_def)

lemma expire_reset [simp]: "sn_Recents (expire n (reset_votes cfg n s)) = sn_Recents (expire n s)"
  by (simp add: expire_def)

lemma votes_ok_reset: "votes_ok s \<Longrightarrow> votes_ok (reset_votes cfg n s)"
  by (auto simp: reset_votes_def votes_ok_def tally_of_def fun_eq_iff)

definition sealed :: "CliqueConfig \<Rightarrow> uint64 \<Rightarrow> Address \<Rightarrow> Address \<Rightarrow> bool \<Rightarrow> Snap \<Rightarrow> Snap" where
  \<comment> \<open>the snapshot after \<open>signer\<close> has signed block \<open>n\<close> and its vote is tallied\<close>
  "sealed cfg n signer c auth s =
     (let s2 = expire n (reset_votes cfg n s)
      in tally_vote n signer c auth (discard_previous signer c (s2\<lparr>sn_Recents := AList.update n signer (sn_Recents s2)\<rparr>)))"

lemma apply_header_Inr:
  "apply_header cfg rec h s = Done (Inr s') \<longleftrightarrow> cc_Epoch cfg \<noteq> 0 \<and>
    (\<exists>signer auth. rec h = Inr signer \<and> signer \<in> sn_Signers s \<and> signer \<notin> snd ` set (sn_Recents (expire (word_of_int (hd_Number h)) s)) \<and>
      hd_Nonce h = (if auth then nonceAuthVote else nonceDropVote) \<and>
      s' = pass_vote (word_of_int (hd_Number h)) (hd_Coinbase h) (sealed cfg (word_of_int (hd_Number h)) signer (hd_Coinbase h) auth s))"
proof -
  have "nonceAuthVote \<noteq> nonceDropVote" by (simp add: nonceAuthVote_def nonceDropVote_def)
  then show ?thesis
    by (cases "rec h") (auto simp: apply_header_def Let_def sealed_def ex_bool_eq)
qed

lemma sealed_ok:
  assumes "votes_ok s" "signer \<in> sn_Signers s"
  shows "votes_ok (sealed cfg n signer c auth s)" "sn_Signers (sealed cfg n signer c auth s) = sn_Signers s"
    "sn_Recents (sealed cfg n signer c auth s) = AList.update n signer (sn_Recents (expire n s))" "sn_Number (sealed cfg n signer c auth s) = sn_Number s"
    "vt_Signer ` {v \<in> set (sn_Votes (sealed cfg n signer c auth s)). vt_Address v = c} \<subseteq>
      insert signer (vt_Signer ` {v \<in> set (sn_Votes (reset_votes cfg n s)). vt_Address v = c})"
proof -
  let ?s2 = "expire n (reset_votes cfg n s)"
  let ?s3 = "?s2\<lparr>sn_Recents := AList.update n signer (sn_Recents ?s2)\<rparr>"
  have s3: "votes_ok ?s3" using votes_ok_reset [OF assms(1), of cfg n] by (simp add: votes_ok_def)
  note d = discard_previous_ok [OF s3, of signer c]
  have "signer \<in> sn_Signers (discard_previous signer c ?s3)" using d(2) assms(2) by simp
  note t = tally_vote_ok [OF d(1) this d(6), of n auth]
  show "votes_ok (sealed cfg n signer c auth s)" "sn_Signers (sealed cfg n signer c auth s) = sn_Signers s"
    "sn_Recents (sealed cfg n signer c auth s) = AList.update n signer (sn_Recents (expire n s))" "sn_Number (sealed cfg n signer c auth s) = sn_Number s"
    using t(1-4) d(2-4) by (simp_all add: sealed_def)
  have "vt_Signer ` {v \<in> set (sn_Votes (discard_previous signer c ?s3)). vt_Address v = c} \<subseteq> vt_Signer ` {v \<in> set (sn_Votes (reset_votes cfg n s)). vt_Address v = c}"
    using d(5) by (intro image_mono) auto
  from subset_trans [OF t(5) [of c] insert_mono [OF this]] show "vt_Signer ` {v \<in> set (sn_Votes (sealed cfg n signer c auth s)). vt_Address v = c} \<subseteq>
      insert signer (vt_Signer ` {v \<in> set (sn_Votes (reset_votes cfg n s)). vt_Address v = c})"
    by (simp add: sealed_def)
qed

lemma pass_vote_recents:
  assumes "snap_ok n s" "unat N = n" "n < 2 ^ 64"
  shows "recents_ok n (pass_vote N c s)" "card (sn_Signers (pass_vote N c s)) \<le> card (sn_Signers s) + 1" "sn_Number (pass_vote N c s) = sn_Number s"
proof -
  have v: "votes_ok s" "recents_ok n s" "card (sn_Signers s) \<le> 2 ^ 63 + n" and fin: "finite (sn_Signers s)"
    using assms(1) by (auto simp: snap_ok_def votes_ok_def)
  let ?p = "pass_vote N c s"
  have "recents_ok n ?p \<and> card (sn_Signers ?p) \<le> card (sn_Signers s) + 1 \<and> sn_Number ?p = sn_Number s"
    using pass_vote_cases [OF v(1), of N c]
  proof (elim disjE conjE)
    assume "?p = s"
    then show ?thesis using v by simp
  next
    assume p: "?p = s\<lparr>sn_Signers := insert c (sn_Signers s), sn_Votes := filter (\<lambda>v. vt_Address v \<noteq> c) (sn_Votes s),
        sn_Tally := tally_of (\<lambda>a. a \<notin> insert c (sn_Signers s)) (filter (\<lambda>v. vt_Address v \<noteq> c) (sn_Votes s))\<rparr>" "c \<notin> sn_Signers s"
    have "window s \<le> window ?p" using fin p by (simp add: window_def)
    then show ?thesis using v(2) fin p unfolding recents_ok_def by fastforce
  next
    assume p: "?p = (let vs = filter (\<lambda>v. vt_Address v \<noteq> c) (filter (\<lambda>v. vt_Signer v \<noteq> c) (sn_Votes s))
        in (expire N (s\<lparr>sn_Signers := sn_Signers s - {c}\<rparr>))\<lparr>sn_Votes := vs, sn_Tally := tally_of (\<lambda>a. a \<notin> sn_Signers s - {c}) vs\<rparr>)" "c \<in> sn_Signers s"
    let ?s = "s\<lparr>sn_Signers := sn_Signers s - {c}\<rparr>"
    have card: "card (sn_Signers ?s) = card (sn_Signers s) - 1" using fin p(2) by simp
    then have w: "window s \<le> window ?s + 1" "window ?p = window ?s" by (simp_all add: window_def p(1) Let_def)
    have "unat (limit ?s) = window ?s" using unat_limit [of ?s n] v(3) card assms(3) by simp
    moreover have "\<forall>(k, a) \<in> set (sn_Recents ?s). n \<le> unat k + window ?s" using v(2) w(1) unfolding recents_ok_def by fastforce
    ultimately have e: "distinct (map fst (sn_Recents (expire N ?s)))" "set (sn_Recents (expire N ?s)) \<subseteq> set (sn_Recents s)"
        "\<forall>(k, a) \<in> set (sn_Recents (expire N ?s)). n < unat k + window ?s"
      using expire_recents [of ?s N n] assms(2) v(2) by (simp_all add: recents_ok_def)
    have "sn_Recents ?p = sn_Recents (expire N ?s)" "sn_Signers ?p = sn_Signers ?s" "sn_Number ?p = sn_Number s" by (simp_all add: p(1) Let_def)
    then show ?thesis using e w(2) v(2) card unfolding recents_ok_def by fastforce
  qed
  then show "recents_ok n ?p" "card (sn_Signers ?p) \<le> card (sn_Signers s) + 1" "sn_Number ?p = sn_Number s" by blast+
qed

lemma apply_header_ok:
  assumes "snap_ok n s" "unat (word_of_int (hd_Number h) :: uint64) = n + 1" "apply_header cfg rec h s = Done (Inr s')"
  shows "snap_ok (n + 1) s'" "sn_Number s' = sn_Number s"
proof -
  let ?N = "word_of_int (hd_Number h) :: uint64"
  obtain signer auth where a: "signer \<in> sn_Signers s" "s' = pass_vote ?N (hd_Coinbase h) (sealed cfg ?N signer (hd_Coinbase h) auth s)"
    using assms(3) unfolding apply_header_Inr by blast
  have v: "votes_ok s" "recents_ok n s" "card (sn_Signers s) \<le> 2 ^ 63 + n" using assms(1) by (auto simp: snap_ok_def)
  have n: "n + 1 < 2 ^ 64" using assms(2) unsigned_less [of ?N, where ?'a = nat] by simp
  let ?s = "sealed cfg ?N signer (hd_Coinbase h) auth s"
  note g = sealed_ok [OF v(1) a(1), of cfg ?N "hd_Coinbase h" auth]
  have l: "unat (limit s) = window s" using unat_limit [OF v(3)] n by simp
  have "\<forall>(k, a) \<in> set (sn_Recents s). n + 1 \<le> unat k + window s" using v(2) unfolding recents_ok_def by fastforce
  then have e: "distinct (map fst (sn_Recents (expire ?N s)))" "set (sn_Recents (expire ?N s)) \<subseteq> set (sn_Recents s)"
      "\<forall>(k, a) \<in> set (sn_Recents (expire ?N s)). n + 1 < unat k + window s"
    using expire_recents [OF l assms(2)] v(2) by (simp_all add: recents_ok_def)
  have old: "unat k \<le> n" if "(k, a) \<in> set (sn_Recents (expire ?N s))" for k a using that e(2) v(2) unfolding recents_ok_def by fastforce
  then have "?N \<notin> fst ` set (sn_Recents (expire ?N s))" using assms(2) by fastforce
  then have u: "sn_Recents ?s = sn_Recents (expire ?N s) @ [(?N, signer)]" using g(3) by (simp add: update_new)
  have "window ?s = window s" "0 < window s" using g(2) by (simp_all add: window_def)
  then have "recents_ok (n + 1) ?s"
    using e \<open>?N \<notin> _\<close> old assms(2) unfolding recents_ok_def u by fastforce
  then have ok: "snap_ok (n + 1) ?s" using g(1,2) v(3) by (simp add: snap_ok_def)
  note p = pass_vote_recents [OF ok assms(2) n, of "hd_Coinbase h"]
  show "snap_ok (n + 1) s'" using p(1,2) g(2) v(3) pass_vote_ok [OF g(1), of ?N "hd_Coinbase h"] unfolding snap_ok_def a(2) by simp
  show "sn_Number s' = sn_Number s" using p(3) g(4) by (simp add: a(2))
qed

lemma pass_vote_signers:
  assumes "votes_ok s"
  shows "sn_Signers (pass_vote N c s) = sn_Signers s \<or>
    majority s c \<and> sn_Signers (pass_vote N c s) = (if c \<in> sn_Signers s then sn_Signers s - {c} else insert c (sn_Signers s))"
  using pass_vote_cases [OF assms, of N c] by (elim disjE conjE) (simp_all add: Let_def)

subsection \<open>Reachable snapshots\<close>

inductive clique_reachable :: "CliqueConfig \<Rightarrow> (bytes \<Rightarrow> Hash) \<Rightarrow> (Header \<Rightarrow> clique_error + Address) \<Rightarrow> Snap \<Rightarrow> bool"
  for cfg :: CliqueConfig and K :: "bytes \<Rightarrow> Hash" and rec :: "Header \<Rightarrow> clique_error + Address" where
  genesis: "length order < 2 ^ 63 \<Longrightarrow> clique_reachable cfg K rec (newSnapshot 0 hash order)"
| extend: "clique_reachable cfg K rec s \<Longrightarrow> unat (sn_Number s) + length hs < 2 ^ 64 \<Longrightarrow>
    apply_snap cfg K rec hs s = Done (Inr s') \<Longrightarrow> clique_reachable cfg K rec s'"

lemma unat_Suc: "unat (w :: uint64) + 1 < 2 ^ 64 \<Longrightarrow> unat (w + 1) = unat w + 1"
  using unat_add_uint64 [of w 1] by simp

lemma apply_headers_ok:
  assumes "snap_ok (unat n) s" "contiguous n hs" "unat n + length hs < 2 ^ 64" "apply_headers cfg rec hs s = Done (Inr s')"
  shows "snap_ok (unat n + length hs) s'" "sn_Number s' = sn_Number s"
proof -
  have "snap_ok (unat n + length hs) s' \<and> sn_Number s' = sn_Number s"
    using assms
  proof (induction hs arbitrary: n s)
    case (Cons h hs)
    obtain s1 where s1: "apply_header cfg rec h s = Done (Inr s1)" "apply_headers cfg rec hs s1 = Done (Inr s')"
      using Cons.prems(4) by (auto simp: obind_Done_iff split_sum_ex)
    have n: "unat (n + 1) = unat n + 1" using Cons.prems(3) by (intro unat_Suc) simp
    then have "unat (word_of_int (hd_Number h) :: uint64) = unat n + 1" using Cons.prems(2) by simp
    note h = apply_header_ok [OF Cons.prems(1) this s1(1)]
    have "snap_ok (unat (n + 1)) s1" using h(1) n by simp
    from Cons.IH [OF this _ _ s1(2)] show ?case using Cons.prems(2,3) n h(2) by simp
  qed simp
  then show "snap_ok (unat n + length hs) s'" "sn_Number s' = sn_Number s" by blast+
qed

lemma snap_ok_update [simp]: "snap_ok n (s\<lparr>sn_Number := k, sn_Hash := x\<rparr>) = snap_ok n s"
  by (simp add: snap_ok_def votes_ok_def recents_ok_def window_def)

lemma clique_reachable_ok: "clique_reachable cfg K rec s \<Longrightarrow> snap_ok (unat (sn_Number s)) s"
proof (induction rule: clique_reachable.induct)
  case (genesis order hash)
  have "card (set order) \<le> length order" by (rule card_length)
  then have "card (set order) \<le> 2 ^ 63" using genesis by linarith
  then show ?case by (auto simp: newSnapshot_def snap_ok_def votes_ok_def recents_ok_def tally_of_def fun_eq_iff)
next
  case (extend s hs s')
  show ?case
  proof (cases "hs = []")
    case False
    obtain s1 where s1: "contiguous (sn_Number s) hs" "apply_headers cfg rec hs s = Done (Inr s1)"
        "s' = s1\<lparr>sn_Number := sn_Number s1 + word_of_nat (length hs), sn_Hash := Header_Hash K (last hs)\<rparr>"
      using extend.hyps(3) False by (auto simp: apply_snap_def obind_Done_iff split_sum_ex split: if_splits)
    note h = apply_headers_ok [OF extend.IH s1(1) extend.hyps(2) s1(2)]
    have "unat (word_of_nat (length hs) :: uint64) = length hs" using extend.hyps(2) by (simp add: unsigned_of_nat take_bit_nat_eq_self)
    then have "unat (sn_Number s1 + word_of_nat (length hs)) = unat (sn_Number s) + length hs"
      using extend.hyps(2) h(2) unat_add_uint64 [of "sn_Number s1" "word_of_nat (length hs)"] by simp
    then show ?thesis using h(1) by (simp add: s1(3))
  qed (use extend in \<open>simp add: apply_snap_def\<close>)
qed

subsection \<open>Who may sign\<close>

lemma eligible_signers:
  assumes "snap_ok n s" "unat N = n + 1"
  shows "card (sn_Signers s) \<le> card (sn_Signers s - snd ` set (sn_Recents (expire N s))) + card (sn_Signers s) div 2"
proof -
  have v: "votes_ok s" "recents_ok n s" "card (sn_Signers s) \<le> 2 ^ 63 + n" and fin: "finite (sn_Signers s)"
    using assms(1) by (auto simp: snap_ok_def votes_ok_def)
  have "n + 1 < 2 ^ 64" using assms(2) unsigned_less [of N, where ?'a = nat] by simp
  then have l: "unat (limit s) = window s" using unat_limit [OF v(3)] by simp
  have "\<forall>(k, a) \<in> set (sn_Recents s). n + 1 \<le> unat k + window s" using v(2) unfolding recents_ok_def by fastforce
  then have e: "distinct (map fst (sn_Recents (expire N s)))" "set (sn_Recents (expire N s)) \<subseteq> set (sn_Recents s)"
      "\<forall>(k, a) \<in> set (sn_Recents (expire N s)). n + 1 < unat k + window s"
    using expire_recents [OF l assms(2)] v(2) by (simp_all add: recents_ok_def)
  let ?R = "set (sn_Recents (expire N s))"
  have "unat ` fst ` ?R \<subseteq> {n + 2 - window s..n}" using e(2,3) v(2) unfolding recents_ok_def by fastforce
  then have "card (unat ` fst ` ?R) \<le> card {n + 2 - window s..n}" by (intro card_mono) auto
  then have "card (unat ` fst ` ?R) \<le> window s - 1" by (simp add: window_def)
  moreover have "card (unat ` fst ` ?R) = card (fst ` ?R)" by (intro card_image) (auto simp: inj_on_def intro: unsigned_word_eqI)
  moreover have "card (fst ` ?R) = length (sn_Recents (expire N s))" using distinct_card [OF e(1)] by simp
  moreover have "card (snd ` ?R) \<le> length (sn_Recents (expire N s))" by (metis card_image_le card_length finite_set le_trans)
  ultimately have "card (snd ` ?R) \<le> card (sn_Signers s) div 2" by (simp add: window_def)
  moreover have "card (sn_Signers s) \<le> card (sn_Signers s - snd ` ?R) + card (snd ` ?R)" using diff_card_le_card_Diff [of "snd ` ?R" "sn_Signers s"] by simp
  ultimately show ?thesis by linarith
qed

subsection \<open>Turns\<close>

lemma exchange_mset: "exchange x ys = (m, zs) \<Longrightarrow> mset (m # zs) = mset (x # ys)"
proof (induction ys arbitrary: x m zs)
  case (Cons y ys)
  obtain m' zs' where e: "exchange (if x > y then y else x) ys = (m', zs')" by fastforce
  then have "m = m'" "zs = (if x > y then x else y) # zs'" using Cons.prems by (auto split: if_splits)
  then show ?case using Cons.IH [OF e] by (auto split: if_splits)
qed simp

lemma exchange_min: "exchange x ys = (m, zs) \<Longrightarrow> m \<le> x \<and> (\<forall>z \<in> set zs. m \<le> z)"
proof (induction ys arbitrary: x m zs)
  case (Cons y ys)
  obtain m' zs' where e: "exchange (if x > y then y else x) ys = (m', zs')" by fastforce
  then have "m = m'" "zs = (if x > y then x else y) # zs'" using Cons.prems by (auto split: if_splits)
  then show ?case using Cons.IH [OF e] by (auto split: if_splits)
qed simp

lemma exchange_sort_sort: "exchange_sort xs = sort xs"
proof (rule properties_for_sort [symmetric, rotated])
  show m: "mset (exchange_sort xs) = mset xs" for xs
  proof (induction xs rule: exchange_sort.induct)
    case (2 x xs)
    obtain m ys where e: "exchange x xs = (m, ys)" by fastforce
    then show ?case using "2.IH" [OF e [symmetric] refl] exchange_mset [OF e] by simp
  qed simp
  show "sorted (exchange_sort xs)"
  proof (induction xs rule: exchange_sort.induct)
    case (2 x xs)
    obtain m ys where e: "exchange x xs = (m, ys)" by fastforce
    have "set (exchange_sort ys) = set ys" using m [of ys] by (metis set_mset_mset)
    then show ?case using "2.IH" [OF e [symmetric] refl] exchange_min [OF e] e by simp
  qed simp
qed

lemma offset_of_nth: "distinct xs \<Longrightarrow> i < length xs \<Longrightarrow> offset_of (xs ! i) xs = i"
  by (induction xs arbitrary: i) (auto simp: nth_Cons' less_Suc_eq_0_disj)

lemma offset_of_less: "x \<in> set xs \<Longrightarrow> offset_of x xs < length xs \<and> xs ! offset_of x xs = x"
  by (induction xs) auto

lemma word_eq_iff_nat: "v = w \<longleftrightarrow> unat v = unat w" for v w :: uint64
  using unsigned_word_eqI [of v w, where ?'a = nat] by auto

lemma inturn_unique:
  assumes "distinct order" "set order = S" "S \<noteq> {}" "card S < 2 ^ 64"
  shows "\<exists>!a. a \<in> S \<and> inturn order N a = Done True"
proof -
  let ?ss = "signers order"
  have ss: "set ?ss = S" "distinct ?ss" "length ?ss = card S"
    using assms(1,2) distinct_card [OF assms(1)] by (simp_all add: signers_def exchange_sort_sort)
  then have ne: "?ss \<noteq> []" using assms(3) by auto
  have l: "unat (word_of_nat (length ?ss) :: uint64) = length ?ss" using ss(3) assms(4) by (simp add: unsigned_of_nat take_bit_nat_eq_self)
  let ?i = "unat N mod length ?ss"
  have i: "?i < length ?ss" using ne by simp
  have turn: "inturn order N a = Done (offset_of a ?ss = ?i)" if "a \<in> S" for a
  proof -
    have o: "offset_of a ?ss < length ?ss" using offset_of_less [of a ?ss] that ss(1) by simp
    then have "unat (word_of_nat (offset_of a ?ss) :: uint64) = offset_of a ?ss" using ss(3) assms(4) by (simp add: unsigned_of_nat take_bit_nat_eq_self)
    moreover have "unat (N mod word_of_nat (length ?ss)) = ?i" by (simp only: unat_mod_distrib l)
    ultimately have "N mod word_of_nat (length ?ss) = word_of_nat (offset_of a ?ss) \<longleftrightarrow> offset_of a ?ss = ?i"
      using word_eq_iff_nat [of "N mod word_of_nat (length ?ss)" "word_of_nat (offset_of a ?ss)"] by auto
    then show ?thesis using ne by (simp add: inturn_def Let_def)
  qed
  have s: "?ss ! ?i \<in> S" "offset_of (?ss ! ?i) ?ss = ?i" using i ss(1,2) offset_of_nth by auto
  show ?thesis
  proof (rule ex1I [of _ "?ss ! ?i"])
    show "?ss ! ?i \<in> S \<and> inturn order N (?ss ! ?i) = Done True" using turn [OF s(1)] s by simp
  next
    fix a
    assume a: "a \<in> S \<and> inturn order N a = Done True"
    then have "offset_of a ?ss = ?i" using turn [of a] by simp
    then show "a = ?ss ! ?i" using offset_of_less [of a ?ss] a ss(1) by simp
  qed
qed

subsection \<open>Properties\<close>

text \<open>
  C28. Only a majority changes the set of signers. On every reachable snapshot the tally counts the votes of the
  epoch, each cast by a different authorized signer, and stays so; when applying a header changes the set of
  signers, the account voted on was added or removed, and more than half of the authorized signers voted on
  it, the signer of the header included.
\<close>

theorem signers_change_by_majority:
  assumes "clique_reachable cfg K rec s" "apply_header cfg rec h s = Done (Inr s')"
  shows "votes_ok s' \<and> (sn_Signers s' = sn_Signers s \<or>
    (\<exists>signer V. rec h = Inr signer \<and> signer \<in> sn_Signers s \<and>
       V = insert signer (vt_Signer ` {v \<in> set (sn_Votes (reset_votes cfg (word_of_int (hd_Number h)) s)). vt_Address v = hd_Coinbase h}) \<and>
       V \<subseteq> sn_Signers s \<and> card (sn_Signers s) div 2 < card V \<and>
       sn_Signers s' = (if hd_Coinbase h \<in> sn_Signers s then sn_Signers s - {hd_Coinbase h} else insert (hd_Coinbase h) (sn_Signers s))))"
proof -
  let ?N = "word_of_int (hd_Number h) :: uint64" and ?c = "hd_Coinbase h"
  obtain signer auth where a: "rec h = Inr signer" "signer \<in> sn_Signers s" "s' = pass_vote ?N ?c (sealed cfg ?N signer ?c auth s)"
    using assms(2) unfolding apply_header_Inr by blast
  have v: "votes_ok s" using clique_reachable_ok [OF assms(1)] by (simp add: snap_ok_def)
  then have fin: "finite (sn_Signers s)" by (simp add: votes_ok_def)
  note g = sealed_ok [OF v a(2), of cfg ?N ?c auth]
  let ?s = "sealed cfg ?N signer ?c auth s" and ?V = "insert signer (vt_Signer ` {v \<in> set (sn_Votes (reset_votes cfg ?N s)). vt_Address v = ?c})"
  have V: "?V \<subseteq> sn_Signers s" using votes_on_voters(2) [OF votes_ok_reset [OF v, of cfg ?N], of ?c] a(2) by simp
  have maj: "card (sn_Signers s) div 2 < card ?V" if "majority ?s ?c"
    using that card_mono [OF finite_subset [OF V fin] g(5)] g(2) by (simp add: majority_def)
  have "sn_Signers s' = sn_Signers s \<or> majority ?s ?c \<and> sn_Signers s' = (if ?c \<in> sn_Signers s then sn_Signers s - {?c} else insert ?c (sn_Signers s))"
    using pass_vote_signers [OF g(1), of ?N ?c] unfolding g(2) a(3) .
  moreover have ok: "votes_ok s'" using pass_vote_ok [OF g(1)] a(3) by simp
  ultimately show ?thesis
  proof (elim disjE conjE)
    assume "majority ?s ?c" and "sn_Signers s' = (if ?c \<in> sn_Signers s then sn_Signers s - {?c} else insert ?c (sn_Signers s))"
    then show ?thesis using ok a(1,2) V maj by (intro conjI disjI2 exI [of _ signer] exI [of _ ?V]) auto
  qed simp
qed


subsection \<open>Sample chain\<close>

definition sampleClique :: CliqueConfig where
  "sampleClique = \<lparr>cc_Period = 15, cc_Epoch = 30000\<rparr>"

definition sampleHeader :: Header where
  \<comment> \<open>block 1 votes for the account 9\<close>
  "sampleHeader = \<lparr>hd_ParentHash = 0, hd_UncleHash = 0, hd_Coinbase = 9, hd_Root = 0, hd_TxHash = 0, hd_ReceiptHash = 0,
     hd_Bloom = [], hd_Difficulty = 2, hd_Number = 1, hd_GasLimit = 0, hd_GasUsed = 0, hd_Time = 0, hd_Extra = [],
     hd_MixDigest = 0, hd_Nonce = replicate 8 0xFF, hd_Round = 0, hd_Round2 = 0, hd_PresidentId = [], hd_DAppID = 0, hd_DAppMainHash = 0\<rparr>"

lemma sample_reachable: "clique_reachable sampleClique (\<lambda>_. 0) (\<lambda>_. Inr 5) (newSnapshot 0 0 [5])"
  by (rule clique_reachable.genesis) simp

theorem signers_change_by_majority_witness:
  "\<exists>s'. apply_header sampleClique (\<lambda>_. Inr 5) sampleHeader (newSnapshot 0 0 [5]) = Done (Inr s') \<and> votes_ok s' \<and> sn_Signers s' = {5, 9}"
proof -
  have "apply_header sampleClique (\<lambda>_. Inr 5) sampleHeader (newSnapshot 0 0 [5]) =
      Done (Inr \<lparr>sn_Number = 0, sn_Hash = 0, sn_Signers = {9, 5}, sn_Recents = [(1, 5)], sn_Votes = [], sn_Tally = Map.empty\<rparr>)"
    by (simp add: apply_header_def sampleClique_def sampleHeader_def newSnapshot_def reset_votes_def expire_def limit_def discard_previous_def
        tally_vote_def cast_def validVote_def pass_vote_def nonceAuthVote_def Let_def)
  then show ?thesis using signers_change_by_majority [OF sample_reachable, of sampleHeader] by auto
qed


end
