(* ===== verification/Clique_Engine.thy ===== *)
theory Clique_Engine
  imports Clique_Properties
begin

text \<open>
  The proof-of-authority engine (\<open>src/consensus/solo/clique.go\<close>): verification of headers and seals, retrieval of
  the snapshot of a block from the caches, the disk and the headers of the chain, and the preparation of
  new headers. Parameters are the chain of headers, the clock, Keccak and the recovery of public keys; the
  cache of snapshots and the database of stored ones are maps by block hash, where an evicted entry is
  one that is missing. The cache of signatures repeats results and is left out. The map of signers is
  listed in the order \<open>order\<close> of an iteration.
\<close>

subsection \<open>Engine state and parameters\<close>

record Clique =
  cq_config :: CliqueConfig
  cq_recents :: "Hash \<rightharpoonup> Snap"
  cq_db :: "Hash \<rightharpoonup> Snap"
  cq_proposals :: "(Address \<times> bool) list"
  cq_signer :: Address

record ChainReader =
  ch_GetHeader :: "Hash \<Rightarrow> uint64 \<Rightarrow> Header option"
  ch_Genesis :: Header

record CliqueWorld =
  cw_keccak :: "bytes \<Rightarrow> Hash"
  cw_Ecrecover :: "bytes \<Rightarrow> bytes \<Rightarrow> bytes option"
  cw_now :: int
  cw_put_ok :: "Hash \<Rightarrow> bool"

definition extraVanity :: nat where
  "extraVanity = 32"

definition extraSeal :: nat where
  "extraSeal = 65"

definition checkpointInterval :: uint64 where
  "checkpointInterval = 1024"

definition uncleHash :: "(bytes \<Rightarrow> Hash) \<Rightarrow> Hash" where
  "uncleHash K = rlpHash K (VList [])"

definition ecrecover :: "CliqueWorld \<Rightarrow> Header \<Rightarrow> clique_error + Address" where
  "ecrecover w header =
     (if length (hd_Extra header) < extraSeal then Inl errMissingSignature
      else
        (case sigHash (cw_keccak w) header of
           Done h \<Rightarrow>
             (case cw_Ecrecover w (Hash_Bytes h) (drop (length (hd_Extra header) - extraSeal) (hd_Extra header)) of
                None \<Rightarrow> Inl errRecover
              | Some pubkey \<Rightarrow> Inr (BytesToAddress (drop 12 (Hash_Bytes (cw_keccak w (drop 1 pubkey))))))
         | _ \<Rightarrow> Inl errRecover))"

subsection \<open>Checks of a single header\<close>

definition verifyHeader_standalone :: "Clique \<Rightarrow> CliqueWorld \<Rightarrow> Header \<Rightarrow> clique_error option outcome" where
  "verifyHeader_standalone c w header =
     (let number = word_of_int (hd_Number header) :: uint64;
          Epoch = cc_Epoch (cq_config c);
          checkpoint = (number mod Epoch = 0);
          signersBytes = int (length (hd_Extra header)) - int extraVanity - int extraSeal
      in if hd_Time header > cw_now w then Done (Some ErrFutureBlock)
         else if Epoch = 0 then Panic
         else Done (if checkpoint \<and> hd_Coinbase header \<noteq> 0 then Some errInvalidCheckpointBeneficiary
           else if hd_Nonce header \<noteq> nonceAuthVote \<and> hd_Nonce header \<noteq> nonceDropVote then Some errInvalidVote
           else if checkpoint \<and> hd_Nonce header \<noteq> nonceDropVote then Some errInvalidCheckpointVote
           else if length (hd_Extra header) < extraVanity then Some errMissingVanity
           else if length (hd_Extra header) < extraVanity + extraSeal then Some errMissingSignature
           else if \<not> checkpoint \<and> signersBytes \<noteq> 0 then Some errExtraSigners
           else if checkpoint \<and> signersBytes mod 20 \<noteq> 0 then Some errInvalidCheckpointSigners
           else if hd_MixDigest header \<noteq> 0 then Some errInvalidMixDigest
           else if hd_UncleHash header \<noteq> uncleHash (cw_keccak w) then Some errInvalidUncleHash
           else if number > 0 \<and> hd_Difficulty header \<noteq> 2 \<and> hd_Difficulty header \<noteq> 1 then Some errInvalidDifficulty
           else None))"

subsection \<open>Snapshots\<close>

definition genesis_signers :: "Header \<Rightarrow> Address list" where
  "genesis_signers genesis =
     map (\<lambda>i. BytesToAddress (take 20 (drop (extraVanity + i * 20) (hd_Extra genesis))))
       [0..<(length (hd_Extra genesis) - extraVanity - extraSeal) div 20]"

definition genesis_snapshot :: "Clique \<Rightarrow> CliqueWorld \<Rightarrow> ChainReader \<Rightarrow> (clique_error + Snap) outcome" where
  \<comment> \<open>the genesis header has number 0, so \<open>VerifyHeader\<close> ends with the checks of the header alone\<close>
  "genesis_snapshot c w chain =
     obind (verifyHeader_standalone c w (ch_Genesis chain))
       (\<lambda>r. Done (case r of
          Some err \<Rightarrow> Inl err
        | None \<Rightarrow> Inr (newSnapshot 0 (Header_Hash (cw_keccak w) (ch_Genesis chain)) (genesis_signers (ch_Genesis chain)))))"

definition store_snap :: "CliqueWorld \<Rightarrow> Snap \<Rightarrow> Clique \<Rightarrow> clique_error + Clique" where
  "store_snap w s c = (if cw_put_ok w (sn_Hash s) then Inr (c\<lparr>cq_db := (cq_db c)(sn_Hash s \<mapsto> s)\<rparr>) else Inl errStore)"

lemma unat_pred: "n \<noteq> 0 \<Longrightarrow> unat (n - 1) < unat n" for n :: uint64
  by (simp add: unat_minus_one unat_gt_0)

function snapshot_base :: "Clique \<Rightarrow> CliqueWorld \<Rightarrow> ChainReader \<Rightarrow> uint64 \<Rightarrow> Hash \<Rightarrow> Header list \<Rightarrow> Header list \<Rightarrow>
     (clique_error + Clique \<times> Snap \<times> Header list) outcome" where
  \<comment> \<open>the loop that walks back to a known snapshot; the headers on the way come out in ascending order\<close>
  "snapshot_base c w chain number hash parents headers =
     (case cq_recents c hash of
        Some s \<Rightarrow> Done (Inr (c, s, headers))
      | None \<Rightarrow>
          (case (if number mod checkpointInterval = 0 then cq_db c hash else None) of
             Some s \<Rightarrow> Done (Inr (c, s, headers))
           | None \<Rightarrow>
               if number = 0
               then obind (genesis_snapshot c w chain)
                 (\<lambda>r. Done (case r of
                    Inl err \<Rightarrow> Inl err
                  | Inr s \<Rightarrow> (case store_snap w s c of Inl err \<Rightarrow> Inl err | Inr c' \<Rightarrow> Inr (c', s, headers))))
               else if parents \<noteq> []
               then (let header = last parents
                     in if Header_Hash (cw_keccak w) header \<noteq> hash \<or> word_of_int (hd_Number header) \<noteq> number
                        then Done (Inl ErrUnknownAncestor)
                        else snapshot_base c w chain (number - 1) (hd_ParentHash header) (butlast parents) (header # headers))
               else
                 (case ch_GetHeader chain hash number of
                    None \<Rightarrow> Done (Inl ErrUnknownAncestor)
                  | Some header \<Rightarrow> snapshot_base c w chain (number - 1) (hd_ParentHash header) parents (header # headers))))"
  by pat_completeness auto
termination
  by (relation "measure (\<lambda>(c, w, chain, number, hash, parents, headers). unat number)")
    (auto simp: unat_pred)

declare snapshot_base.simps [simp del]

definition snapshot :: "Clique \<Rightarrow> CliqueWorld \<Rightarrow> ChainReader \<Rightarrow> uint64 \<Rightarrow> Hash \<Rightarrow> Header list \<Rightarrow> (clique_error + Clique \<times> Snap) outcome" where
  "snapshot c w chain number hash parents =
     obind (snapshot_base c w chain number hash parents [])
       (\<lambda>r. case r of
          Inl err \<Rightarrow> Done (Inl err)
        | Inr (c1, base, headers) \<Rightarrow>
            obind (apply_snap (cq_config c) (cw_keccak w) (ecrecover w) headers base)
              (\<lambda>r. Done (case r of
                 Inl err \<Rightarrow> Inl err
               | Inr s \<Rightarrow>
                   (let c2 = c1\<lparr>cq_recents := (cq_recents c1)(sn_Hash s \<mapsto> s)\<rparr>
                    in if sn_Number s mod checkpointInterval = 0 \<and> headers \<noteq> []
                       then (case store_snap w s c2 of Inl err \<Rightarrow> Inl err | Inr c3 \<Rightarrow> Inr (c3, s))
                       else Inr (c2, s)))))"

subsection \<open>Seals\<close>

definition seen_recently :: "uint64 \<Rightarrow> Snap \<Rightarrow> Address \<Rightarrow> bool" where
  \<comment> \<open>the loop over \<open>Recents\<close> in \<open>verifySeal\<close>; the difference wraps around\<close>
  "seen_recently number s signer \<longleftrightarrow> (\<exists>(seen, recent) \<in> set (sn_Recents s). recent = signer \<and> seen > number - limit s)"

definition verifySeal :: "Clique \<Rightarrow> CliqueWorld \<Rightarrow> ChainReader \<Rightarrow> Address list \<Rightarrow> Header \<Rightarrow> Header list \<Rightarrow> (Clique \<times> clique_error option) outcome" where
  "verifySeal c w chain order header parents =
     (let number = word_of_int (hd_Number header) :: uint64
      in if number = 0 then Done (c, Some errUnknownBlock)
         else obind (snapshot c w chain (number - 1) (hd_ParentHash header) parents)
           (\<lambda>r. case r of
              Inl err \<Rightarrow> Done (c, Some err)
            | Inr (c1, s) \<Rightarrow>
                (case ecrecover w header of
                   Inl err \<Rightarrow> Done (c1, Some err)
                 | Inr signer \<Rightarrow>
                     if signer \<notin> sn_Signers s then Done (c1, Some errUnauthorized)
                     else if seen_recently number s signer then Done (c1, Some errUnauthorized)
                     else obind (inturn order number signer)
                       (\<lambda>turn. Done (c1,
                          if turn \<and> hd_Difficulty header \<noteq> 2 then Some errInvalidDifficulty
                          else if \<not> turn \<and> hd_Difficulty header \<noteq> 1 then Some errInvalidDifficulty
                          else None)))))"

definition verifyCascadingFields :: "Clique \<Rightarrow> CliqueWorld \<Rightarrow> ChainReader \<Rightarrow> Address list \<Rightarrow> Header \<Rightarrow> Header list \<Rightarrow>
     (Clique \<times> clique_error option) outcome" where
  "verifyCascadingFields c w chain order header parents =
     (let number = word_of_int (hd_Number header) :: uint64
      in if number = 0 then Done (c, None)
         else
           (case (if parents \<noteq> [] then Some (last parents) else ch_GetHeader chain (hd_ParentHash header) (number - 1)) of
              None \<Rightarrow> Done (c, Some ErrUnknownAncestor)
            | Some parent \<Rightarrow>
                if word_of_int (hd_Number parent) \<noteq> number - 1 \<or> Header_Hash (cw_keccak w) parent \<noteq> hd_ParentHash header
                then Done (c, Some ErrUnknownAncestor)
                else if word_of_int (hd_Time parent) + cc_Period (cq_config c) > (word_of_int (hd_Time header) :: uint64)
                then Done (c, Some ErrInvalidTimestamp)
                else obind (snapshot c w chain (number - 1) (hd_ParentHash header) parents)
                  (\<lambda>r. case r of
                     Inl err \<Rightarrow> Done (c, Some err)
                   | Inr (c1, s) \<Rightarrow>
                       if cc_Epoch (cq_config c) = 0 then Panic
                       else if number mod cc_Epoch (cq_config c) = 0 \<and>
                         drop extraVanity (take (length (hd_Extra header) - extraSeal) (hd_Extra header)) \<noteq> concat (map Address_Bytes (signers order))
                       then Done (c1, Some errInvalidCheckpointSigners)
                       else verifySeal c1 w chain order header parents)))"

definition verifyHeader :: "Clique \<Rightarrow> CliqueWorld \<Rightarrow> ChainReader \<Rightarrow> Address list \<Rightarrow> Header \<Rightarrow> Header list \<Rightarrow>
     (Clique \<times> clique_error option) outcome" where
  "verifyHeader c w chain order header parents =
     obind (verifyHeader_standalone c w header)
       (\<lambda>r. case r of Some err \<Rightarrow> Done (c, Some err) | None \<Rightarrow> verifyCascadingFields c w chain order header parents)"

subsection \<open>Preparing headers\<close>

definition CalcDifficulty :: "Address list \<Rightarrow> Snap \<Rightarrow> Address \<Rightarrow> int outcome" where
  "CalcDifficulty order s signer = obind (inturn order (sn_Number s + 1) signer) (\<lambda>turn. Done (if turn then 2 else 1))"

definition propose :: "Clique \<Rightarrow> Snap \<Rightarrow> nat \<Rightarrow> Header \<Rightarrow> Header" where
  \<comment> \<open>a vote on one of the proposals that make sense, chosen by the random number \<open>pick\<close>\<close>
  "propose c s pick header =
     (let addresses = filter (\<lambda>(a, auth). validVote s a auth) (cq_proposals c)
      in if addresses = [] then header
         else (let (a, auth) = addresses ! (pick mod length addresses)
               in header\<lparr>hd_Coinbase := a, hd_Nonce := (if auth then nonceAuthVote else nonceDropVote)\<rparr>))"

definition prepare_extra :: "bool \<Rightarrow> Address list \<Rightarrow> bytes \<Rightarrow> bytes" where
  "prepare_extra checkpoint order extra =
     take extraVanity (extra @ replicate (extraVanity - length extra) 0) @
     (if checkpoint then concat (map Address_Bytes (signers order)) else []) @ replicate extraSeal 0"

definition Prepare_header :: "Clique \<Rightarrow> CliqueWorld \<Rightarrow> ChainReader \<Rightarrow> Address list \<Rightarrow> nat \<Rightarrow> Header \<Rightarrow> (Clique \<times> (clique_error + Header)) outcome" where
  "Prepare_header c w chain order pick header =
     (let h1 = header\<lparr>hd_Coinbase := 0, hd_Nonce := replicate 8 0\<rparr>;
          number = word_of_int (hd_Number header) :: uint64
      in obind (snapshot c w chain (number - 1) (hd_ParentHash header) [])
        (\<lambda>r. case r of
           Inl err \<Rightarrow> Done (c, Inl err)
         | Inr (c1, s) \<Rightarrow>
             if cc_Epoch (cq_config c) = 0 then Panic
             else
               (let checkpoint = (number mod cc_Epoch (cq_config c) = 0);
                    h2 = (if checkpoint then h1 else propose c1 s pick h1)
                in obind (CalcDifficulty order s (cq_signer c))
                  (\<lambda>d. Done (c1,
                     case ch_GetHeader chain (hd_ParentHash header) (number - 1) of
                       None \<Rightarrow> Inl ErrUnknownAncestor
                     | Some parent \<Rightarrow>
                         (let t = hd_Time parent + uint (cc_Period (cq_config c))
                          in Inr (h2\<lparr>hd_Difficulty := d, hd_Extra := prepare_extra checkpoint order (hd_Extra header),
                                     hd_MixDigest := 0, hd_Time := (if sint (word_of_int t :: 64 word) < cw_now w then cw_now w else t)\<rparr>)))))))"

definition Authorize :: "Address \<Rightarrow> Clique \<Rightarrow> Clique" where
  "Authorize signer c = c\<lparr>cq_signer := signer\<rparr>"

datatype seal_decision = SealError clique_error | SealWait | SealNow

definition Seal_decision :: "Clique \<Rightarrow> CliqueWorld \<Rightarrow> ChainReader \<Rightarrow> Header \<Rightarrow> nat \<Rightarrow> (Clique \<times> seal_decision) outcome" where
  \<comment> \<open>\<open>Seal\<close> up to the point where it waits for its slot and signs\<close>
  "Seal_decision c w chain header ntxs =
     (let number = word_of_int (hd_Number header) :: uint64
      in if number = 0 then Done (c, SealError errUnknownBlock)
         else if cc_Period (cq_config c) = 0 \<and> ntxs = 0 then Done (c, SealError errWaitTransactions)
         else obind (snapshot c w chain (number - 1) (hd_ParentHash header) [])
           (\<lambda>r. Done (case r of
              Inl err \<Rightarrow> (c, SealError err)
            | Inr (c1, s) \<Rightarrow>
                (c1, if cq_signer c \<notin> sn_Signers s then SealError errUnauthorized
                     else if \<exists>(seen, recent) \<in> set (sn_Recents s). recent = cq_signer c \<and> (number < limit s \<or> seen > number - limit s)
                     then SealWait else SealNow))))"

end
