(* ===== verification/Clique_Caching.thy ===== *)
theory Clique_Caching
  imports Clique_Engine
begin

text \<open>
  Correctness of the proof-of-authority engine's snapshots: taking a cached or stored snapshot and applying the
  remaining headers gives the same as applying all headers to the snapshot of the genesis block, and the
  two tests for recent signers agree once the chain is long enough.
\<close>

subsection \<open>Applying headers in pieces\<close>

definition restamp :: "uint64 \<Rightarrow> Hash \<Rightarrow> Snap \<Rightarrow> Snap" where
  "restamp k x s = s\<lparr>sn_Number := k, sn_Hash := x\<rparr>"

lemma restamp_simps [simp]:
  "sn_Signers (restamp k x s) = sn_Signers s" "sn_Recents (restamp k x s) = sn_Recents s" "sn_Votes (restamp k x s) = sn_Votes s"
  "sn_Tally (restamp k x s) = sn_Tally s" "sn_Number (restamp k x s) = k" "sn_Hash (restamp k x s) = x"
  "restamp k x (restamp l y s) = restamp k x s" "limit (restamp k x s) = limit s"
  by (simp_all add: restamp_def limit_def)

lemma restamp_upd [simp]:
  "(restamp k x s)\<lparr>sn_Signers := S\<rparr> = restamp k x (s\<lparr>sn_Signers := S\<rparr>)" "(restamp k x s)\<lparr>sn_Recents := R\<rparr> = restamp k x (s\<lparr>sn_Recents := R\<rparr>)"
  "(restamp k x s)\<lparr>sn_Votes := V\<rparr> = restamp k x (s\<lparr>sn_Votes := V\<rparr>)" "(restamp k x s)\<lparr>sn_Tally := T\<rparr> = restamp k x (s\<lparr>sn_Tally := T\<rparr>)"
  by (cases s, simp add: restamp_def)+

lemma restamp_uncast [simp]: "fst (uncast a b (restamp k x s)) = restamp k x (fst (uncast a b s))"
  by (auto simp: uncast_def split: option.split)

lemma restamp_expire [simp]: "expire n (restamp k x s) = restamp k x (expire n s)"
  by (simp add: expire_def)

lemma restamp_reset [simp]: "reset_votes cfg n (restamp k x s) = restamp k x (reset_votes cfg n s)"
  by (simp add: reset_votes_def)

lemma restamp_discard [simp]: "discard_previous a c (restamp k x s) = restamp k x (discard_previous a c s)"
  by (auto simp: discard_previous_def split: option.split)

lemma restamp_tally_vote [simp]: "tally_vote n a c b (restamp k x s) = restamp k x (tally_vote n a c b s)"
  by (auto simp: tally_vote_def cast_def validVote_def split: option.split)

lemma restamp_retract [simp]: "retract_votes a vs (restamp k x s) = map_prod id (restamp k x) (retract_votes a vs s)"
  by (induction vs arbitrary: s) (auto simp: case_prod_beta Let_def)

lemma restamp_pass_vote [simp]: "pass_vote n c (restamp k x s) = restamp k x (pass_vote n c s)"
  by (auto simp: pass_vote_def Let_def case_prod_beta split: option.split)

lemma restamp_sealed [simp]: "sealed cfg n a c b (restamp k x s) = restamp k x (sealed cfg n a c b s)"
  by (simp add: sealed_def Let_def)

definition restamped :: "uint64 \<Rightarrow> Hash \<Rightarrow> (clique_error + Snap) outcome \<Rightarrow> (clique_error + Snap) outcome" where
  "restamped k x r = obind r (\<lambda>r. Done (map_sum id (restamp k x) r))"

lemma restamped_simps [simp]:
  "restamped k x (Done (Inl e)) = Done (Inl e)" "restamped k x (Done (Inr s)) = Done (Inr (restamp k x s))" "restamped k x Panic = Panic"
  "restamped k x OutOfFuel = OutOfFuel" "restamped k x (restamped l y r) = restamped k x r"
  by (cases r; auto simp: restamped_def sum.map_comp comp_def split: outcome.split; auto simp: map_sum_def split: sum.split)+

lemma apply_header_restamp: "apply_header cfg rec h (restamp k x s) = restamped k x (apply_header cfg rec h s)"
  by (cases "rec h") (simp_all add: apply_header_def Let_def)

lemma apply_headers_restamp: "apply_headers cfg rec hs (restamp k x s) = restamped k x (apply_headers cfg rec hs s)"
proof (induction hs arbitrary: s)
  case (Cons h hs)
  show ?case
  proof (cases "apply_header cfg rec h s")
    case (Done r)
    then show ?thesis using Cons.IH by (cases r) (simp_all add: apply_header_restamp)
  qed (simp_all add: apply_header_restamp)
qed simp

lemma apply_headers_append:
  "apply_headers cfg rec (xs @ ys) s = obind (apply_headers cfg rec xs s) (\<lambda>r. case r of Inl e \<Rightarrow> Done (Inl e) | Inr s' \<Rightarrow> apply_headers cfg rec ys s')"
proof (induction xs arbitrary: s)
  case (Cons h hs)
  show ?case
  proof (cases "apply_header cfg rec h s")
    case (Done r)
    then show ?thesis using Cons.IH by (cases r) simp_all
  qed simp_all
qed simp

lemma contiguous_append: "contiguous n (xs @ ys) \<longleftrightarrow> contiguous n xs \<and> contiguous (n + word_of_nat (length xs)) ys"
  by (induction xs arbitrary: n) (auto simp: add.assoc add.commute)

lemma restamp_self: "restamp (sn_Number s) (sn_Hash s) s = s"
  by (simp add: restamp_def)

lemma apply_headers_number:
  assumes "apply_headers cfg rec hs s = Done (Inr s')"
  shows "sn_Number s' = sn_Number s"
proof -
  have "Done (Inr s') = restamped (sn_Number s) (sn_Hash s) (apply_headers cfg rec hs s)"
    using apply_headers_restamp [of cfg rec hs "sn_Number s" "sn_Hash s" s] by (simp only: restamp_self assms)
  then have "s' = restamp (sn_Number s) (sn_Hash s) s'" by (simp add: assms)
  then show ?thesis by (metis restamp_simps(5))
qed

lemma apply_snap_eq:
  assumes "contiguous (sn_Number s) hs" "hs \<noteq> []"
  shows "apply_snap cfg K rec hs s = restamped (sn_Number s + word_of_nat (length hs)) (Header_Hash K (last hs)) (apply_headers cfg rec hs s)"
proof (cases "apply_headers cfg rec hs s")
  case (Done r)
  then show ?thesis
    using assms by (cases r) (simp_all add: apply_snap_def apply_headers_number restamp_def)
qed (use assms in \<open>simp_all add: apply_snap_def\<close>)

lemma apply_snap_append:
  assumes "apply_snap cfg K rec xs s = Done (Inr s')" "contiguous (sn_Number s) (xs @ ys)"
  shows "apply_snap cfg K rec ys s' = apply_snap cfg K rec (xs @ ys) s" "sn_Number s' = sn_Number s + word_of_nat (length xs)"
proof -
  have "apply_snap cfg K rec ys s' = apply_snap cfg K rec (xs @ ys) s \<and> sn_Number s' = sn_Number s + word_of_nat (length xs)"
  proof (cases "xs = []")
    case True
    then show ?thesis using assms(1) by (simp add: apply_snap_def)
  next
    case False
    have c: "contiguous (sn_Number s) xs" "contiguous (sn_Number s + word_of_nat (length xs)) ys" using assms(2) by (simp_all add: contiguous_append)
    let ?k = "sn_Number s + word_of_nat (length xs)" and ?x = "Header_Hash K (last xs)"
    have "restamped ?k ?x (apply_headers cfg rec xs s) = Done (Inr s')" using assms(1) apply_snap_eq [OF c(1) False] by simp
    then obtain s1 where s1: "apply_headers cfg rec xs s = Done (Inr s1)" "s' = restamp ?k ?x s1"
      by (auto simp: restamped_def obind_Done_iff split_sum_ex)
    show ?thesis
    proof (cases "ys = []")
      case True
      then show ?thesis using assms(1) s1(2) by (simp add: apply_snap_def)
    next
      case ys: False
      have "apply_snap cfg K rec ys s' = restamped (?k + word_of_nat (length ys)) (Header_Hash K (last ys)) (apply_headers cfg rec ys s')"
        using apply_snap_eq [of s' ys] c(2) ys s1(2) by simp
      also have "\<dots> = restamped (?k + word_of_nat (length ys)) (Header_Hash K (last ys)) (apply_headers cfg rec ys s1)"
        by (simp add: s1(2) apply_headers_restamp)
      also have "\<dots> = apply_snap cfg K rec (xs @ ys) s"
        using apply_snap_eq [OF assms(2)] ys s1(1) by (simp add: apply_headers_append add.assoc)
      finally show ?thesis using s1(2) by simp
    qed
  qed
  then show "apply_snap cfg K rec ys s' = apply_snap cfg K rec (xs @ ys) s" "sn_Number s' = sn_Number s + word_of_nat (length xs)" by blast+
qed

subsection \<open>A chain of headers and coherent caches\<close>

definition block_hash :: "CliqueWorld \<Rightarrow> ChainReader \<Rightarrow> Header list \<Rightarrow> nat \<Rightarrow> Hash" where
  "block_hash w chain hs i = Header_Hash (cw_keccak w) (if i = 0 then ch_Genesis chain else hs ! (i - 1))"

definition linked :: "CliqueWorld \<Rightarrow> ChainReader \<Rightarrow> Header list \<Rightarrow> bool" where
  \<comment> \<open>the headers \<open>hs\<close> follow the genesis block, the chain finds them, and their hashes differ\<close>
  "linked w chain hs \<longleftrightarrow> length hs < 2 ^ 64 \<and> contiguous 0 hs \<and> inj_on (block_hash w chain hs) {..length hs} \<and>
     (\<forall>i < length hs. hd_ParentHash (hs ! i) = block_hash w chain hs i \<and>
        ch_GetHeader chain (block_hash w chain hs (i + 1)) (word_of_nat (i + 1)) = Some (hs ! i))"

definition reference_snapshot :: "Clique \<Rightarrow> CliqueWorld \<Rightarrow> Snap \<Rightarrow> Header list \<Rightarrow> (clique_error + Snap) outcome" where
  \<comment> \<open>all headers applied to the snapshot \<open>g\<close> of the genesis block\<close>
  "reference_snapshot c w g hs = apply_snap (cq_config c) (cw_keccak w) (ecrecover w) hs g"

definition coherent :: "Clique \<Rightarrow> CliqueWorld \<Rightarrow> ChainReader \<Rightarrow> Snap \<Rightarrow> Header list \<Rightarrow> bool" where
  "coherent c w chain g hs \<longleftrightarrow>
     (\<forall>i \<le> length hs. \<forall>s. cq_recents c (block_hash w chain hs i) = Some s \<or> cq_db c (block_hash w chain hs i) = Some s \<longrightarrow>
        reference_snapshot c w g (take i hs) = Done (Inr s))"

lemma genesis_snapshot_stamp:
  assumes "genesis_snapshot c w chain = Done (Inr g)"
  shows "sn_Number g = 0" "sn_Hash g = block_hash w chain hs 0"
proof -
  have "g = newSnapshot 0 (Header_Hash (cw_keccak w) (ch_Genesis chain)) (genesis_signers (ch_Genesis chain))"
    using assms by (auto simp: genesis_snapshot_def obind_Done_iff split: option.splits)
  then show "sn_Number g = 0" "sn_Hash g = block_hash w chain hs 0" by (simp_all add: newSnapshot_def block_hash_def)
qed

lemma block_hash_inj:
  assumes "linked w chain hs" "i \<le> length hs" "j \<le> length hs" "block_hash w chain hs i = block_hash w chain hs j"
  shows "i = j"
  using assms unfolding linked_def by (auto dest: inj_onD)

lemma contiguous_take: "contiguous n hs \<Longrightarrow> contiguous n (take i hs)"
  using contiguous_append [of n "take i hs" "drop i hs"] by simp

lemma reference_hash:
  assumes "linked w chain hs" "sn_Number g = 0" "sn_Hash g = block_hash w chain hs 0" "i \<le> length hs" "reference_snapshot c w g (take i hs) = Done (Inr s)"
  shows "sn_Hash s = block_hash w chain hs i"
proof (cases "i = 0")
  case True
  then show ?thesis using assms(3,5) by (simp add: reference_snapshot_def apply_snap_def)
next
  case False
  then have ne: "take i hs \<noteq> []" using assms(4) by auto
  have l: "last (take i hs) = hs ! (i - 1)" using last_conv_nth [OF ne] False assms(4) by (simp add: min_absorb2)
  have "contiguous (sn_Number g) (take i hs)" using assms(1,2) contiguous_take by (simp add: linked_def)
  from apply_snap_eq [OF this ne, of "cq_config c" "cw_keccak w" "ecrecover w"] assms(5)
  show ?thesis using False l by (auto simp: reference_snapshot_def restamped_def obind_Done_iff split_sum_ex block_hash_def)
qed

lemma coherent_recents:
  assumes "coherent c w chain g hs" "linked w chain hs" "i \<le> length hs" "reference_snapshot c w g (take i hs) = Done (Inr s)" "x = block_hash w chain hs i"
  shows "coherent (c\<lparr>cq_recents := (cq_recents c)(x \<mapsto> s)\<rparr>) w chain g hs" "coherent (c\<lparr>cq_db := (cq_db c)(x \<mapsto> s)\<rparr>) w chain g hs"
proof -
  have "reference_snapshot c w g (take j hs) = Done (Inr t)"
    if "j \<le> length hs" "x = block_hash w chain hs j" "t = s" for j t
    using block_hash_inj [OF assms(2) assms(3) that(1)] that assms(4,5) by simp
  then show "coherent (c\<lparr>cq_recents := (cq_recents c)(x \<mapsto> s)\<rparr>) w chain g hs" "coherent (c\<lparr>cq_db := (cq_db c)(x \<mapsto> s)\<rparr>) w chain g hs"
    using assms(1) unfolding coherent_def reference_snapshot_def by (auto split: if_splits)
qed

lemma snapshot_base_hit:
  "cq_recents c x = Some s \<Longrightarrow> snapshot_base c w chain n x ps acc = Done (Inr (c, s, acc))"
  "cq_recents c x = None \<Longrightarrow> n mod checkpointInterval = 0 \<Longrightarrow> cq_db c x = Some s \<Longrightarrow> snapshot_base c w chain n x ps acc = Done (Inr (c, s, acc))"
  by (simp_all add: snapshot_base.simps)

lemma snapshot_base_linked:
  assumes "linked w chain hs" "coherent c w chain g hs" "genesis_snapshot c w chain = Done (Inr g)" "\<forall>x. cw_put_ok w x" "i \<le> length hs"
  shows "\<exists>c' s j. snapshot_base c w chain (word_of_nat i) (block_hash w chain hs i) [] acc = Done (Inr (c', s, drop j (take i hs) @ acc)) \<and>
    j \<le> i \<and> reference_snapshot c w g (take j hs) = Done (Inr s) \<and> coherent c' w chain g hs \<and> cq_config c' = cq_config c"
  using assms(5)
proof (induction i arbitrary: acc)
  case 0
  let ?x = "block_hash w chain hs 0"
  have g: "sn_Hash g = ?x" by (rule genesis_snapshot_stamp(2) [OF assms(3)])
  have "reference_snapshot c w g (take 0 hs) = Done (Inr g)" by (simp add: reference_snapshot_def apply_snap_def)
  note store = this coherent_recents(2) [OF assms(2,1) _ this refl]
  have cached: "reference_snapshot c w g (take 0 hs) = Done (Inr s)" if "cq_recents c ?x = Some s \<or> cq_db c ?x = Some s" for s
    using assms(2) that unfolding coherent_def by blast
  show ?case
  proof (cases "cq_recents c ?x = None \<and> cq_db c ?x = None")
    case True
    then show ?thesis using store g assms(3,4) by (subst snapshot_base.simps) (simp add: store_snap_def)
  next
    case False
    then obtain s where "snapshot_base c w chain 0 ?x [] acc = Done (Inr (c, s, acc))" "cq_recents c ?x = Some s \<or> cq_db c ?x = Some s"
      using snapshot_base_hit by (cases "cq_recents c ?x") auto
    then show ?thesis using cached assms(2) by auto
  qed
next
  case (Suc i)
  let ?x = "block_hash w chain hs (Suc i)" and ?n = "word_of_nat (Suc i) :: uint64"
  have i: "i < length hs" "i \<le> length hs" using Suc.prems by simp_all
  have link: "hd_ParentHash (hs ! i) = block_hash w chain hs i" "ch_GetHeader chain ?x ?n = Some (hs ! i)"
    using assms(1) i by (auto simp: linked_def)
  have "unat ?n = Suc i" using assms(1) i by (simp only: unsigned_of_nat linked_def) (simp add: take_bit_nat_eq_self)
  then have n: "?n \<noteq> 0" "?n - 1 = word_of_nat i" by (auto simp del: of_nat_Suc, simp)
  have cached: "reference_snapshot c w g (take (Suc i) hs) = Done (Inr s)" if "cq_recents c ?x = Some s \<or> cq_db c ?x = Some s" for s
    using assms(2) that Suc.prems unfolding coherent_def by blast
  show ?case
  proof (cases "cq_recents c ?x = None \<and> (?n mod checkpointInterval = 0 \<longrightarrow> cq_db c ?x = None)")
    case True
    have "snapshot_base c w chain ?n ?x [] acc = snapshot_base c w chain (word_of_nat i) (block_hash w chain hs i) [] (hs ! i # acc)"
      using True n link by (subst snapshot_base.simps) (auto simp del: of_nat_Suc)
    moreover have "drop j (take i hs) @ hs ! i # acc = drop j (take (Suc i) hs) @ acc" if "j \<le> i" for j
      using that i by (simp add: take_Suc_conv_app_nth)
    ultimately show ?thesis using Suc.IH [OF i(2), of "hs ! i # acc"] le_SucI by metis
  next
    case False
    then obtain s where "snapshot_base c w chain ?n ?x [] acc = Done (Inr (c, s, acc))" "cq_recents c ?x = Some s \<or> cq_db c ?x = Some s"
      using snapshot_base_hit by (cases "cq_recents c ?x") (auto simp del: of_nat_Suc)
    then show ?thesis using cached assms(2) by (intro exI [of _ c] exI [of _ s] exI [of _ "Suc i"]) simp
  qed
qed

lemma unat_sub_wrap:
  fixes x y :: uint64
  assumes "x < y"
  shows "unat (x - y) + unat y = unat x + 2 ^ 64"
proof -
  have "uint (x - y) = uint x - uint y + 2 ^ 64" using assms uint_sub_if' [of x y] by (simp add: word_less_def)
  then have "int (unat (x - y) + unat y) = int (unat x + 2 ^ 64)" by simp
  then show ?thesis by (simp only: of_nat_eq_iff)
qed

subsection \<open>Properties\<close>

text \<open>
  C30. Caching snapshots is sound. When every snapshot that the cache or the database holds for a block of the chain
  is the one computed from the genesis block, then \<open>snapshot\<close> returns, for the last block, exactly what applying
  all its headers to the genesis snapshot gives, error or result, and the caches stay correct.
\<close>

theorem snapshot_matches_reference:
  assumes "linked w chain hs" "coherent c w chain g hs" "genesis_snapshot c w chain = Done (Inr g)" "\<forall>x. cw_put_ok w x"
  shows "(\<forall>s. reference_snapshot c w g hs = Done (Inr s) \<longrightarrow>
      (\<exists>c'. snapshot c w chain (word_of_nat (length hs)) (block_hash w chain hs (length hs)) [] = Done (Inr (c', s)) \<and> coherent c' w chain g hs)) \<and>
    (\<forall>e. reference_snapshot c w g hs = Done (Inl e) \<longrightarrow>
      snapshot c w chain (word_of_nat (length hs)) (block_hash w chain hs (length hs)) [] = Done (Inl e))"
proof -
  obtain c1 base j where b: "snapshot_base c w chain (word_of_nat (length hs)) (block_hash w chain hs (length hs)) [] [] = Done (Inr (c1, base, drop j hs))"
      "j \<le> length hs" "reference_snapshot c w g (take j hs) = Done (Inr base)" "coherent c1 w chain g hs" "cq_config c1 = cq_config c"
    using snapshot_base_linked [OF assms order_refl, of "[]"] by auto
  note g = genesis_snapshot_stamp(1) [OF assms(3)] genesis_snapshot_stamp(2) [OF assms(3), of hs]
  have "contiguous (sn_Number g) (take j hs @ drop j hs)" using assms(1) g(1) by (simp add: linked_def)
  from apply_snap_append(1) [OF b(3) [unfolded reference_snapshot_def] this]
  have rest: "apply_snap (cq_config c) (cw_keccak w) (ecrecover w) (drop j hs) base = reference_snapshot c w g hs" by (simp add: reference_snapshot_def)
  have "\<exists>c'. snapshot c w chain (word_of_nat (length hs)) (block_hash w chain hs (length hs)) [] = Done (Inr (c', s)) \<and> coherent c' w chain g hs"
    if r: "reference_snapshot c w g hs = Done (Inr s)" for s
  proof -
    have h: "sn_Hash s = block_hash w chain hs (length hs)" using reference_hash [OF assms(1) g order_refl] r by simp
    let ?c = "c1\<lparr>cq_recents := (cq_recents c1)(sn_Hash s \<mapsto> s)\<rparr>"
    have r1: "reference_snapshot c1 w g (take (length hs) hs) = Done (Inr s)" using r b(5) by (simp add: reference_snapshot_def)
    have c1: "coherent ?c w chain g hs" by (rule coherent_recents(1) [OF b(4) assms(1) order_refl r1 h])
    have "reference_snapshot ?c w g (take (length hs) hs) = Done (Inr s)" using r1 by (simp add: reference_snapshot_def)
    note c2 = coherent_recents(2) [OF c1 assms(1) order_refl this h]
    show ?thesis using c1 c2 b(1) rest r assms(4) by (auto simp: snapshot_def store_snap_def Let_def)
  qed
  moreover have "snapshot c w chain (word_of_nat (length hs)) (block_hash w chain hs (length hs)) [] = Done (Inl e)"
    if "reference_snapshot c w g hs = Done (Inl e)" for e using b(1) rest that by (simp add: snapshot_def)
  ultimately show ?thesis by blast
qed

text \<open>
  C31. The tests for recent signers. On a reachable snapshot, \<open>verifySeal\<close> refuses the next block of a signer exactly
  when \<open>apply\<close> would, provided the block number has reached the window of the signers; before that the
  subtraction in \<open>verifySeal\<close> wraps around and it refuses nobody, while \<open>apply\<close> refuses every recent signer.
\<close>

theorem seen_recently_iff:
  assumes "clique_reachable cfg K rec s" "unat (sn_Number s) + 1 < 2 ^ 64"
  shows "(limit s \<le> sn_Number s + 1 \<longrightarrow>
      seen_recently (sn_Number s + 1) s a = (a \<in> snd ` set (sn_Recents (expire (sn_Number s + 1) s)))) \<and>
    (sn_Number s + 1 < limit s \<longrightarrow> \<not> seen_recently (sn_Number s + 1) s a \<and> sn_Recents (expire (sn_Number s + 1) s) = sn_Recents s)"
proof -
  let ?n = "unat (sn_Number s)" and ?N = "sn_Number s + 1"
  have ok: "recents_ok ?n s" "card (sn_Signers s) \<le> 2 ^ 63 + ?n" using clique_reachable_ok [OF assms(1)] by (simp_all add: snap_ok_def)
  have N: "unat ?N = ?n + 1" by (rule unat_Suc [OF assms(2)])
  have l: "unat (limit s) = window s" using unat_limit [OF ok(2)] assms(2) by simp
  have r: "unat k \<le> ?n \<and> ?n < unat k + window s" if "(k, b) \<in> set (sn_Recents s)" for k b using ok(1) that unfolding recents_ok_def by fastforce
  have "seen_recently ?N s a = (a \<in> snd ` set (sn_Recents (expire ?N s)))" if "limit s \<le> ?N"
  proof -
    have d: "unat (?N - limit s) = ?n + 1 - window s" using that l N by (simp add: unat_sub word_le_nat_alt)
    have k: "k > ?N - limit s \<longleftrightarrow> k \<noteq> ?N - limit s" if "(k, b) \<in> set (sn_Recents s)" for k b
      using r [OF that] d word_eq_iff_nat [of k "?N - limit s"] by (auto simp: word_less_nat_alt)
    show ?thesis using that k by (force simp: seen_recently_def expire_def set_delete image_iff)
  qed
  moreover have "\<not> seen_recently ?N s a" "sn_Recents (expire ?N s) = sn_Recents s" if "?N < limit s"
  proof -
    have "unat (limit s) < 2 ^ 64" using unsigned_less [of "limit s", where ?'a = nat] by simp
    then have "?n < unat (?N - limit s)" using unat_sub_wrap [OF that] N by linarith
    then show "\<not> seen_recently ?N s a" using r by (fastforce simp: seen_recently_def word_less_nat_alt)
    show "sn_Recents (expire ?N s) = sn_Recents s" using that by (simp add: expire_def)
  qed
  ultimately show ?thesis by blast
qed

subsection \<open>A sample chain\<close>

definition sampleCliqueWorld :: CliqueWorld where
  "sampleCliqueWorld = \<lparr>cw_keccak = BytesToHash, cw_Ecrecover = (\<lambda>_ _. Some (0 # replicate 31 0 @ [5])), cw_now = 0, cw_put_ok = (\<lambda>_. True)\<rparr>"

definition sampleGenesis :: Header where
  \<comment> \<open>the extra data names the signer 5\<close>
  "sampleGenesis = sampleHeader\<lparr>hd_Number := 0, hd_Coinbase := 0, hd_Nonce := replicate 8 0, hd_UncleHash := 0xC0,
     hd_Extra := replicate 51 0 @ [5] @ replicate 65 0, hd_DAppMainHash := 1\<rparr>"

definition sampleBlock :: Header where
  "sampleBlock = sampleHeader\<lparr>hd_ParentHash := 1, hd_UncleHash := 0xC0, hd_Extra := replicate 97 0, hd_DAppMainHash := 2\<rparr>"

definition sampleChain :: ChainReader where
  "sampleChain = \<lparr>ch_GetHeader = (\<lambda>x n. if x = 2 \<and> n = 1 then Some sampleBlock else None), ch_Genesis = sampleGenesis\<rparr>"

definition sampleEngine :: Clique where
  "sampleEngine = \<lparr>cq_config = sampleClique, cq_recents = Map.empty, cq_db = Map.empty, cq_proposals = [], cq_signer = 5\<rparr>"

lemma BytesToHash_suffix: "BytesToHash (xs @ Hash_Bytes m) = m"
proof -
  have "crop_left 32 (xs @ Hash_Bytes m) = crop_left 32 (Hash_Bytes m)" by (simp add: crop_left_def)
  then have "BytesToHash (xs @ Hash_Bytes m) = BytesToHash (Hash_Bytes m)" by (simp only: BytesToHash_def)
  then show ?thesis by simp
qed

lemma rlpHash_last:
  assumes "encodable (VList (vs @ [VBytes (Hash_Bytes m)]))" "length (encoding (VList (vs @ [VBytes (Hash_Bytes m)]))) < 2 ^ 64"
  shows "rlpHash BytesToHash (VList (vs @ [VBytes (Hash_Bytes m)])) = m"
proof -
  have "\<exists>xs. encoding (VList (vs @ [VBytes (Hash_Bytes m)])) = xs @ Hash_Bytes m"
    by (simp add: enc_list_def enc_str_def flip: append_assoc)
  then show ?thesis using EncodeToBytes_writes [OF assms] BytesToHash_suffix by (auto simp: rlpHash_def)
qed

lemma length_enc_small: "length b \<noteq> 1 \<Longrightarrow> length b < 56 \<Longrightarrow> length (enc_str b) = length b + 1"
  by (simp add: enc_str_def puthead_def)

lemma sample_lengths:
  "length (Address_Bytes 0) = 20" "length (Address_Bytes 9) = 20" "length (enc_str (Bytes 0)) = 1" "length (enc_str (Bytes 1)) = 1"
  "length (enc_str (Bytes 2)) = 1" "length (enc_str (be_bytes 0)) = 1"
  "length (enc_str (replicate 97 0)) = 99" "length (enc_str (replicate 51 0 @ 5 # replicate 65 0)) = 119"
  by code_simp+

definition header_fields :: "Header \<Rightarrow> rlp_value list" where
  "header_fields h =
     [VBytes (Hash_Bytes (hd_ParentHash h)), VBytes (Hash_Bytes (hd_UncleHash h)), VBytes (Address_Bytes (hd_Coinbase h)),
      VBytes (Hash_Bytes (hd_Root h)), VBytes (Hash_Bytes (hd_TxHash h)), VBytes (Hash_Bytes (hd_ReceiptHash h)),
      VBytes (hd_Bloom h), VBig (hd_Difficulty h), VBig (hd_Number h), VUint (hd_GasLimit h), VUint (hd_GasUsed h),
      VBig (hd_Time h), VBytes (hd_Extra h), VBytes (Hash_Bytes (hd_MixDigest h)), VBytes (hd_Nonce h),
      VUint (hd_Round h), VUint (hd_Round2 h), VBytes (hd_PresidentId h), VBytes (Address_Bytes (hd_DAppID h))]"

lemma Header_Hash_last:
  assumes "0 \<le> hd_Difficulty h" "0 \<le> hd_Number h" "0 \<le> hd_Time h" "length (concat (map encoding (header_fields h))) < 1000"
  shows "Header_Hash BytesToHash h = hd_DAppMainHash h"
proof -
  let ?vs = "header_fields h" and ?m = "VBytes (Hash_Bytes (hd_DAppMainHash h))"
  have "length (concat (map encoding (?vs @ [?m]))) < 2000" using assms(4) by (simp add: length_enc_small)
  then have "length (encoding (VList (?vs @ [?m]))) < 2 ^ 64" by (simp add: enc_list_def puthead_def putint_def Let_def)
  moreover have "encodable (VList (?vs @ [?m]))" using assms(1-3) by (simp add: header_fields_def)
  ultimately have "rlpHash BytesToHash (VList (?vs @ [?m])) = hd_DAppMainHash h" by (intro rlpHash_last)
  then show ?thesis by (simp add: Header_Hash_def header_fields_def)
qed

lemma sample_hashes: "Header_Hash BytesToHash sampleGenesis = 1" "Header_Hash BytesToHash sampleBlock = 2"
  using Header_Hash_last [of sampleGenesis] Header_Hash_last [of sampleBlock]
  by (simp_all add: header_fields_def sampleGenesis_def sampleBlock_def sampleHeader_def length_enc_small sample_lengths)

lemma sample_genesis: "genesis_snapshot sampleEngine sampleCliqueWorld sampleChain = Done (Inr (newSnapshot 0 1 [5]))"
proof -
  have "uncleHash BytesToHash = 0xC0" "genesis_signers sampleGenesis = [5]" by code_simp+
  moreover have "verifyHeader_standalone sampleEngine sampleCliqueWorld sampleGenesis = Done None"
    using calculation(1) by (simp add: verifyHeader_standalone_def sampleEngine_def sampleCliqueWorld_def sampleClique_def sampleGenesis_def
        sampleHeader_def nonceDropVote_def nonceAuthVote_def extraVanity_def extraSeal_def Let_def)
  ultimately show ?thesis by (simp add: genesis_snapshot_def sampleChain_def sample_hashes) (simp add: sampleCliqueWorld_def sample_hashes)
qed

lemma sample_recover: "ecrecover sampleCliqueWorld sampleBlock = Inr 5"
proof -
  have "BytesToAddress (drop 12 (Hash_Bytes (BytesToHash (replicate 31 0 @ [5])))) = 5" by code_simp
  then show ?thesis
    by (simp add: ecrecover_def extraSeal_def sigHash_def sampleBlock_def sampleHeader_def sampleCliqueWorld_def)
qed

lemma sample_reference: "reference_snapshot sampleEngine sampleCliqueWorld (newSnapshot 0 1 [5]) [sampleBlock] =
    Done (Inr \<lparr>sn_Number = 1, sn_Hash = 2, sn_Signers = {9, 5}, sn_Recents = [(1, 5)], sn_Votes = [], sn_Tally = Map.empty\<rparr>)"
proof -
  have f: "hd_Number sampleBlock = 1" "hd_Coinbase sampleBlock = 9" "hd_Nonce sampleBlock = nonceAuthVote"
    by (simp_all add: sampleBlock_def sampleHeader_def nonceAuthVote_def)
  have "apply_header sampleClique (ecrecover sampleCliqueWorld) sampleBlock (newSnapshot 0 1 [5]) =
      Done (Inr \<lparr>sn_Number = 0, sn_Hash = 1, sn_Signers = {9, 5}, sn_Recents = [(1, 5)], sn_Votes = [], sn_Tally = Map.empty\<rparr>)"
    by (simp add: apply_header_def sample_recover f sampleClique_def newSnapshot_def reset_votes_def expire_def limit_def discard_previous_def
        tally_vote_def cast_def validVote_def pass_vote_def Let_def)
  moreover have "cq_config sampleEngine = sampleClique" "cw_keccak sampleCliqueWorld = BytesToHash" by (simp_all add: sampleEngine_def sampleCliqueWorld_def)
  ultimately show ?thesis
    by (simp add: reference_snapshot_def apply_snap_def sample_hashes f) (simp add: newSnapshot_def)
qed

theorem snapshot_matches_reference_witness:
  "\<exists>c' s. snapshot sampleEngine sampleCliqueWorld sampleChain 1 2 [] = Done (Inr (c', s)) \<and> sn_Signers s = {5, 9}"
proof -
  let ?b = "block_hash sampleCliqueWorld sampleChain [sampleBlock]"
  have h: "?b 0 = 1" "?b 1 = 2" by (simp_all add: block_hash_def sampleCliqueWorld_def sampleChain_def sample_hashes)
  have "hd_ParentHash sampleBlock = 1" "hd_Number sampleBlock = 1" by (simp_all add: sampleBlock_def sampleHeader_def)
  moreover have "inj_on ?b {..1}" using h by (auto simp: inj_on_def le_Suc_eq)
  ultimately have "linked sampleCliqueWorld sampleChain [sampleBlock]"
    using h by (simp add: linked_def) (simp add: sampleChain_def)
  moreover have "coherent sampleEngine sampleCliqueWorld sampleChain (newSnapshot 0 1 [5]) [sampleBlock]"
    by (simp add: coherent_def sampleEngine_def)
  moreover have "\<forall>x. cw_put_ok sampleCliqueWorld x" by (simp add: sampleCliqueWorld_def)
  ultimately have "\<exists>c'. snapshot sampleEngine sampleCliqueWorld sampleChain (word_of_nat (length [sampleBlock])) (?b (length [sampleBlock])) [] =
      Done (Inr (c', \<lparr>sn_Number = 1, sn_Hash = 2, sn_Signers = {9, 5}, sn_Recents = [(1, 5)], sn_Votes = [], sn_Tally = Map.empty\<rparr>))"
    using snapshot_matches_reference [OF _ _ sample_genesis, of "[sampleBlock]"] sample_reference by blast
  then show ?thesis using h(2) by auto
qed

definition sampleFive :: Snap where
  \<comment> \<open>five signers, block 1 signed by 5, which voted for 9\<close>
  "sampleFive = \<lparr>sn_Number = 1, sn_Hash = 0, sn_Signers = {4, 5, 6, 7, 8}, sn_Recents = [(1, 5)],
     sn_Votes = [\<lparr>vt_Signer = 5, vt_Block = 1, vt_Address = 9, vt_Authorize = True\<rparr>], sn_Tally = [9 \<mapsto> \<lparr>tl_Authorize = True, tl_Votes = 1\<rparr>]\<rparr>"

lemma sampleFive_reachable: "clique_reachable sampleClique (\<lambda>_. 0) (\<lambda>_. Inr 5) sampleFive"
proof -
  have r: "clique_reachable sampleClique (\<lambda>_. 0) (\<lambda>_. Inr 5) (newSnapshot 0 0 [4, 5, 6, 7, 8])" by (rule clique_reachable.genesis) simp
  have p: "apply_snap sampleClique (\<lambda>_. 0) (\<lambda>_. Inr 5) [sampleHeader] (newSnapshot 0 0 [4, 5, 6, 7, 8]) = Done (Inr sampleFive)"
    by (simp add: apply_snap_def apply_header_def sampleFive_def sampleClique_def sampleHeader_def newSnapshot_def reset_votes_def expire_def limit_def
        discard_previous_def tally_vote_def cast_def validVote_def pass_vote_def nonceAuthVote_def Let_def Header_Hash_def rlpHash_def)
  have u: "unat (sn_Number (newSnapshot 0 0 [4, 5, 6, 7, 8])) + length [sampleHeader] < 2 ^ 64" by (simp add: newSnapshot_def)
  show ?thesis by (rule clique_reachable.extend [OF r u p])
qed

theorem seen_recently_iff_witness:
  "\<not> seen_recently 2 sampleFive 5 \<and> apply_header sampleClique (\<lambda>_. Inr 5) (sampleHeader\<lparr>hd_Number := 2\<rparr>) sampleFive = Done (Inl errUnauthorized)"
proof -
  have n: "unat (sn_Number sampleFive) + 1 < 2 ^ 64" "sn_Number sampleFive + 1 = 2" "sn_Number sampleFive + 1 < limit sampleFive"
    by (simp_all add: sampleFive_def limit_def)
  then have "\<not> seen_recently 2 sampleFive 5" "sn_Recents (expire 2 sampleFive) = sn_Recents sampleFive"
    using seen_recently_iff [OF sampleFive_reachable n(1), of 5] unfolding n(2) by simp_all
  then show ?thesis by (simp add: apply_header_def sampleClique_def sampleHeader_def Let_def) (simp add: sampleFive_def)
qed

lemma sole_signer_drops_itself:
  "\<exists>s. apply_header sampleClique (\<lambda>_. Inr 5) (sampleHeader\<lparr>hd_Coinbase := 5, hd_Nonce := nonceDropVote\<rparr>) (newSnapshot 0 0 [5]) = Done (Inr s) \<and>
     sn_Signers s = {} \<and> inturn [] n a = Panic"
  by (simp add: apply_header_def sampleClique_def sampleHeader_def newSnapshot_def reset_votes_def expire_def limit_def discard_previous_def
      tally_vote_def cast_def uncast_def validVote_def pass_vote_def nonceAuthVote_def nonceDropVote_def Let_def inturn_def signers_def)

end
